(* ===== verification/Prelude.thy ===== *)
theory Prelude
  imports Main "HOL-Library.AList" "HOL-Library.Sublist" "HOL-Library.Multiset"
    "HOL-Library.Char_ord" "HOL-Library.List_Lexorder"
begin

text \<open>
  What every component shares: the result type of Go's \<open>(value, error)\<close> returns, the lemma
  collections, and generic facts on association lists (Go maps that are ranged over or sorted),
  on counting and on sorting by a key.
\<close>

section \<open>Results\<close>

text \<open>A Go function returning \<open>(T, error)\<close>: \<open>Inl e\<close> for a non-nil error.\<close>

type_synonym ('e, 'a) result = "'e + 'a"

definition rbind :: "('e, 'a) result \<Rightarrow> ('a \<Rightarrow> ('e, 'b) result) \<Rightarrow> ('e, 'b) result" where
  "rbind m f = (case m of Inl e \<Rightarrow> Inl e | Inr x \<Rightarrow> f x)"

named_theorems result_iff \<open>when a composed result is a success\<close>

lemma rbind_simps [simp]:
  "rbind (Inl e) f = Inl e"
  "rbind (Inr x) f = f x"
  by (simp_all add: rbind_def)

lemma rbind_Inr_iff [result_iff]:
  "rbind m f = Inr y \<longleftrightarrow> (\<exists>x. m = Inr x \<and> f x = Inr y)"
  by (cases m) auto

lemma rbind_cong [fundef_cong]:
  "m = m' \<Longrightarrow> (\<And>x. m' = Inr x \<Longrightarrow> f x = f' x) \<Longrightarrow> rbind m f = rbind m' f'"
  by (cases m') auto

definition guard_err :: "bool \<Rightarrow> 'e \<Rightarrow> ('e, unit) result" where
  "guard_err b e = (if b then Inl e else Inr ())"

lemma guard_err_Inr_iff [result_iff]: "guard_err b e = Inr u \<longleftrightarrow> \<not> b"
  by (cases u) (simp add: guard_err_def)

lemma guard_err_simps [simp]:
  "guard_err True e = Inl e"
  "guard_err False e = Inr ()"
  by (simp_all add: guard_err_def)

lemma if_Inl_Inr_iff [result_iff]:
  "(if b then Inl e else m) = Inr y \<longleftrightarrow> \<not> b \<and> m = Inr y"
  by simp

section \<open>Go maps as association lists\<close>

lemma alist_update_dom: "fst ` set (AList.update k v al) = insert k (fst ` set al)"
  by (simp add: dom_update)

lemma alist_update_map: "map_of (AList.update k v al) = (map_of al)(k \<mapsto> v)"
  by (rule ext) (simp add: update_conv')

lemma alist_delete_map: "map_of (AList.delete k al) = (map_of al)(k := None)"
  by (simp add: delete_conv')

lemmas alist_maps = alist_update_map alist_delete_map

lemma length_filter_delete_absent:
  "k \<notin> fst ` set al \<Longrightarrow> AList.delete k al = al"
  by (induction al) (auto simp: AList.delete_eq)

lemma alist_update_absent:
  "k \<notin> fst ` set al \<Longrightarrow> AList.update k v al = al @ [(k, v)]"
  by (induction al) auto

lemma alist_delete_last:
  "k \<notin> fst ` set al \<Longrightarrow> AList.delete k (al @ [(k, v)]) = al"
  by (simp add: AList.delete_eq filter_id_conv) force

section \<open>Bytes\<close>

text \<open>A \<open>char\<close> is a byte; this is its value.\<close>

abbreviation byte :: "char \<Rightarrow> nat" where
  "byte c \<equiv> of_char c"

abbreviation in_range :: "char \<Rightarrow> char \<Rightarrow> char \<Rightarrow> bool" where
  "in_range lo hi c \<equiv> lo \<le> c \<and> c \<le> hi"

lemma of_char_less_256: "byte c < 256"
  by (metis mod_less_divisor of_char_mod_256 zero_less_numeral)

section \<open>Sorting by a key\<close>

text \<open>
  \<open>sort.Slice\<close> is not stable, so a program may rely on it only where elements with equal keys
  are equal. Under that condition every sorted rearrangement is the one \<open>sort_key\<close> computes.
\<close>

lemma sorted_key_unique:
  assumes "mset ys = mset xs"
    and "sorted (map f ys)"
    and inj: "\<And>x y. x \<in> set xs \<Longrightarrow> y \<in> set xs \<Longrightarrow> f x = f y \<Longrightarrow> x = y"
  shows "ys = sort_key f xs"
proof (rule sym, rule properties_for_sort_key)
  show "mset ys = mset xs" by fact
  show "sorted (map f ys)" by fact
next
  fix k assume k: "k \<in> set ys"
  have set_eq: "set ys = set xs"
    using assms(1) by (rule mset_eq_setD)
  have same: "(\<lambda>x. f k = f x) y \<longleftrightarrow> y = k" if "y \<in> set xs" for y
    using inj [of k y] k that set_eq by auto
  have "filter (\<lambda>x. f k = f x) ys = filter (\<lambda>x. x = k) ys"
    by (rule filter_cong) (use same set_eq in auto)
  also have "\<dots> = replicate (count (mset ys) k) k"
    by (induction ys) auto
  also have "\<dots> = replicate (count (mset xs) k) k"
    using assms(1) by simp
  also have "\<dots> = filter (\<lambda>x. x = k) xs"
    by (induction xs) auto
  also have "\<dots> = filter (\<lambda>x. f k = f x) xs"
    by (rule filter_cong) (use same in auto)
  finally show "filter (\<lambda>x. f k = f x) ys = filter (\<lambda>x. f k = f x) xs" .
qed

lemma hd_sort_key_le: "x \<in> set xs \<Longrightarrow> f (hd (sort_key f xs)) \<le> f x"
proof -
  assume x: "x \<in> set xs"
  then have "sort_key f xs \<noteq> []" by (metis empty_iff list.set(1) set_sort)
  then obtain y ys where s: "sort_key f xs = y # ys" by (cases "sort_key f xs") auto
  have "sorted (map f (y # ys))" using sorted_sort_key [of f xs] s by simp
  moreover have "x \<in> set (y # ys)" using x s set_sort [of f xs] by simp
  ultimately show ?thesis using s by auto
qed

end
