(* ===== verification/GoStrings.thy ===== *)
theory GoStrings
  imports Prelude
begin

text \<open>
  The part of Go's \<open>strings\<close> package the gateway uses, on byte strings (a HOL \<open>char\<close> is
  one byte, so \<open>length\<close> is Go's \<open>len\<close>). Every separator the program passes to \<open>Cut\<close>
  and \<open>Split\<close> is one byte, so they take a \<open>char\<close>.
\<close>

section \<open>Prefixes, suffixes, cutting and splitting\<close>

definition has_prefix :: "string \<Rightarrow> string \<Rightarrow> bool" where
  "has_prefix s p \<longleftrightarrow> prefix p s"

definition has_suffix :: "string \<Rightarrow> string \<Rightarrow> bool" where
  "has_suffix s p \<longleftrightarrow> suffix p s"

definition trim_prefix :: "string \<Rightarrow> string \<Rightarrow> string" where
  "trim_prefix s p = (if has_prefix s p then drop (length p) s else s)"

definition trim_suffix :: "string \<Rightarrow> string \<Rightarrow> string" where
  "trim_suffix s p = (if has_suffix s p then take (length s - length p) s else s)"

definition cut_prefix :: "string \<Rightarrow> string \<Rightarrow> string \<times> bool" where
  "cut_prefix s p = (if has_prefix s p then (drop (length p) s, True) else (s, False))"

definition contains :: "string \<Rightarrow> string \<Rightarrow> bool" where
  "contains s t \<longleftrightarrow> sublist t s"

text \<open>\<open>Cut s c = (before, after, found)\<close>.\<close>

definition cut :: "string \<Rightarrow> char \<Rightarrow> string \<times> string \<times> bool" where
  "cut s c = (takeWhile (\<lambda>x. x \<noteq> c) s, drop 1 (dropWhile (\<lambda>x. x \<noteq> c) s), c \<in> set s)"

fun split_on :: "char \<Rightarrow> string \<Rightarrow> string list" where
  "split_on c [] = [[]]"
| "split_on c (x # xs) =
     (if x = c then [] # split_on c xs
      else (case split_on c xs of [] \<Rightarrow> [[x]] | y # ys \<Rightarrow> (x # y) # ys))"

fun join :: "string \<Rightarrow> string list \<Rightarrow> string" where
  "join sep [] = []"
| "join sep [x] = x"
| "join sep (x # y # ys) = x @ sep @ join sep (y # ys)"

lemma has_prefix_simps [simp]:
  "has_prefix s []"
  "has_prefix [] (c # p) = False"
  "has_prefix (x # s) (c # p) \<longleftrightarrow> x = c \<and> has_prefix s p"
  by (auto simp: has_prefix_def)

lemma has_prefix_append: "has_prefix (p @ s) p"
  by (simp add: has_prefix_def)

lemma has_prefix_iff: "has_prefix s p \<longleftrightarrow> (\<exists>t. s = p @ t)"
  by (auto simp: has_prefix_def prefix_def)

lemma cut_found:
  "c \<notin> set b \<Longrightarrow> cut (b @ c # a) c = (b, a, True)"
  by (induction b) (auto simp: cut_def)

lemma cut_not_found: "c \<notin> set s \<Longrightarrow> cut s c = (s, [], False)"
  by (induction s) (auto simp: cut_def)

lemma cut_TrueD:
  assumes "cut s c = (b, a, True)"
  shows "s = b @ c # a \<and> c \<notin> set b"
proof -
  from assms have c: "c \<in> set s" and b: "b = takeWhile (\<lambda>x. x \<noteq> c) s"
    and a: "a = drop 1 (dropWhile (\<lambda>x. x \<noteq> c) s)"
    by (auto simp: cut_def)
  from c have ne: "dropWhile (\<lambda>x. x \<noteq> c) s \<noteq> []"
    by (auto simp: dropWhile_eq_Nil_conv)
  then obtain h t where d: "dropWhile (\<lambda>x. x \<noteq> c) s = h # t" by (cases "dropWhile (\<lambda>x. x \<noteq> c) s") auto
  have "h = c" using hd_dropWhile [OF ne] d by simp
  with d a have "dropWhile (\<lambda>x. x \<noteq> c) s = c # a" by simp
  then have "s = b @ c # a" using b takeWhile_dropWhile_id [of "\<lambda>x. x \<noteq> c" s] by simp
  moreover have "c \<notin> set b" using b by (auto dest: set_takeWhileD)
  ultimately show ?thesis by simp
qed

lemma cut_flag: "cut s c = (b, a, f) \<Longrightarrow> f \<longleftrightarrow> c \<in> set s"
  by (auto simp: cut_def)

lemma contains_single [simp]: "contains s [c] \<longleftrightarrow> c \<in> set s"
  by (auto simp: contains_def sublist_def in_set_conv_decomp)

lemma split_on_not_Nil [simp]: "split_on c s \<noteq> []"
  by (induction s) (auto split: list.splits)

lemma split_on_absent: "c \<notin> set s \<Longrightarrow> split_on c s = [s]"
  by (induction s) auto

lemma split_on_append:
  "c \<notin> set b \<Longrightarrow> split_on c (b @ c # a) = b # split_on c a"
  by (induction b) auto

lemma split_on_snoc:
  "split_on c (s @ c # t) = split_on c s @ split_on c t"
  by (induction s) (auto split: list.splits simp: neq_Nil_conv)

lemma split_on_elem: "p \<in> set (split_on c s) \<Longrightarrow> c \<notin> set p"
proof (induction s arbitrary: p)
  case Nil
  then show ?case by simp
next
  case (Cons x xs)
  then show ?case by (cases "split_on c xs") (auto split: if_splits)
qed

lemma join_split: "join [c] (split_on c s) = s"
proof (induction s)
  case Nil
  then show ?case by simp
next
  case (Cons x xs)
  then show ?case
    by (cases "split_on c xs"; cases "tl (split_on c xs)") (auto)
qed

lemma split_join:
  "xs \<noteq> [] \<Longrightarrow> \<forall>x \<in> set xs. c \<notin> set x \<Longrightarrow> split_on c (join [c] xs) = xs"
  by (induction "[c]" xs rule: join.induct) (auto simp: split_on_absent split_on_append)

lemma join_snoc: "xs \<noteq> [] \<Longrightarrow> join sep (xs @ [y]) = join sep xs @ sep @ y"
  by (induction sep xs rule: join.induct) auto

lemma join_subset: "set (join sep xs) \<subseteq> set sep \<union> \<Union> (set ` set xs)"
  by (induction sep xs rule: join.induct) auto

section \<open>Case\<close>

text \<open>
  ASCII case mapping. \<open>strings.ToUpper\<close> and \<open>ToLower\<close> also map other scripts, but no
  code point outside ASCII has one of the bytes the program then looks for (\<open>K\<close>, \<open>M\<close>,
  \<open>G\<close>, \<open>B\<close> upper-cased; a header name is ASCII) as its image.
\<close>

definition to_lower_char :: "char \<Rightarrow> char" where
  "to_lower_char c = (if CHR ''A'' \<le> c \<and> c \<le> CHR ''Z'' then char_of (of_char c + 32 :: nat) else c)"

definition to_upper_char :: "char \<Rightarrow> char" where
  "to_upper_char c = (if CHR ''a'' \<le> c \<and> c \<le> CHR ''z'' then char_of (of_char c - 32 :: nat) else c)"

definition to_lower :: "string \<Rightarrow> string" where
  "to_lower s = map to_lower_char s"

definition to_upper :: "string \<Rightarrow> string" where
  "to_upper s = map to_upper_char s"

lemma length_to_lower [simp]: "length (to_lower s) = length s"
  by (simp add: to_lower_def)

text \<open>
  \<open>strings.EqualFold s t\<close> for an ASCII \<open>t\<close>, the only use the program makes of it. Simple
  folding relates two code points outside ASCII to ASCII letters: U+017F (bytes C5 BF) to
  \<open>s\<close> and U+212A (bytes E2 84 AA) to \<open>k\<close>.
\<close>

definition long_s :: string where
  "long_s = [CHR 0xC5, CHR 0xBF]"

definition kelvin :: string where
  "kelvin = [CHR 0xE2, CHR 0x84, CHR 0xAA]"

fun equal_fold :: "string \<Rightarrow> string \<Rightarrow> bool" where
  "equal_fold s [] \<longleftrightarrow> s = []"
| "equal_fold s (t # ts) \<longleftrightarrow>
     (case s of
        [] \<Rightarrow> False
      | c # cs \<Rightarrow>
          (of_char c < (128 :: nat) \<and> to_lower_char c = to_lower_char t \<and> equal_fold cs ts) \<or>
          (to_lower_char t = CHR ''s'' \<and> has_prefix s long_s \<and> equal_fold (drop 2 s) ts) \<or>
          (to_lower_char t = CHR ''k'' \<and> has_prefix s kelvin \<and> equal_fold (drop 3 s) ts))"

definition is_ascii :: "string \<Rightarrow> bool" where
  "is_ascii s \<longleftrightarrow> (\<forall>c \<in> set s. of_char c < (128 :: nat))"

lemma equal_fold_lower:
  "is_ascii s \<Longrightarrow> to_lower s = to_lower t \<Longrightarrow> equal_fold s t"
proof (induction t arbitrary: s)
  case Nil
  then show ?case by (simp add: to_lower_def)
next
  case (Cons t ts)
  then show ?case by (cases s) (auto simp: to_lower_def is_ascii_def)
qed

lemma equal_fold_ascii_iff:
  "is_ascii s \<Longrightarrow> equal_fold s t \<longleftrightarrow> to_lower s = to_lower t"
proof (induction t arbitrary: s)
  case Nil
  then show ?case by (simp add: to_lower_def)
next
  case (Cons t ts)
  show ?case
  proof (cases s)
    case Nil
    then show ?thesis by (simp add: to_lower_def)
  next
    case (Cons c cs)
    with Cons.prems have "is_ascii cs" "of_char c < (128 :: nat)"
      by (auto simp: is_ascii_def)
    with Cons Cons.IH [of cs] show ?thesis
      by (auto simp: to_lower_def long_s_def kelvin_def)
  qed
qed

section \<open>White space\<close>

text \<open>
  \<open>strings.TrimSpace\<close> strips the code points with Unicode's White_Space property. Each is
  given by its UTF-8 bytes: a byte string starts (ends) with such a code point exactly when it
  starts (ends) with these bytes.
\<close>

definition space_seqs :: "string list" where
  "space_seqs =
     [[CHR 0x09], [CHR 0x0A], [CHR 0x0B], [CHR 0x0C], [CHR 0x0D], [CHR 0x20],
      [CHR 0xC2, CHR 0x85], [CHR 0xC2, CHR 0xA0], [CHR 0xE1, CHR 0x9A, CHR 0x80]] @
     map (\<lambda>b. [CHR 0xE2, CHR 0x80, b])
       [CHR 0x80, CHR 0x81, CHR 0x82, CHR 0x83, CHR 0x84, CHR 0x85, CHR 0x86, CHR 0x87,
        CHR 0x88, CHR 0x89, CHR 0x8A, CHR 0xA8, CHR 0xA9, CHR 0xAF] @
     [[CHR 0xE2, CHR 0x81, CHR 0x9F], [CHR 0xE3, CHR 0x80, CHR 0x80]]"

function strip_seqs :: "string list \<Rightarrow> string \<Rightarrow> string" where
  "strip_seqs ws s =
     (case find (\<lambda>w. w \<noteq> [] \<and> has_prefix s w) ws of
        None \<Rightarrow> s
      | Some w \<Rightarrow> strip_seqs ws (drop (length w) s))"
  by pat_completeness auto
termination
  by (relation "measure (\<lambda>(ws, s). length s)") (auto simp: find_Some_iff has_prefix_iff)

declare strip_seqs.simps [simp del]

definition trim_space :: "string \<Rightarrow> string" where
  "trim_space s = rev (strip_seqs (map rev space_seqs) (rev (strip_seqs space_seqs s)))"

text \<open>A byte that begins no white space: neither ASCII white space nor C2, E1, E2, E3.\<close>

definition plain_start :: "char \<Rightarrow> bool" where
  "plain_start c \<longleftrightarrow> c \<notin> set (map hd space_seqs)"

definition plain_end :: "char \<Rightarrow> bool" where
  "plain_end c \<longleftrightarrow> c \<notin> set (map last space_seqs)"

lemma space_seqs_ne: "w \<in> set space_seqs \<Longrightarrow> w \<noteq> []"
  by (auto simp: space_seqs_def)

lemma strip_seqs_stop:
  "\<forall>w \<in> set ws. w \<noteq> [] \<longrightarrow> \<not> has_prefix s w \<Longrightarrow> strip_seqs ws s = s"
  by (subst strip_seqs.simps) (auto split: option.splits simp: find_Some_iff)

lemma strip_seqs_plain:
  assumes "s = [] \<or> hd s \<notin> set (map hd ws)"
  shows "strip_seqs ws s = s"
proof (rule strip_seqs_stop, intro ballI impI)
  fix w assume "w \<in> set ws" "w \<noteq> []"
  with assms show "\<not> has_prefix s w"
    by (cases s; cases w) force+
qed

lemma trim_space_plain:
  assumes "s \<noteq> [] \<Longrightarrow> plain_start (hd s) \<and> plain_end (last s)"
  shows "trim_space s = s"
proof -
  have 1: "strip_seqs space_seqs s = s"
    by (rule strip_seqs_plain) (use assms in \<open>auto simp: plain_start_def\<close>)
  have "map hd (map rev space_seqs) = map last space_seqs"
    by (auto simp: hd_rev dest: space_seqs_ne)
  then have 2: "strip_seqs (map rev space_seqs) (rev s) = rev s"
    by (intro strip_seqs_plain) (use assms in \<open>auto simp: plain_end_def hd_rev simp del: map_map\<close>)
  from 1 2 show ?thesis by (simp add: trim_space_def)
qed

text \<open>What is left has no white space at either end, so trimming it again changes nothing.\<close>

lemma strip_seqs_suffix: "\<exists>x. s = x @ strip_seqs ws s"
proof (induction ws s rule: strip_seqs.induct)
  case (1 ws s)
  show ?case
  proof (cases "find (\<lambda>w. w \<noteq> [] \<and> has_prefix s w) ws")
    case None
    then have "strip_seqs ws s = s" by (simp add: strip_seqs.simps [of ws s])
    then show ?thesis by simp
  next
    case (Some w)
    then have "has_prefix s w" by (auto simp: find_Some_iff)
    then have w: "s = w @ drop (length w) s" by (auto simp: has_prefix_iff)
    have e: "strip_seqs ws s = strip_seqs ws (drop (length w) s)" using Some by (simp add: strip_seqs.simps [of ws s])
    obtain x where "drop (length w) s = x @ strip_seqs ws (drop (length w) s)" using 1 [OF Some] by blast
    with w have "s = (w @ x) @ strip_seqs ws (drop (length w) s)" by (metis append.assoc)
    then show ?thesis unfolding e by blast
  qed
qed

lemma strip_seqs_none: "w \<in> set ws \<Longrightarrow> w \<noteq> [] \<Longrightarrow> \<not> has_prefix (strip_seqs ws s) w"
proof (induction ws s rule: strip_seqs.induct)
  case (1 ws s)
  show ?case
  proof (cases "find (\<lambda>w. w \<noteq> [] \<and> has_prefix s w) ws")
    case None
    then have "strip_seqs ws s = s" by (simp add: strip_seqs.simps [of ws s])
    with None 1(2,3) show ?thesis by (auto simp: find_None_iff)
  next
    case (Some v)
    then have "strip_seqs ws s = strip_seqs ws (drop (length v) s)" by (simp add: strip_seqs.simps [of ws s])
    with 1(1) [OF Some 1(2,3)] show ?thesis by simp
  qed
qed

lemma trim_space_idem: "trim_space (trim_space s) = trim_space s"
proof -
  define a where "a = strip_seqs space_seqs s"
  define t where "t = strip_seqs (map rev space_seqs) (rev a)"
  have ts: "trim_space s = rev t" by (simp add: trim_space_def a_def t_def)
  obtain x where x: "rev a = x @ t" using strip_seqs_suffix [of "rev a" "map rev space_seqs"] by (auto simp: t_def)
  then have "a = rev t @ rev x" by (metis rev_append rev_rev_ident)
  then have "has_prefix (rev t) w \<Longrightarrow> has_prefix a w" for w by (auto simp: has_prefix_iff)
  then have "strip_seqs space_seqs (rev t) = rev t"
    using strip_seqs_none [of _ space_seqs s] by (intro strip_seqs_stop) (auto simp: a_def)
  moreover have "strip_seqs (map rev space_seqs) t = t"
    using strip_seqs_none [of _ "map rev space_seqs" "rev a"] by (intro strip_seqs_stop) (auto simp: t_def)
  ultimately show ?thesis by (simp add: ts) (simp add: trim_space_def)
qed

lemma trim_space_Nil [simp]: "trim_space [] = []"
  by (rule trim_space_plain) simp

end
