(* ===== verification/GoNum.thy ===== *)
theory GoNum
  imports GoStrings "HOL-Library.Word"
begin

text \<open>
  Go's \<open>int64\<close> arithmetic and its decimal text (\<open>strconv\<close>), and \<open>time.Time\<close> and
  \<open>time.Duration\<close> as far as the program uses them.
\<close>

section \<open>int64\<close>

text \<open>\<open>int\<close> is 64 bits wide on every platform the gateway builds for.\<close>

definition max_int64 :: int where "max_int64 = 2 ^ 63 - 1"

definition min_int64 :: int where "min_int64 = - (2 ^ 63)"

text \<open>The value a Go \<open>int64\<close> operation leaves: two's complement wrap-around.\<close>

definition wrap64 :: "int \<Rightarrow> int" where
  "wrap64 n = (n + 2 ^ 63) mod 2 ^ 64 - 2 ^ 63"

definition in_int64 :: "int \<Rightarrow> bool" where
  "in_int64 n \<longleftrightarrow> min_int64 \<le> n \<and> n \<le> max_int64"

lemma wrap64_id: "in_int64 n \<Longrightarrow> wrap64 n = n"
  by (simp add: in_int64_def wrap64_def min_int64_def max_int64_def)

lemma wrap64_range: "in_int64 (wrap64 n)"
proof -
  have "0 \<le> (n + 2 ^ 63) mod 2 ^ 64" and "(n + 2 ^ 63) mod 2 ^ 64 < (2 ^ 64 :: int)"
    by simp_all
  then show ?thesis
    by (simp add: in_int64_def wrap64_def min_int64_def max_int64_def)
qed

lemma wrap64_sint: "wrap64 n = sint (word_of_int n :: 64 word)"
  by (simp add: wrap64_def signed_take_bit_eq_take_bit_shift take_bit_eq_mod sint_sbintrunc')

text \<open>Go's \<open>/\<close> truncates towards zero.\<close>

definition quot :: "int \<Rightarrow> int \<Rightarrow> int" where
  "quot a b = sgn a * sgn b * (\<bar>a\<bar> div \<bar>b\<bar>)"

lemma quot_nonneg: "0 \<le> a \<Longrightarrow> 0 < b \<Longrightarrow> quot a b = a div b"
  by (cases "a = 0") (auto simp: quot_def)

section \<open>Decimal text\<close>

definition is_digit :: "char \<Rightarrow> bool" where
  "is_digit c \<longleftrightarrow> CHR ''0'' \<le> c \<and> c \<le> CHR ''9''"

definition digit_val :: "char \<Rightarrow> nat" where
  "digit_val c = of_char c - 48"

definition digit_char :: "nat \<Rightarrow> char" where
  "digit_char d = char_of (48 + d)"

lemma digit_char_props:
  assumes "d < 10"
  shows "is_digit (digit_char d)" and "digit_val (digit_char d) = d"
proof -
  have "of_char (char_of (48 + d) :: char) = 48 + d"
    using assms by (simp add: of_char_of)
  then show "is_digit (digit_char d)" and "digit_val (digit_char d) = d"
    using assms by (simp_all add: is_digit_def digit_val_def digit_char_def less_eq_char_def)
qed

fun show_nat :: "nat \<Rightarrow> string" where
  "show_nat n = (if n < 10 then [digit_char n] else show_nat (n div 10) @ [digit_char (n mod 10)])"

declare show_nat.simps [simp del]

text \<open>\<open>strconv.FormatInt(n, 10)\<close> and \<open>strconv.Itoa\<close>.\<close>

definition format_int :: "int \<Rightarrow> string" where
  "format_int n = (if n < 0 then CHR ''-'' # show_nat (nat (- n)) else show_nat (nat n))"

definition digits_val :: "string \<Rightarrow> nat" where
  "digits_val ds = foldl (\<lambda>n c. 10 * n + digit_val c) 0 ds"

text \<open>
  \<open>strconv.ParseInt(s, 10, 64)\<close>, and \<open>Atoi\<close>: an optional sign, one or more decimal digits,
  a value in range. No caller looks at which error it was.
\<close>

definition parse_int :: "string \<Rightarrow> int option" where
  "parse_int s =
     (let neg = (s \<noteq> [] \<and> hd s = CHR ''-'');
          ds = (if s \<noteq> [] \<and> (hd s = CHR ''-'' \<or> hd s = CHR ''+'') then tl s else s);
          v = (if neg then - int (digits_val ds) else int (digits_val ds))
      in if ds = [] \<or> \<not> list_all is_digit ds then None
         else if in_int64 v then Some v else None)"

definition atoi :: "string \<Rightarrow> int option" where
  "atoi s = parse_int s"

text \<open>The same value computed on integers, for evaluation.\<close>

definition digits_int :: "string \<Rightarrow> int" where
  "digits_int ds = foldl (\<lambda>n c. 10 * n + int (digit_val c)) 0 ds"

lemma digits_int_val: "digits_int ds = int (digits_val ds)"
  by (induction ds rule: rev_induct) (simp_all add: digits_int_def digits_val_def)

lemmas parse_int_code [code] = parse_int_def [folded digits_int_val]

lemma digits_val_snoc: "digits_val (ds @ [c]) = 10 * digits_val ds + digit_val c"
  by (simp add: digits_val_def)

lemma show_nat_props:
  "show_nat n \<noteq> [] \<and> list_all is_digit (show_nat n) \<and> digits_val (show_nat n) = n"
proof (induction n rule: show_nat.induct)
  case (1 n)
  show ?case
  proof (cases "n < 10")
    case True
    then show ?thesis
      by (simp add: show_nat.simps [of n] digit_char_props digits_val_def)
  next
    case False
    with 1 show ?thesis
      by (simp add: show_nat.simps [of n] digits_val_snoc digit_char_props)
  qed
qed

lemma is_digit_not_sign: "is_digit c \<Longrightarrow> c \<noteq> CHR ''-'' \<and> c \<noteq> CHR ''+'' \<and> c \<noteq> CHR ''.''"
  by (auto simp: is_digit_def less_eq_char_def)

lemma parse_show_nat:
  assumes "in_int64 (int n)"
  shows "parse_int (show_nat n) = Some (int n)"
proof -
  have "show_nat n \<noteq> []" and d: "list_all is_digit (show_nat n)" and v: "digits_val (show_nat n) = n"
    using show_nat_props [of n] by auto
  then have "is_digit (hd (show_nat n))" by (cases "show_nat n") auto
  from is_digit_not_sign [OF this] \<open>show_nat n \<noteq> []\<close> d v assms show ?thesis
    by (simp add: parse_int_def)
qed

lemma parse_format_int:
  assumes "in_int64 n"
  shows "parse_int (format_int n) = Some n"
proof (cases "n < 0")
  case True
  with assms show_nat_props [of "nat (- n)"] show ?thesis
    by (simp add: format_int_def parse_int_def)
next
  case False
  with assms parse_show_nat [of "nat n"] show ?thesis
    by (simp add: format_int_def)
qed

lemma format_int_no_dot: "CHR ''.'' \<notin> set (format_int n)"
proof -
  have "CHR ''.'' \<notin> set (show_nat m)" for m
    using show_nat_props [of m] is_digit_not_sign by (auto simp: list_all_iff)
  then show ?thesis by (simp add: format_int_def)
qed

lemma parse_int_range: "parse_int s = Some n \<Longrightarrow> in_int64 n"
  by (auto simp: parse_int_def Let_def split: if_splits)

text \<open>\<open>strconv.ParseBool\<close>.\<close>

definition parse_bool :: "string \<Rightarrow> bool option" where
  "parse_bool s =
     (if s \<in> {''1'', ''t'', ''T'', ''TRUE'', ''true'', ''True''} then Some True
      else if s \<in> {''0'', ''f'', ''F'', ''FALSE'', ''false'', ''False''} then Some False
      else None)"

section \<open>Time\<close>

text \<open>
  A \<open>time.Duration\<close> is an \<open>int64\<close> count of nanoseconds. A \<open>time.Time\<close> is read by the
  program only through \<open>Before\<close>, \<open>After\<close>, \<open>Add\<close>, \<open>Sub\<close> and \<open>Unix\<close>; it is modelled
  as nanoseconds since 1 January of year 1, the epoch of Go's own representation, whose seconds
  are an \<open>int64\<close>.
\<close>

type_synonym duration = int
type_synonym time = int

definition second :: duration where "second = 1000000000"

definition unix_to_internal :: int where "unix_to_internal = 62135596800"

text \<open>\<open>time.Unix(sec, 0)\<close>: the addition to the internal epoch is an \<open>int64\<close> addition.\<close>

definition time_unix :: "int \<Rightarrow> time" where
  "time_unix sec = wrap64 (sec + unix_to_internal) * second"

text \<open>\<open>t.Unix()\<close>.\<close>

definition unix_of :: "time \<Rightarrow> int" where
  "unix_of t = wrap64 (t div second - unix_to_internal)"

text \<open>\<open>t.Sub(u)\<close> saturates at the ends of \<open>Duration\<close>.\<close>

definition time_sub :: "time \<Rightarrow> time \<Rightarrow> duration" where
  "time_sub t u = max min_int64 (min max_int64 (t - u))"

definition before :: "time \<Rightarrow> time \<Rightarrow> bool" where
  "before t u \<longleftrightarrow> t < u"

definition after :: "time \<Rightarrow> time \<Rightarrow> bool" where
  "after t u \<longleftrightarrow> u < t"

text \<open>The instants whose internal second is an \<open>int64\<close>, which is every \<open>Time\<close> there is.\<close>

definition valid_time :: "time \<Rightarrow> bool" where
  "valid_time t \<longleftrightarrow> in_int64 (t div second)"

lemma mod_add_sub_64:
  "((a :: int) + c) mod m = r \<Longrightarrow> (r - c) mod m = a mod m"
  by (metis add_diff_cancel_right' mod_diff_left_eq)

lemma time_unix_unix_of:
  assumes "valid_time t"
  shows "time_unix (unix_of t) = (t div second) * second"
proof -
  let ?s = "t div second"
  have "wrap64 (wrap64 (?s - unix_to_internal) + unix_to_internal) = wrap64 ?s"
    by (simp add: wrap64_sint)
  also have "\<dots> = ?s" using assms by (simp add: valid_time_def wrap64_id)
  finally show ?thesis by (simp add: time_unix_def unix_of_def)
qed

lemma time_sub_nonneg: "u \<le> t \<Longrightarrow> 0 \<le> time_sub t u"
  by (simp add: time_sub_def max_int64_def)

end
