(* ===== verification/KeyStore.thy ===== *)
theory KeyStore
  imports GoNum
begin

text \<open>
  internal/keys/keys.go: the gateway's labelled API keys. \<open>keys_load\<close> is \<open>Load\<close>, a loop over
  the environment with two Go maps; \<open>keys_lookup\<close> is the full constant-time scan and
  \<open>keys_secret\<close> the map read. The locale \<open>key_store\<close> is what authentication relies on.
\<close>

section \<open>Data\<close>

definition env_prefix :: string where
  "env_prefix = ''VIIWORK_KEY_''"

definition min_key_length :: nat where
  "min_key_length = 24"

text \<open>\<open>by_label\<close> is a Go map whose keys are ranged over, hence an association list.\<close>

record key_set =
  by_label :: "(string \<times> string) list"
  labels :: "string list"

datatype keys_error =
    NoLabel string
  | ShortKey string nat
  | DuplicateSecret string string
  | NoKeys

section \<open>Load\<close>

text \<open>The loop of \<open>Load\<close> with its state: \<open>set.byLabel\<close> and \<open>seen\<close>.\<close>

fun load_loop :: "string list \<Rightarrow> (string \<times> string) list \<Rightarrow> (string \<times> string) list
    \<Rightarrow> (keys_error, (string \<times> string) list) result" where
  "load_loop [] bl seen = Inr bl"
| "load_loop (kv # environ) bl seen =
     (if \<not> has_prefix kv env_prefix then load_loop environ bl seen
      else
        (case cut kv CHR ''='' of (name, value, ok) \<Rightarrow>
          if \<not> ok then load_loop environ bl seen
          else
            (let label = trim_prefix name env_prefix in
             if label = [] then Inl (NoLabel name)
             else if length value < min_key_length then Inl (ShortKey label (length value))
             else (case map_of seen value of
                     Some other \<Rightarrow> Inl (DuplicateSecret other label)
                   | None \<Rightarrow>
                       load_loop environ (AList.update label value bl)
                         (AList.update value label seen)))))"

definition keys_load :: "string list \<Rightarrow> (keys_error, key_set) result" where
  "keys_load environ =
     rbind (load_loop environ [] []) (\<lambda>bl.
       if bl = [] then Inl NoKeys
       else Inr \<lparr>by_label = bl, labels = sort (map fst bl)\<rparr>)"

section \<open>Lookup and Secret\<close>

text \<open>
  \<open>subtle.ConstantTimeCompare\<close>: 0 for different lengths, otherwise the XOR of the bytes
  accumulated with OR over the whole length, and 1 exactly if the accumulator stayed 0.
\<close>

definition xor_bytes :: "char \<Rightarrow> char \<Rightarrow> 8 word" where
  "xor_bytes a b = xor (of_nat (of_char a)) (of_nat (of_char b))"

definition constant_time_compare :: "string \<Rightarrow> string \<Rightarrow> nat" where
  "constant_time_compare x y =
     (if length x \<noteq> length y then 0
      else if foldl (\<lambda>v (a, b). or v (xor_bytes a b)) 0 (zip x y) = 0 then 1 else 0)"

definition keys_secret :: "key_set \<Rightarrow> string \<Rightarrow> string option" where
  "keys_secret s label = map_of (by_label s) label"

text \<open>
  The scan never returns early: it folds over every label. \<open>s.byLabel[label]\<close> is the empty
  string for a label that is not a key of the map.
\<close>

definition keys_lookup :: "key_set \<Rightarrow> string \<Rightarrow> string option" where
  "keys_lookup s secret =
     (case foldl (\<lambda>(found, match) label.
               if constant_time_compare secret (case keys_secret s label of None \<Rightarrow> [] | Some v \<Rightarrow> v) = 1
               then (label, 1) else (found, match))
             ([], 0 :: nat) (labels s) of
        (found, match) \<Rightarrow> if match = 0 then None else Some found)"

definition keys_len :: "key_set \<Rightarrow> nat" where
  "keys_len s = length (by_label s)"

section \<open>The constant-time comparison is equality\<close>

lemma or_zero_iff: "or v w = 0 \<longleftrightarrow> v = 0 \<and> w = (0 :: 8 word)"
  by (auto simp: bit_eq_iff bit_or_iff)

lemma xor_zero_iff: "xor v w = 0 \<longleftrightarrow> v = (w :: 8 word)"
  by (auto simp: bit_eq_iff bit_xor_iff)

lemma xor_bytes_zero: "xor_bytes a b = 0 \<longleftrightarrow> a = b"
proof -
  have lt: "of_char c < (2 ^ 8 :: nat)" for c :: char
    using of_char_less_256 [of c] by simp
  have "(of_nat (of_char a) :: 8 word) = of_nat (of_char b) \<longleftrightarrow> (of_char a :: nat) = of_char b"
    by (simp add: word_of_nat_eq_iff take_bit_nat_eq_self lt)
  then show ?thesis by (simp add: xor_bytes_def xor_zero_iff of_char_eq_iff)
qed

lemma or_fold_zero:
  "length x = length y \<Longrightarrow>
   foldl (\<lambda>v (a, b). or v (xor_bytes a b)) v0 (zip x y) = 0 \<longleftrightarrow> v0 = 0 \<and> x = y"
  by (induction x y arbitrary: v0 rule: list_induct2) (auto simp: or_zero_iff xor_bytes_zero)

lemma constant_time_compare_iff:
  "constant_time_compare x y = 1 \<longleftrightarrow> x = y"
  "constant_time_compare x y = Suc 0 \<longleftrightarrow> x = y"
  by (auto simp: constant_time_compare_def or_fold_zero)

section \<open>The invariant of a loaded set\<close>

definition keys_ok :: "key_set \<Rightarrow> bool" where
  "keys_ok s \<longleftrightarrow>
     labels s = sort (map fst (by_label s)) \<and> distinct (map fst (by_label s)) \<and>
     distinct (map snd (by_label s)) \<and> by_label s \<noteq> [] \<and>
     (\<forall>(l, v) \<in> set (by_label s). l \<noteq> [] \<and> min_key_length \<le> length v)"

text \<open>
  What the loop keeps: labels are distinct, every secret ever stored is in \<open>seen\<close> (also one a
  later variable of the same name replaced), so a new secret differs from all of them.
\<close>

definition loop_inv :: "(string \<times> string) list \<Rightarrow> (string \<times> string) list \<Rightarrow> bool" where
  "loop_inv bl seen \<longleftrightarrow>
     distinct (map fst bl) \<and> distinct (map snd bl) \<and> set (map snd bl) \<subseteq> dom (map_of seen) \<and>
     (\<forall>(l, v) \<in> set bl. l \<noteq> [] \<and> min_key_length \<le> length v)"

lemma set_update_subset: "set (AList.update k v al) \<subseteq> insert (k, v) (set al)"
  by (induction al) auto

lemma distinct_snd_update:
  "distinct (map snd al) \<Longrightarrow> v \<notin> set (map snd al) \<Longrightarrow> distinct (map snd (AList.update k v al))"
proof (induction al)
  case Nil
  then show ?case by simp
next
  case (Cons p al)
  then show ?case using set_update_subset [of k v al] by (cases p) force
qed

lemma loop_inv_step:
  assumes inv: "loop_inv bl seen" and new: "map_of seen value = None"
    and "label \<noteq> []" and "min_key_length \<le> length value"
  shows "loop_inv (AList.update label value bl) (AList.update value label seen)"
proof -
  have nin: "value \<notin> set (map snd bl)"
    using inv new by (auto simp: loop_inv_def)
  have sub: "set (AList.update label value bl) \<subseteq> insert (label, value) (set bl)"
    by (rule set_update_subset)
  from inv nin have "distinct (map snd (AList.update label value bl))"
    by (intro distinct_snd_update) (auto simp: loop_inv_def)
  moreover have "distinct (map fst (AList.update label value bl))"
    using inv by (simp add: loop_inv_def distinct_update)
  moreover have "set (map snd (AList.update label value bl)) \<subseteq> dom (map_of (AList.update value label seen))"
  proof -
    have snds: "snd ` set bl \<subseteq> dom (map_of seen)" using inv by (simp add: loop_inv_def)
    have "b \<in> dom (map_of (AList.update value label seen))"
      if "b \<in> set (map snd (AList.update label value bl))" for b
    proof -
      from that sub have "b = value \<or> b \<in> snd ` set bl" by auto
      with snds show ?thesis by (auto simp: alist_update_map)
    qed
    then show ?thesis by blast
  qed
  moreover have "\<forall>(l, v) \<in> set (AList.update label value bl). l \<noteq> [] \<and> min_key_length \<le> length v"
    using inv sub assms(3,4) by (auto simp: loop_inv_def)
  ultimately show ?thesis by (simp add: loop_inv_def)
qed

lemma load_loop_inv:
  "load_loop environ bl seen = Inr out \<Longrightarrow> loop_inv bl seen \<Longrightarrow> \<exists>seen'. loop_inv out seen'"
proof (induction environ bl seen rule: load_loop.induct)
  case (1 bl seen)
  then show ?case by auto
next
  case (2 kv environ bl seen)
  obtain name v ok where c: "cut kv CHR ''='' = (name, v, ok)" by (cases "cut kv CHR ''=''")
  let ?l = "trim_prefix name env_prefix"
  show ?case
  proof (cases "has_prefix kv env_prefix \<and> ok")
    case False
    with 2 c show ?thesis by (auto split: if_splits)
  next
    case True
    with "2.prems"(1) c have "?l \<noteq> []" "min_key_length \<le> length v" "map_of seen v = None"
      and rest: "load_loop environ (AList.update ?l v bl) (AList.update v ?l seen) = Inr out"
      by (auto simp: Let_def not_less split: if_splits option.splits)
    with "2.prems"(2) have "loop_inv (AList.update ?l v bl) (AList.update v ?l seen)"
      by (intro loop_inv_step)
    with "2.IH"(3) True c rest show ?thesis
      using \<open>?l \<noteq> []\<close> \<open>min_key_length \<le> length v\<close> \<open>map_of seen v = None\<close>
      by (simp add: not_less)
  qed
qed

lemma keys_load_ok:
  assumes "keys_load environ = Inr s"
  shows "keys_ok s"
proof -
  from assms obtain bl where bl: "load_loop environ [] [] = Inr bl" "bl \<noteq> []"
    and s: "s = \<lparr>by_label = bl, labels = sort (map fst bl)\<rparr>"
    by (auto simp: keys_load_def result_iff split: if_splits)
  have "loop_inv [] []" by (simp add: loop_inv_def)
  with bl(1) obtain seen' where "loop_inv bl seen'" by (blast dest: load_loop_inv)
  with bl(2) s show ?thesis by (auto simp: keys_ok_def loop_inv_def)
qed

section \<open>Lookup is the inverse of Secret\<close>

lemma lookup_fold:
  "foldl (\<lambda>(found, match) label. if P label then (label, 1) else (found, match)) (f0, m0) ls =
   (if filter P ls = [] then (f0, m0) else (last (filter P ls), 1 :: nat))"
  by (induction ls arbitrary: f0 m0) auto

lemma lookup_scan:
  "keys_lookup s k =
     (let ms = filter (\<lambda>l. k = (case keys_secret s l of None \<Rightarrow> [] | Some v \<Rightarrow> v)) (labels s)
      in if ms = [] then None else Some (last ms))"
  by (simp add: keys_lookup_def constant_time_compare_iff lookup_fold Let_def)

lemma labels_secret:
  "keys_ok s \<Longrightarrow> l \<in> set (labels s) \<longleftrightarrow> (\<exists>v. keys_secret s l = Some v)"
  using map_of_eq_None_iff [of "by_label s" l]
  by (cases "map_of (by_label s) l") (auto simp: keys_ok_def keys_secret_def)

lemma keys_secret_inj:
  assumes ok: "keys_ok s" and "keys_secret s l1 = Some k" and "keys_secret s l2 = Some k"
  shows "l1 = l2"
proof -
  from assms have "(l1, k) \<in> set (by_label s)" "(l2, k) \<in> set (by_label s)"
    by (auto simp: keys_secret_def dest: map_of_SomeD)
  moreover have "inj_on snd (set (by_label s))" using ok by (simp add: keys_ok_def distinct_map)
  ultimately show ?thesis using inj_onD [of snd _ "(l1, k)" "(l2, k)"] by simp
qed

lemma keys_lookup_iff:
  assumes ok: "keys_ok s"
  shows "keys_lookup s k = Some l \<longleftrightarrow> keys_secret s l = Some k"
proof -
  let ?ms = "filter (\<lambda>l. k = (case keys_secret s l of None \<Rightarrow> [] | Some v \<Rightarrow> v)) (labels s)"
  have mem: "l' \<in> set ?ms \<longleftrightarrow> keys_secret s l' = Some k" for l'
    using labels_secret [OF ok, of l'] by auto
  show ?thesis
  proof (cases "?ms = []")
    case True
    then have "keys_secret s l \<noteq> Some k" using mem [of l] by simp
    with True show ?thesis by (simp add: lookup_scan)
  next
    case False
    then have "keys_secret s (last ?ms) = Some k" using mem last_in_set by blast
    with keys_secret_inj [OF ok] have "last ?ms = l \<longleftrightarrow> keys_secret s l = Some k" by auto
    with False show ?thesis by (simp add: lookup_scan Let_def)
  qed
qed

section \<open>The interface\<close>

text \<open>
  What authentication needs of a key set: a presented secret resolves to a label exactly when it
  is that label's current secret. \<open>secret_unique\<close> and the revocation lemma follow.
\<close>

locale key_store =
  fixes lookup :: "'k \<Rightarrow> string \<Rightarrow> string option"
    and secret_of :: "'k \<Rightarrow> string \<Rightarrow> string option"
    and invar :: "'k \<Rightarrow> bool"
  assumes lookup_iff: "invar s \<Longrightarrow> lookup s k = Some l \<longleftrightarrow> secret_of s l = Some k"
    and secret_strong: "invar s \<Longrightarrow> secret_of s l = Some k \<Longrightarrow> min_key_length \<le> length k"
begin

lemma secret_unique:
  "invar s \<Longrightarrow> secret_of s l1 = Some k \<Longrightarrow> secret_of s l2 = Some k \<Longrightarrow> l1 = l2"
  using lookup_iff [of s k l1] lookup_iff [of s k l2] by simp

lemma lookup_None_iff:
  "invar s \<Longrightarrow> lookup s k = None \<longleftrightarrow> (\<forall>l. secret_of s l \<noteq> Some k)"
  using lookup_iff [of s k] by (metis not_Some_eq)

lemma revoked_no_lookup:
  "invar s \<Longrightarrow> secret_of s l = None \<Longrightarrow> lookup s k \<noteq> Some l"
  using lookup_iff [of s k l] by simp

lemma short_not_accepted:
  "invar s \<Longrightarrow> length k < min_key_length \<Longrightarrow> lookup s k = None"
  using lookup_None_iff [of s k] secret_strong [of s _ k] by (metis not_le)

end

lemma keys_secret_strong:
  "keys_ok s \<Longrightarrow> keys_secret s l = Some k \<Longrightarrow> min_key_length \<le> length k"
  by (auto simp: keys_ok_def keys_secret_def dest: map_of_SomeD)

interpretation loaded_keys: key_store keys_lookup keys_secret keys_ok
  by unfold_locales (auto simp: keys_lookup_iff keys_secret_strong)

end
