(* ===== verification/Base64.thy ===== *)
theory Base64
  imports GoNum
begin

text \<open>
  Go's \<open>encoding/base64\<close> as the gateway uses it: \<open>RawURLEncoding\<close> for cookie tokens and
  \<open>StdEncoding\<close> for mesh secrets. Decoding skips CR and LF, accepts any trailing bits (Go is
  not strict here) and returns \<open>None\<close> for a \<open>CorruptInputError\<close>.
\<close>

section \<open>Encodings\<close>

record encoding =
  alphabet :: string
  padded :: bool

definition b64_common :: string where
  "b64_common = ''ABCDEFGHIJKLMNOPQRSTUVWXYZabcdefghijklmnopqrstuvwxyz0123456789''"

definition raw_url_encoding :: encoding where
  "raw_url_encoding = \<lparr>alphabet = b64_common @ ''-_'', padded = False\<rparr>"

definition std_encoding :: encoding where
  "std_encoding = \<lparr>alphabet = b64_common @ ''+/'', padded = True\<rparr>"

text \<open>The program only builds these two, whose alphabets have 64 distinct symbols.\<close>

definition encoding_ok :: "encoding \<Rightarrow> bool" where
  "encoding_ok e \<longleftrightarrow> length (alphabet e) = 64 \<and> distinct (alphabet e) \<and>
     (\<forall>c \<in> set (alphabet e). c \<noteq> CHR ''='' \<and> c \<noteq> CHR ''.'' \<and> c \<noteq> CHR 0x0A \<and> c \<noteq> CHR 0x0D)"

definition sym :: "encoding \<Rightarrow> nat \<Rightarrow> char" where
  "sym e i = alphabet e ! i"

fun index_of :: "char \<Rightarrow> string \<Rightarrow> nat option" where
  "index_of c [] = None"
| "index_of c (x # xs) = (if x = c then Some 0 else map_option Suc (index_of c xs))"

definition sym_val :: "encoding \<Rightarrow> char \<Rightarrow> nat option" where
  "sym_val e c = index_of c (alphabet e)"

definition pad_with :: "encoding \<Rightarrow> nat \<Rightarrow> string" where
  "pad_with e n = (if padded e then replicate n (CHR ''='') else [])"

section \<open>EncodeToString\<close>

fun b64_encode :: "encoding \<Rightarrow> string \<Rightarrow> string" where
  "b64_encode e [] = []"
| "b64_encode e [a] =
     (let v = of_char a * 65536 :: nat
      in [sym e (v div 262144), sym e (v div 4096 mod 64)] @ pad_with e 2)"
| "b64_encode e [a, b] =
     (let v = of_char a * 65536 + of_char b * 256 :: nat
      in [sym e (v div 262144), sym e (v div 4096 mod 64), sym e (v div 64 mod 64)] @ pad_with e 1)"
| "b64_encode e (a # b # c # r) =
     (let v = of_char a * 65536 + of_char b * 256 + of_char c :: nat
      in [sym e (v div 262144), sym e (v div 4096 mod 64), sym e (v div 64 mod 64), sym e (v mod 64)]
         @ b64_encode e r)"

section \<open>DecodeString\<close>

definition quantum :: "nat \<Rightarrow> nat \<Rightarrow> nat \<Rightarrow> nat \<Rightarrow> string" where
  "quantum w x y z =
     (let v = w * 262144 + x * 4096 + y * 64 + z
      in [char_of (v div 65536), char_of (v div 256 mod 256), char_of (v mod 256)])"

fun b64_decode_quanta :: "encoding \<Rightarrow> string \<Rightarrow> string option" where
  "b64_decode_quanta e [] = Some []"
| "b64_decode_quanta e [a] = None"
| "b64_decode_quanta e [a, b] =
     (if padded e then None
      else case (sym_val e a, sym_val e b) of
             (Some w, Some x) \<Rightarrow> Some (take 1 (quantum w x 0 0))
           | _ \<Rightarrow> None)"
| "b64_decode_quanta e [a, b, c] =
     (if padded e then None
      else case (sym_val e a, sym_val e b, sym_val e c) of
             (Some w, Some x, Some y) \<Rightarrow> Some (take 2 (quantum w x y 0))
           | _ \<Rightarrow> None)"
| "b64_decode_quanta e (a # b # c # d # r) =
     (case (sym_val e a, sym_val e b) of
        (Some w, Some x) \<Rightarrow>
          (case sym_val e c of
             Some y \<Rightarrow>
               (case sym_val e d of
                  Some z \<Rightarrow> map_option (\<lambda>bs. quantum w x y z @ bs) (b64_decode_quanta e r)
                | None \<Rightarrow>
                    if padded e \<and> d = CHR ''='' \<and> r = [] then Some (take 2 (quantum w x y 0)) else None)
           | None \<Rightarrow>
               if padded e \<and> c = CHR ''='' \<and> d = CHR ''='' \<and> r = []
               then Some (take 1 (quantum w x 0 0)) else None)
      | _ \<Rightarrow> None)"

definition b64_decode :: "encoding \<Rightarrow> string \<Rightarrow> string option" where
  "b64_decode e s = b64_decode_quanta e (filter (\<lambda>c. c \<noteq> CHR 0x0A \<and> c \<noteq> CHR 0x0D) s)"

section \<open>Round trip\<close>

lemma raw_url_ok: "encoding_ok raw_url_encoding"
  by (simp add: encoding_ok_def raw_url_encoding_def b64_common_def)

lemma std_ok: "encoding_ok std_encoding"
  by (simp add: encoding_ok_def std_encoding_def b64_common_def)

lemma index_of_nth: "distinct xs \<Longrightarrow> i < length xs \<Longrightarrow> index_of (xs ! i) xs = Some i"
  by (induction xs arbitrary: i) (auto simp: nth_Cons split: nat.splits)

lemma sym_val_sym: "encoding_ok e \<Longrightarrow> i < 64 \<Longrightarrow> sym_val e (sym e i) = Some i"
  by (simp add: encoding_ok_def sym_val_def sym_def index_of_nth)

lemma index_of_None: "index_of c xs = None \<longleftrightarrow> c \<notin> set xs"
  by (induction xs) auto

lemma sym_val_pad: "encoding_ok e \<Longrightarrow> sym_val e (CHR ''='') = None"
  by (auto simp: encoding_ok_def sym_val_def index_of_None)

lemma sym_in: "encoding_ok e \<Longrightarrow> i < 64 \<Longrightarrow> sym e i \<in> set (alphabet e)"
  by (simp add: encoding_ok_def sym_def)

text \<open>The arithmetic of one quantum: four six-bit groups hold three bytes.\<close>

lemma sextets:
  assumes "(v :: nat) < 16777216"
  shows "v div 262144 < 64" and "v div 4096 mod 64 < 64" and "v div 64 mod 64 < 64" and "v mod 64 < 64"
    and "v div 262144 * 262144 + v div 4096 mod 64 * 4096 + v div 64 mod 64 * 64 + v mod 64 = v"
proof -
  have "v = v div 64 * 64 + v mod 64" by simp
  moreover have "v div 64 = v div 4096 * 64 + v div 64 mod 64"
    using div_mult_mod_eq [of "v div 64" 64] by (simp add: div_mult2_eq [symmetric])
  moreover have "v div 4096 = v div 262144 * 64 + v div 4096 mod 64"
    using div_mult_mod_eq [of "v div 4096" 64] by (simp add: div_mult2_eq [symmetric])
  ultimately show "v div 262144 * 262144 + v div 4096 mod 64 * 4096 + v div 64 mod 64 * 64 + v mod 64 = v"
    by linarith
qed (use assms in auto)

lemma pack_bytes:
  assumes "(a :: nat) < 256" "b < 256" "c < 256"
  shows "(a * 65536 + b * 256 + c) div 65536 = a"
    and "(a * 65536 + b * 256 + c) div 256 mod 256 = b"
    and "(a * 65536 + b * 256 + c) mod 256 = c"
proof -
  have v: "a * 65536 + b * 256 + c = (a * 256 + b) * 256 + c" by simp
  show "(a * 65536 + b * 256 + c) div 65536 = a"
    using assms by (intro div_nat_eqI) auto
  have "(a * 65536 + b * 256 + c) div 256 = a * 256 + b"
    using assms by (intro div_nat_eqI) auto
  then show "(a * 65536 + b * 256 + c) div 256 mod 256 = b"
    using assms(2) by simp
  show "(a * 65536 + b * 256 + c) mod 256 = c"
    unfolding v using assms(3) by (simp only: mod_mult_self3 mod_less)
qed

lemma quantum_bytes:
  fixes a b c :: char
  defines "v \<equiv> of_char a * 65536 + of_char b * 256 + of_char c :: nat"
  shows "quantum (v div 262144) (v div 4096 mod 64) (v div 64 mod 64) (v mod 64) = [a, b, c]"
    and "v < 16777216"
proof -
  note lt = of_char_less_256 [of a] of_char_less_256 [of b] of_char_less_256 [of c]
  show v: "v < 16777216" using lt unfolding v_def by linarith
  have "v div 65536 = of_char a" "v div 256 mod 256 = of_char b" "v mod 256 = of_char c"
    unfolding v_def using pack_bytes [OF lt] by simp_all
  with v show "quantum (v div 262144) (v div 4096 mod 64) (v div 64 mod 64) (v mod 64) = [a, b, c]"
    by (simp add: quantum_def sextets Let_def del: char_of_mod_256)
qed

lemma quantum_2:
  fixes a b :: char
  defines "v \<equiv> of_char a * 65536 + of_char b * 256 :: nat"
  shows "take 2 (quantum (v div 262144) (v div 4096 mod 64) (v div 64 mod 64) 0) = [a, b]"
    and "v < 16777216"
proof -
  have z: "of_char (CHR 0x00) = (0 :: nat)" by simp
  note q = quantum_bytes [of a b "CHR 0x00", unfolded z add_0_right, folded v_def]
  have "v = (of_char a * 1024 + of_char b * 4) * 64" by (simp add: v_def)
  then have "v mod 64 = 0" by (simp only: mod_mult_self2_is_0)
  with q show "take 2 (quantum (v div 262144) (v div 4096 mod 64) (v div 64 mod 64) 0) = [a, b]"
    and "v < 16777216" by simp_all
qed

lemma quantum_1:
  fixes a :: char
  defines "v \<equiv> of_char a * 65536 :: nat"
  shows "take 1 (quantum (v div 262144) (v div 4096 mod 64) 0 0) = [a]"
    and "v < 16777216"
proof -
  have z: "of_char (CHR 0x00) = (0 :: nat)" by simp
  note q = quantum_2 [of a "CHR 0x00", unfolded z mult_zero_left add_0_right, folded v_def]
  have "v div 64 = of_char a * 16 * 64" by (simp add: v_def)
  then have "v div 64 mod 64 = 0" by (simp only: mod_mult_self2_is_0)
  with q have "take 2 (quantum (v div 262144) (v div 4096 mod 64) 0 0) = [a, CHR 0x00]" "v < 16777216"
    by simp_all
  then show "take 1 (quantum (v div 262144) (v div 4096 mod 64) 0 0) = [a]" and "v < 16777216"
    by (simp_all add: quantum_def Let_def)
qed

text \<open>One step of the encoder, with the packed value kept opaque.\<close>

lemma encode_1:
  obtains v where "v < 16777216" and "take 1 (quantum (v div 262144) (v div 4096 mod 64) 0 0) = [a]"
    and "b64_encode e [a] = [sym e (v div 262144), sym e (v div 4096 mod 64)] @ pad_with e 2"
  using quantum_1 [of a] b64_encode.simps(2) [of e a, unfolded Let_def] by blast

lemma encode_2:
  obtains v where "v < 16777216"
    and "take 2 (quantum (v div 262144) (v div 4096 mod 64) (v div 64 mod 64) 0) = [a, b]"
    and "b64_encode e [a, b] =
      [sym e (v div 262144), sym e (v div 4096 mod 64), sym e (v div 64 mod 64)] @ pad_with e 1"
  using quantum_2 [of a b] b64_encode.simps(3) [of e a b, unfolded Let_def] by blast

lemma encode_3:
  obtains v where "v < 16777216"
    and "quantum (v div 262144) (v div 4096 mod 64) (v div 64 mod 64) (v mod 64) = [a, b, c]"
    and "b64_encode e (a # b # c # r) =
      [sym e (v div 262144), sym e (v div 4096 mod 64), sym e (v div 64 mod 64), sym e (v mod 64)]
        @ b64_encode e r"
  using quantum_bytes [of a b c] b64_encode.simps(4) [of e a b c r, unfolded Let_def] by blast

lemma b64_quanta_roundtrip:
  assumes ok: "encoding_ok e"
  shows "b64_decode_quanta e (b64_encode e bs) = Some bs"
  using ok
proof (induction e bs rule: b64_encode.induct)
  case (1 e)
  then show ?case by simp
next
  case (2 e a)
  obtain v where v: "v < 16777216" "take 1 (quantum (v div 262144) (v div 4096 mod 64) 0 0) = [a]"
    and enc: "b64_encode e [a] = [sym e (v div 262144), sym e (v div 4096 mod 64)] @ pad_with e 2"
    by (rule encode_1)
  show ?case unfolding enc using 2 v sextets [OF v(1)]
    by (cases "padded e") (simp_all add: pad_with_def sym_val_sym sym_val_pad numeral_2_eq_2)
next
  case (3 e a b)
  obtain v where v: "v < 16777216"
      "take 2 (quantum (v div 262144) (v div 4096 mod 64) (v div 64 mod 64) 0) = [a, b]"
    and enc: "b64_encode e [a, b] =
      [sym e (v div 262144), sym e (v div 4096 mod 64), sym e (v div 64 mod 64)] @ pad_with e 1"
    by (rule encode_2)
  show ?case unfolding enc using 3 v sextets [OF v(1)]
    by (cases "padded e") (simp_all add: pad_with_def sym_val_sym sym_val_pad)
next
  case (4 e a b c r)
  obtain v where v: "v < 16777216"
      "quantum (v div 262144) (v div 4096 mod 64) (v div 64 mod 64) (v mod 64) = [a, b, c]"
    and enc: "b64_encode e (a # b # c # r) =
      [sym e (v div 262144), sym e (v div 4096 mod 64), sym e (v div 64 mod 64), sym e (v mod 64)]
        @ b64_encode e r"
    by (rule encode_3)
  show ?case unfolding enc using 4 v sextets [OF v(1)] by (simp add: sym_val_sym)
qed

lemma b64_encode_symbols:
  assumes ok: "encoding_ok e"
  shows "set (b64_encode e bs) \<subseteq> set (alphabet e) \<union> (if padded e then {CHR ''=''} else {})"
  using ok
proof (induction e bs rule: b64_encode.induct)
  case (1 e)
  then show ?case by simp
next
  case (2 e a)
  obtain v where v: "v < 16777216"
    and enc: "b64_encode e [a] = [sym e (v div 262144), sym e (v div 4096 mod 64)] @ pad_with e 2"
    by (rule encode_1)
  show ?case unfolding enc using 2 sextets [OF v] by (auto simp: pad_with_def sym_in)
next
  case (3 e a b)
  obtain v where v: "v < 16777216"
    and enc: "b64_encode e [a, b] =
      [sym e (v div 262144), sym e (v div 4096 mod 64), sym e (v div 64 mod 64)] @ pad_with e 1"
    by (rule encode_2)
  show ?case unfolding enc using 3 sextets [OF v] by (auto simp: pad_with_def sym_in)
next
  case (4 e a b c r)
  obtain v where v: "v < 16777216"
    and enc: "b64_encode e (a # b # c # r) =
      [sym e (v div 262144), sym e (v div 4096 mod 64), sym e (v div 64 mod 64), sym e (v mod 64)]
        @ b64_encode e r"
    by (rule encode_3)
  show ?case unfolding enc using 4 sextets [OF v] by (auto simp: sym_in)
qed

lemma b64_encode_clean:
  assumes "encoding_ok e" and "c \<in> set (b64_encode e bs)"
  shows "c \<noteq> CHR ''.'' \<and> c \<noteq> CHR 0x0A \<and> c \<noteq> CHR 0x0D"
proof -
  from b64_encode_symbols [OF assms(1), of bs] assms(2)
  have "c \<in> set (alphabet e) \<or> c = CHR ''=''" by (auto split: if_splits)
  with assms(1) show ?thesis by (auto simp: encoding_ok_def)
qed

lemma b64_roundtrip:
  assumes "encoding_ok e"
  shows "b64_decode e (b64_encode e bs) = Some bs"
proof -
  have "filter (\<lambda>c. c \<noteq> CHR 0x0A \<and> c \<noteq> CHR 0x0D) (b64_encode e bs) = b64_encode e bs"
    using b64_encode_clean [OF assms] by (intro filter_True) blast
  with b64_quanta_roundtrip [OF assms] show ?thesis by (simp add: b64_decode_def)
qed

end
