(* ===== verification/Sha256.thy ===== *)
theory Sha256
  imports GoNum
begin

text \<open>
  \<open>crypto/sha256\<close> and \<open>crypto/hmac\<close> (FIPS 180-4 and RFC 2104) on byte strings, so that a
  token's signature is a concrete function of its text and the key. Nothing here is proved
  about collisions: the token theorems never assume there are none.
\<close>

unbundle bit_operations_syntax

section \<open>SHA-256\<close>

type_synonym u32 = "32 word"

text \<open>The tables are written eight words to a numeral, most significant word first.\<close>

definition row_words :: "int \<Rightarrow> u32 list" where
  "row_words n = map (\<lambda>i. word_of_int (n div 2 ^ (32 * i))) (rev [0..<8])"

definition sha_k :: "u32 list" where
  "sha_k = concat (map row_words
    [0x428a2f9871374491b5c0fbcfe9b5dba53956c25b59f111f1923f82a4ab1c5ed5,
     0xd807aa9812835b01243185be550c7dc372be5d7480deb1fe9bdc06a7c19bf174,
     0xe49b69c1efbe47860fc19dc6240ca1cc2de92c6f4a7484aa5cb0a9dc76f988da,
     0x983e5152a831c66db00327c8bf597fc7c6e00bf3d5a7914706ca635114292967,
     0x27b70a852e1b21384d2c6dfc53380d13650a7354766a0abb81c2c92e92722c85,
     0xa2bfe8a1a81a664bc24b8b70c76c51a3d192e819d6990624f40e3585106aa070,
     0x19a4c1161e376c082748774c34b0bcb5391c0cb34ed8aa4a5b9cca4f682e6ff3,
     0x748f82ee78a5636f84c878148cc7020890befffaa4506cebbef9a3f7c67178f2])"

definition sha_h0 :: "u32 list" where
  "sha_h0 = row_words 0x6a09e667bb67ae853c6ef372a54ff53a510e527f9b05688c1f83d9ab5be0cd19"

definition rotr :: "nat \<Rightarrow> u32 \<Rightarrow> u32" where
  "rotr n w = drop_bit n w OR push_bit (32 - n) w"

definition be32 :: "char \<Rightarrow> char \<Rightarrow> char \<Rightarrow> char \<Rightarrow> u32" where
  "be32 a b c d =
     push_bit 24 (of_char a) OR push_bit 16 (of_char b) OR push_bit 8 (of_char c) OR of_char d"

fun words_of :: "string \<Rightarrow> u32 list" where
  "words_of (a # b # c # d # r) = be32 a b c d # words_of r"
| "words_of _ = []"

text \<open>The message schedule, newest word first.\<close>

fun schedule :: "nat \<Rightarrow> u32 list \<Rightarrow> u32 list" where
  "schedule 0 ws = ws"
| "schedule (Suc n) ws =
     (let w2 = ws ! 1; w7 = ws ! 6; w15 = ws ! 14; w16 = ws ! 15;
          s0 = rotr 7 w15 XOR rotr 18 w15 XOR drop_bit 3 w15;
          s1 = rotr 17 w2 XOR rotr 19 w2 XOR drop_bit 10 w2
      in schedule n ((s1 + w7 + s0 + w16) # ws))"

definition sha_round :: "u32 \<Rightarrow> u32 list \<Rightarrow> u32 list" where
  "sha_round kw st =
     (let a = st ! 0; b = st ! 1; c = st ! 2; d = st ! 3; e = st ! 4; f = st ! 5; g = st ! 6; h = st ! 7;
          t1 = h + (rotr 6 e XOR rotr 11 e XOR rotr 25 e) + ((e AND f) XOR (NOT e AND g)) + kw;
          t2 = (rotr 2 a XOR rotr 13 a XOR rotr 22 a) + ((a AND b) XOR (a AND c) XOR (b AND c))
      in [t1 + t2, a, b, c, d + t1, e, f, g])"

definition sha_block :: "u32 list \<Rightarrow> string \<Rightarrow> u32 list" where
  "sha_block h blk =
     map2 (+) h (foldl (\<lambda>st (k, w). sha_round (k + w) st) h
       (zip sha_k (rev (schedule 48 (rev (words_of blk))))))"

fun sha_blocks :: "nat \<Rightarrow> u32 list \<Rightarrow> string \<Rightarrow> u32 list" where
  "sha_blocks 0 h m = h"
| "sha_blocks (Suc n) h m = sha_blocks n (sha_block h (take 64 m)) (drop 64 m)"

definition be_bytes :: "nat \<Rightarrow> nat \<Rightarrow> string" where
  "be_bytes n v = map (\<lambda>i. char_of (v div 256 ^ i)) (rev [0..<n])"

definition sha_pad :: "string \<Rightarrow> string" where
  "sha_pad m =
     m @ [CHR 0x80] @ replicate ((119 - length m mod 64) mod 64) (CHR 0x00)
       @ be_bytes 8 (8 * length m)"

definition sha256 :: "string \<Rightarrow> string" where
  "sha256 m =
     (let p = sha_pad m
      in concat (map (\<lambda>w. be_bytes 4 (unat w)) (sha_blocks (length p div 64) sha_h0 p)))"

section \<open>HMAC\<close>

definition xor_pad :: "nat \<Rightarrow> string \<Rightarrow> string" where
  "xor_pad b k = map (\<lambda>c. char_of (of_char c XOR b :: nat)) k"

definition hmac_sha256 :: "string \<Rightarrow> string \<Rightarrow> string" where
  "hmac_sha256 key msg =
     (let k0 = (if length key > 64 then sha256 key else key);
          k = k0 @ replicate (64 - length k0) (CHR 0x00)
      in sha256 (xor_pad 0x5c k @ sha256 (xor_pad 0x36 k @ msg)))"

section \<open>Sizes\<close>

lemma length_be_bytes [simp]: "length (be_bytes n v) = n"
  by (simp add: be_bytes_def)

lemma length_rounds:
  "length st = 8 \<Longrightarrow> length (foldl (\<lambda>st (k, w). sha_round (k + w) st) st kws) = 8"
  by (induction kws arbitrary: st) (auto simp: sha_round_def Let_def)

lemma length_sha_block [simp]: "length h = 8 \<Longrightarrow> length (sha_block h blk) = 8"
  by (simp add: sha_block_def length_rounds)

lemma length_sha_blocks [simp]: "length h = 8 \<Longrightarrow> length (sha_blocks n h m) = 8"
  by (induction n h m rule: sha_blocks.induct) simp_all

lemma length_sha256: "length (sha256 m) = 32"
proof -
  have "length (concat (map (\<lambda>w. be_bytes 4 (unat w)) ws)) = 4 * length ws" for ws :: "u32 list"
    by (induction ws) auto
  then show ?thesis by (simp add: sha256_def Let_def sha_h0_def row_words_def)
qed

lemma length_hmac: "length (hmac_sha256 k m) = 32"
  by (simp add: hmac_sha256_def Let_def length_sha256)

text \<open>Padding fills whole blocks, so no message byte is left over.\<close>

lemma pad_arith: "((n :: nat) + 9 + (119 - n mod 64) mod 64) mod 64 = 0"
proof -
  obtain q r where n: "n = r + q * 64" and r: "r < 64"
    by (metis add.commute div_mult_mod_eq mod_less_divisor zero_less_numeral)
  then have m: "n mod 64 = r" by simp
  show ?thesis
  proof (cases "r \<le> 55")
    case True
    then have "119 - r = 55 - r + 1 * 64" by simp
    then have e: "(119 - r) mod 64 = 55 - r" using True by (simp only: mod_mult_self1) simp
    have "n + 9 + (55 - r) = 64 * (q + 1)" using True n by simp
    then show ?thesis by (simp only: m e mod_mult_self1_is_0)
  next
    case False
    with r have e: "(119 - r) mod 64 = 119 - r" by simp
    have "n + 9 + (119 - r) = 64 * (q + 2)" using False r n by simp
    then show ?thesis by (simp only: m e mod_mult_self1_is_0)
  qed
qed

lemma sha_pad_blocks: "length (sha_pad m) mod 64 = 0"
proof -
  have "length (sha_pad m) = length m + 9 + (119 - length m mod 64) mod 64"
    by (simp add: sha_pad_def)
  then show ?thesis by (simp only: pad_arith)
qed

end
