(* ===== verification/Token.thy ===== *)
theory Token
  imports KeyStore Base64 Sha256
begin

text \<open>
  internal/auth/token.go: the signed session token a browser carries in its cookie,
  \<open>base64url(label).unixExpiry.base64url(hmac)\<close>.
\<close>

section \<open>Mint and Verify\<close>

definition sign :: "string \<Rightarrow> string \<Rightarrow> string \<Rightarrow> string" where
  "sign enc_label exp_str secret =
     b64_encode raw_url_encoding (hmac_sha256 secret (enc_label @ ''.'' @ exp_str))"

definition mint :: "string \<Rightarrow> string \<Rightarrow> time \<Rightarrow> string" where
  "mint label secret exp =
     (let enc = b64_encode raw_url_encoding label;
          exp_str = format_int (unix_of exp)
      in enc @ ''.'' @ exp_str @ ''.'' @ sign enc exp_str secret)"

definition verify :: "string \<Rightarrow> (string \<Rightarrow> string option) \<Rightarrow> time \<Rightarrow> string option" where
  "verify token secret_of now =
     (case cut token CHR ''.'' of (enc_label, rest, ok) \<Rightarrow>
      if \<not> ok then None
      else case cut rest CHR ''.'' of (exp_str, sig, ok) \<Rightarrow>
      if \<not> ok \<or> contains sig ''.'' then None
      else case b64_decode raw_url_encoding enc_label of
        None \<Rightarrow> None
      | Some label \<Rightarrow>
      (case secret_of label of
        None \<Rightarrow> None
      | Some secret \<Rightarrow>
      if constant_time_compare sig (sign enc_label exp_str secret) \<noteq> 1 then None
      else case parse_int exp_str of
        None \<Rightarrow> None
      | Some exp \<Rightarrow>
          if \<not> before now (time_unix exp) then None else Some label))"

section \<open>Text encodings as an interface\<close>

text \<open>
  A token is made of fields joined by a separator. What makes it parse back is that each field is
  written by an encoder whose output the decoder inverts and which never contains the separator.
  Base64 and decimal integers both provide this.
\<close>

locale text_codec =
  fixes enc :: "'a \<Rightarrow> string"
    and dec :: "string \<Rightarrow> 'a option"
    and valid :: "'a \<Rightarrow> bool"
    and sep :: char
  assumes dec_enc: "valid x \<Longrightarrow> dec (enc x) = Some x"
    and sep_free: "valid x \<Longrightarrow> sep \<notin> set (enc x)"
begin

lemma enc_inj: "valid x \<Longrightarrow> valid y \<Longrightarrow> enc x = enc y \<Longrightarrow> x = y"
  by (metis dec_enc option.inject)

lemma cut_enc: "valid x \<Longrightarrow> cut (enc x @ sep # rest) sep = (enc x, rest, True)"
  by (rule cut_found) (rule sep_free)

lemma field_unique:
  assumes "valid x" "valid y" and "enc x @ sep # r = enc y @ sep # s"
  shows "x = y \<and> r = s"
proof -
  have "(enc x, r, True) = (enc y, s, True)"
    using cut_enc [OF assms(1), of r] cut_enc [OF assms(2), of s] unfolding assms(3) by (rule subst)
  then show ?thesis using enc_inj [OF assms(1,2)] by simp
qed

end

lemma b64_url_no_dot: "CHR ''.'' \<notin> set (b64_encode raw_url_encoding bs)"
  using b64_encode_clean [OF raw_url_ok] by blast

interpretation b64_field: text_codec "b64_encode raw_url_encoding" "b64_decode raw_url_encoding"
    "\<lambda>_. True" "CHR ''.''"
  by unfold_locales (simp_all add: b64_roundtrip raw_url_ok b64_url_no_dot)

interpretation int_field: text_codec format_int parse_int in_int64 "CHR ''.''"
  by unfold_locales (simp_all add: parse_format_int format_int_no_dot)

section \<open>What verification accepts\<close>

lemma sign_no_dot: "CHR ''.'' \<notin> set (sign e x s)"
  by (simp add: sign_def b64_url_no_dot)

text \<open>The complete description of an accepted token.\<close>

lemma verify_iff:
  "verify token secret_of now = Some label \<longleftrightarrow>
     (\<exists>enc exp_str secret exp.
        token = enc @ ''.'' @ exp_str @ ''.'' @ sign enc exp_str secret \<and>
        CHR ''.'' \<notin> set enc \<and> CHR ''.'' \<notin> set exp_str \<and>
        b64_decode raw_url_encoding enc = Some label \<and> secret_of label = Some secret \<and>
        parse_int exp_str = Some exp \<and> before now (time_unix exp))"
    (is "?L \<longleftrightarrow> ?R")
proof
  assume L: ?L
  obtain enc rest ok1 where c1: "cut token CHR ''.'' = (enc, rest, ok1)"
    by (cases "cut token CHR ''.''") auto
  obtain exp_str sig ok2 where c2: "cut rest CHR ''.'' = (exp_str, sig, ok2)"
    by (cases "cut rest CHR ''.''") auto
  from L c1 c2 obtain secret exp where ok: "ok1" "ok2"
    and d: "b64_decode raw_url_encoding enc = Some label" "secret_of label = Some secret"
    and s: "sig = sign enc exp_str secret" and e: "parse_int exp_str = Some exp" "before now (time_unix exp)"
    by (auto simp: verify_def constant_time_compare_iff split: if_splits option.splits)
  from c1 c2 ok have "token = enc @ ''.'' @ rest \<and> CHR ''.'' \<notin> set enc"
    "rest = exp_str @ ''.'' @ sig \<and> CHR ''.'' \<notin> set exp_str"
    by (auto dest: cut_TrueD)
  with d s e show ?R by blast
next
  assume ?R
  then show ?L
    by (auto simp: verify_def cut_found constant_time_compare_iff sign_no_dot)
qed

lemma verify_mint:
  assumes "valid_time exp"
  shows "verify (mint label secret exp) secret_of now =
     (case secret_of label of
        None \<Rightarrow> None
      | Some s \<Rightarrow>
          if sign (b64_encode raw_url_encoding label) (format_int (unix_of exp)) secret =
             sign (b64_encode raw_url_encoding label) (format_int (unix_of exp)) s
             \<and> before now (exp div second * second)
          then Some label else None)"
proof -
  have r: "in_int64 (unix_of exp)" by (simp add: unix_of_def wrap64_range)
  show ?thesis
    using time_unix_unix_of [OF assms]
    by (simp add: verify_def mint_def Let_def b64_field.cut_enc int_field.cut_enc [OF r]
        b64_field.dec_enc int_field.dec_enc [OF r] constant_time_compare_iff sign_no_dot
        split: option.split)
qed

text \<open>
  The signed text determines both fields: the separator cannot occur in either, so no other label
  and expiry have the same message.
\<close>

lemma signed_text_inj:
  assumes "CHR ''.'' \<notin> set e1" "CHR ''.'' \<notin> set e2" "e1 @ ''.'' @ x1 = e2 @ ''.'' @ x2"
  shows "e1 = e2 \<and> x1 = x2"
proof -
  have "cut (e1 @ ''.'' @ x1) CHR ''.'' = (e1, x1, True)"
    "cut (e2 @ ''.'' @ x2) CHR ''.'' = (e2, x2, True)"
    using assms(1,2) by (simp_all add: cut_found)
  then have "(e1, x1, True) = (e2, x2, True)" unfolding assms(3) by (rule trans [OF sym])
  then show ?thesis by simp
qed

end
