(* ===== verification/GoPath.thy ===== *)
theory GoPath
  imports GoStrings
begin

text \<open>
  \<open>path.Clean\<close>, over the slash-separated elements of the path: empty and \<open>.\<close> elements
  vanish, \<open>..\<close> removes the element before it, and at the root vanishes. The buffer of the Go
  routine is the stack here, last element first.
\<close>

definition clean_step :: "bool \<Rightarrow> string list \<Rightarrow> string \<Rightarrow> string list" where
  "clean_step rooted st seg =
     (if seg = [] \<or> seg = ''.'' then st
      else if seg = ''..'' then
        (case st of
           [] \<Rightarrow> if rooted then [] else [''..'']
         | e # below \<Rightarrow> if e = ''..'' then ''..'' # st else below)
      else seg # st)"

definition clean_elems :: "bool \<Rightarrow> string list \<Rightarrow> string list" where
  "clean_elems rooted segs = rev (foldl (clean_step rooted) [] segs)"

definition path_clean :: "string \<Rightarrow> string" where
  "path_clean p =
     (if p = [] then ''.''
      else if hd p = CHR ''/'' then CHR ''/'' # join ''/'' (clean_elems True (split_on CHR ''/'' p))
      else (let es = clean_elems False (split_on CHR ''/'' p)
            in if es = [] then ''.'' else join ''/'' es))"

text \<open>
  The elements a rooted path resolves to, which is what a server that normalises paths routes on.
\<close>

definition resolve :: "string \<Rightarrow> string list" where
  "resolve p = clean_elems True (split_on CHR ''/'' p)"

definition elem_ok :: "string \<Rightarrow> bool" where
  "elem_ok e \<longleftrightarrow> e \<noteq> [] \<and> e \<noteq> ''.'' \<and> e \<noteq> ''..'' \<and> CHR ''/'' \<notin> set e"

lemma clean_step_ok:
  "list_all elem_ok st \<Longrightarrow> CHR ''/'' \<notin> set seg \<Longrightarrow> list_all elem_ok (clean_step True st seg)"
  by (cases st) (auto simp: clean_step_def elem_ok_def)

lemma clean_fold_ok:
  "list_all elem_ok st \<Longrightarrow> \<forall>seg \<in> set segs. CHR ''/'' \<notin> set seg \<Longrightarrow>
   list_all elem_ok (foldl (clean_step True) st segs)"
  by (induction segs arbitrary: st) (auto simp: clean_step_ok)

lemma resolve_ok: "list_all elem_ok (resolve p)"
  using clean_fold_ok [of "[]" "split_on CHR ''/'' p"]
  by (auto simp: resolve_def clean_elems_def split_on_elem)

lemma clean_fold_id:
  "list_all elem_ok segs \<Longrightarrow> foldl (clean_step True) st segs = rev segs @ st"
  by (induction segs arbitrary: st) (auto simp: clean_step_def elem_ok_def)

lemma path_clean_rooted:
  "path_clean (CHR ''/'' # p) = CHR ''/'' # join ''/'' (resolve (CHR ''/'' # p))"
  by (simp add: path_clean_def resolve_def)

lemma split_rooted:
  assumes "list_all elem_ok es"
  shows "split_on CHR ''/'' (CHR ''/'' # join ''/'' es) = [] # (if es = [] then [[]] else es)"
proof (cases "es = []")
  case False
  then have "split_on CHR ''/'' (join ''/'' es) = es"
    using assms by (intro split_join) (auto simp: list_all_iff elem_ok_def)
  with False show ?thesis by simp
qed simp

text \<open>Resolving the rooted path built from clean elements gives them back.\<close>

lemma resolve_join:
  "list_all elem_ok es \<Longrightarrow> resolve (CHR ''/'' # join ''/'' es) = es"
  using clean_fold_id [of es "[]"]
  by (simp only: resolve_def split_rooted clean_elems_def) (auto simp: clean_step_def)

lemma resolve_path_clean: "resolve (path_clean (CHR ''/'' # p)) = resolve (CHR ''/'' # p)"
  by (simp add: path_clean_rooted resolve_join resolve_ok)

lemma path_clean_idem: "path_clean (path_clean (CHR ''/'' # p)) = path_clean (CHR ''/'' # p)"
  by (metis path_clean_rooted resolve_path_clean)

lemma path_clean_eq_iff:
  "path_clean (CHR ''/'' # p) = path_clean (CHR ''/'' # q) \<longleftrightarrow>
   resolve (CHR ''/'' # p) = resolve (CHR ''/'' # q)"
  by (metis path_clean_rooted resolve_path_clean)

lemma path_clean_no_trailing:
  "path_clean (CHR ''/'' # p) \<noteq> ''/'' \<Longrightarrow> \<not> has_suffix (path_clean (CHR ''/'' # p)) ''/''"
proof -
  assume ne: "path_clean (CHR ''/'' # p) \<noteq> ''/''"
  let ?es = "resolve (CHR ''/'' # p)"
  have "?es \<noteq> []" using ne by (auto simp: path_clean_rooted)
  then obtain fs e where es: "?es = fs @ [e]" by (metis rev_exhaust)
  with resolve_ok [of "CHR ''/'' # p"] have e: "e \<noteq> []" "CHR ''/'' \<notin> set e"
    by (auto simp: elem_ok_def)
  have "\<exists>t. path_clean (CHR ''/'' # p) = t @ e"
    unfolding path_clean_rooted es by (cases "fs = []") (auto simp: join_snoc)
  then obtain t where t: "path_clean (CHR ''/'' # p) = t @ e" by blast
  have "last e \<noteq> CHR ''/''" using last_in_set [OF e(1)] e(2) by metis
  with t e(1) have "last (path_clean (CHR ''/'' # p)) \<noteq> CHR ''/''" by simp
  then show ?thesis by (auto simp: has_suffix_def suffix_def)
qed

text \<open>Variants a client can spell that resolve alike: an extra slash, a dot, a detour.\<close>

lemma resolve_variants:
  fixes a b :: string
  shows "resolve (a @ ''//'' @ b) = resolve (a @ ''/'' @ b)"
    and "resolve (a @ ''/./'' @ b) = resolve (a @ ''/'' @ b)"
    and "elem_ok x \<Longrightarrow> resolve (a @ ''/'' @ x @ ''/../'' @ b) = resolve (a @ ''/'' @ b)"
    and "resolve (a @ ''/'') = resolve a"
proof -
  have sp: "split_on CHR ''/'' (s @ CHR ''/'' # t) = split_on CHR ''/'' s @ split_on CHR ''/'' t" for s t
    by (rule split_on_snoc)
  show "resolve (a @ ''//'' @ b) = resolve (a @ ''/'' @ b)"
    using sp [of a "CHR ''/'' # b"] sp [of a b]
    by (simp add: resolve_def clean_elems_def clean_step_def)
  show "resolve (a @ ''/./'' @ b) = resolve (a @ ''/'' @ b)"
    using sp [of a "CHR ''.'' # CHR ''/'' # b"] sp [of "''.''" b] sp [of a b]
    by (simp add: resolve_def clean_elems_def clean_step_def)
  show "resolve (a @ ''/'') = resolve a"
    using sp [of a "[]"] by (simp add: resolve_def clean_elems_def clean_step_def)
  show "elem_ok x \<Longrightarrow> resolve (a @ ''/'' @ x @ ''/../'' @ b) = resolve (a @ ''/'' @ b)"
  proof -
    assume x: "elem_ok x"
    then have "split_on CHR ''/'' x = [x]" by (auto simp: elem_ok_def split_on_absent)
    with sp [of a "x @ CHR ''/'' # CHR ''.'' # CHR ''.'' # CHR ''/'' # b"]
      sp [of x "CHR ''.'' # CHR ''.'' # CHR ''/'' # b"] sp [of "''..''" b] sp [of a b]
    have "split_on CHR ''/'' (a @ ''/'' @ x @ ''/../'' @ b) =
      split_on CHR ''/'' a @ [x, ''..''] @ split_on CHR ''/'' b" by simp
    with sp [of a b] x show ?thesis
      by (simp add: resolve_def clean_elems_def clean_step_def elem_ok_def)
  qed
qed

end
