(* ===== verification/NetAddr.thy ===== *)
theory NetAddr
  imports GoStrings
begin

text \<open>
  \<open>net.SplitHostPort\<close>: the text is host, colon, port, with the host in brackets if it has
  colons itself. \<open>None\<close> stands for any \<open>AddrError\<close>; no caller distinguishes them.
\<close>

fun last_index :: "char \<Rightarrow> string \<Rightarrow> nat option" where
  "last_index c [] = None"
| "last_index c (x # xs) =
     (case last_index c xs of
        Some i \<Rightarrow> Some (Suc i)
      | None \<Rightarrow> if x = c then Some 0 else None)"

fun first_index :: "char \<Rightarrow> string \<Rightarrow> nat option" where
  "first_index c [] = None"
| "first_index c (x # xs) = (if x = c then Some 0 else map_option Suc (first_index c xs))"

definition split_host_port :: "string \<Rightarrow> (string \<times> string) option" where
  "split_host_port hp =
     (case last_index CHR '':'' hp of
        None \<Rightarrow> None
      | Some i \<Rightarrow>
          if hd hp = CHR ''['' then
            (case first_index CHR '']'' hp of
               None \<Rightarrow> None
             | Some e \<Rightarrow>
                 if e + 1 \<noteq> i then None
                 else if CHR ''['' \<in> set (drop 1 hp) \<or> CHR '']'' \<in> set (drop (e + 1) hp) then None
                 else Some (take (e - 1) (drop 1 hp), drop (i + 1) hp))
          else
            (let host = take i hp
             in if CHR '':'' \<in> set host then None
                else if CHR ''['' \<in> set hp \<or> CHR '']'' \<in> set hp then None
                else Some (host, drop (i + 1) hp)))"

lemma last_index_append: "c \<notin> set t \<Longrightarrow> last_index c (s @ c # t) = Some (length s)"
proof -
  assume t: "c \<notin> set t"
  have none: "c \<notin> set u \<Longrightarrow> last_index c u = None" for u by (induction u) auto
  show ?thesis by (induction s) (auto simp: none t)
qed

lemma first_index_append: "c \<notin> set s \<Longrightarrow> first_index c (s @ c # t) = Some (length s)"
  by (induction s) auto

lemma last_index_None: "last_index c s = None \<longleftrightarrow> c \<notin> set s"
  by (induction s) (auto split: option.splits)

text \<open>The two written forms of an address are read back.\<close>

lemma split_plain:
  assumes "set host \<inter> set '':[]'' = {}" and "set port \<inter> set '':[]'' = {}"
  shows "split_host_port (host @ '':'' @ port) = Some (host, port)"
proof -
  have "hd (host @ CHR '':'' # port) \<noteq> CHR ''[''" using assms(1) by (cases host) auto
  with assms show ?thesis
    by (auto simp: split_host_port_def last_index_append Let_def)
qed

lemma split_bracketed:
  assumes "set host \<inter> set ''[]'' = {}" and "set port \<inter> set '':[]'' = {}"
  shows "split_host_port (''['' @ host @ '']:'' @ port) = Some (host, port)"
proof -
  have l: "last_index CHR '':'' ((CHR ''['' # host @ '']'') @ CHR '':'' # port) = Some (length host + 2)"
    using assms(2) by (subst last_index_append) auto
  have f: "first_index CHR '']'' ((CHR ''['' # host) @ CHR '']'' # CHR '':'' # port) = Some (length host + 1)"
    using assms(1) by (subst first_index_append) auto
  show ?thesis using l f assms by (auto simp: split_host_port_def)
qed

lemma split_bare: "CHR '':'' \<notin> set s \<Longrightarrow> split_host_port s = None"
  by (simp add: split_host_port_def last_index_None [THEN iffD2])

end
