(* ===== verification/GoUrl.thy ===== *)
theory GoUrl
  imports GoStrings
begin

text \<open>
  The part of \<open>net/url\<close> the gateway uses: percent escaping, \<open>ParseQuery\<close> and
  \<open>Values\<close>, \<open>EscapedPath\<close> and \<open>RequestURI\<close>. Go's configurable cap on the number of query
  parameters is not modelled.
\<close>

section \<open>Escaping\<close>

datatype escape_mode = EncodePath | EncodeQueryComponent

definition is_alnum :: "char \<Rightarrow> bool" where
  "is_alnum c \<longleftrightarrow> in_range (CHR ''a'') (CHR ''z'') c \<or> in_range (CHR ''A'') (CHR ''Z'') c \<or>
     in_range (CHR ''0'') (CHR ''9'') c"

definition should_escape :: "escape_mode \<Rightarrow> char \<Rightarrow> bool" where
  "should_escape mode c =
     (if is_alnum c then False
      else if c \<in> set ''-_.~'' then False
      else if c \<in> set ''$&+,/:;=?@'' then
        (case mode of EncodePath \<Rightarrow> c = CHR ''?'' | EncodeQueryComponent \<Rightarrow> True)
      else True)"

definition upper_hex :: string where
  "upper_hex = ''0123456789ABCDEF''"

definition unhex :: "char \<Rightarrow> nat option" where
  "unhex c =
     (if in_range (CHR ''0'') (CHR ''9'') c then Some (of_char c - 48)
      else if in_range (CHR ''a'') (CHR ''f'') c then Some (of_char c - 87)
      else if in_range (CHR ''A'') (CHR ''F'') c then Some (of_char c - 55)
      else None)"

definition escape_char :: "escape_mode \<Rightarrow> char \<Rightarrow> string" where
  "escape_char mode c =
     (if c = CHR '' '' \<and> mode = EncodeQueryComponent then ''+''
      else if should_escape mode c then
        [CHR ''%'', upper_hex ! (of_char c div 16), upper_hex ! (of_char c mod 16)]
      else [c])"

definition escape :: "escape_mode \<Rightarrow> string \<Rightarrow> string" where
  "escape mode s = concat (map (escape_char mode) s)"

text \<open>\<open>None\<close> is the \<open>EscapeError\<close>.\<close>

fun unescape :: "escape_mode \<Rightarrow> string \<Rightarrow> string option" where
  "unescape mode [] = Some []"
| "unescape mode (c # s) =
     (if c = CHR ''%'' then
        (case s of
           a # b # r \<Rightarrow>
             (case (unhex a, unhex b) of
                (Some x, Some y) \<Rightarrow> map_option (\<lambda>t. char_of (16 * x + y) # t) (unescape mode r)
              | _ \<Rightarrow> None)
         | _ \<Rightarrow> None)
      else if c = CHR ''+'' \<and> mode = EncodeQueryComponent then map_option ((#) (CHR '' '')) (unescape mode s)
      else map_option ((#) c) (unescape mode s))"

text \<open>A byte is one of 256 values, so a fact about every byte is checked by enumeration.\<close>

lemma hex_digits:
  assumes "n < 16"
  shows "unhex (upper_hex ! n) = Some n" and "upper_hex ! n \<in> set upper_hex"
proof -
  have "n \<in> set [0..<16]" using assms by simp
  then show "unhex (upper_hex ! n) = Some n"
    by (simp add: upt_conv_Cons upper_hex_def) (elim disjE; simp add: unhex_def)
  show "upper_hex ! n \<in> set upper_hex" by (rule nth_mem) (use assms in \<open>simp add: upper_hex_def\<close>)
qed

lemma unescape_escape_char:
  "unescape mode (escape_char mode c @ s) = map_option ((#) c) (unescape mode s)"
proof -
  have d: "(of_char c div 16 :: nat) < 16" using of_char_less_256 [of c] by (simp add: div_less_iff_less_mult)
  have m: "(of_char c mod 16 :: nat) < 16" by simp
  have e: "char_of (16 * (of_char c div 16) + of_char c mod 16 :: nat) = c" by simp
  have "should_escape mode (CHR ''%'')" "mode = EncodeQueryComponent \<Longrightarrow> should_escape mode (CHR ''+'')"
    by (simp_all add: should_escape_def is_alnum_def split: escape_mode.splits)
  with hex_digits(1) [OF d] hex_digits(1) [OF m] e show ?thesis
    by (auto simp: escape_char_def)
qed

lemma unescape_escape: "unescape mode (escape mode s) = Some s"
  by (induction s) (simp_all add: escape_def unescape_escape_char)

lemma escape_char_query_safe:
  "x \<in> set (escape_char EncodeQueryComponent c) \<Longrightarrow> x \<notin> set ''&;=''"
proof -
  assume x: "x \<in> set (escape_char EncodeQueryComponent c)"
  have d: "(of_char c div 16 :: nat) < 16" using of_char_less_256 [of c] by (simp add: div_less_iff_less_mult)
  have m: "(of_char c mod 16 :: nat) < 16" by simp
  have hex: "y \<in> set upper_hex \<Longrightarrow> y \<notin> set ''&;=''" for y
    by (auto simp: upper_hex_def)
  have esc: "\<not> should_escape EncodeQueryComponent y \<Longrightarrow> y \<notin> set ''&;=''" for y
    by (auto simp: should_escape_def is_alnum_def split: if_splits)
  from x show ?thesis
    using hex [OF hex_digits(2) [OF d]] hex [OF hex_digits(2) [OF m]] esc [of c]
    by (auto simp: escape_char_def split: if_splits)
qed

lemma escape_query_safe:
  "x \<in> set (escape EncodeQueryComponent s) \<Longrightarrow> x \<noteq> CHR ''&'' \<and> x \<noteq> CHR '';'' \<and> x \<noteq> CHR ''=''"
  using escape_char_query_safe by (auto simp: escape_def)

section \<open>Query strings\<close>

text \<open>\<open>url.Values\<close>, a Go map from a name to its values in order.\<close>

type_synonym url_values = "(string \<times> string list) list"

definition vals :: "url_values \<Rightarrow> string \<Rightarrow> string list" where
  "vals q k = (case map_of q k of None \<Rightarrow> [] | Some vs \<Rightarrow> vs)"

definition values_get :: "url_values \<Rightarrow> string \<Rightarrow> string" where
  "values_get q k = (case vals q k of [] \<Rightarrow> [] | v # _ \<Rightarrow> v)"

definition values_has :: "url_values \<Rightarrow> string \<Rightarrow> bool" where
  "values_has q k \<longleftrightarrow> map_of q k \<noteq> None"

definition values_del :: "url_values \<Rightarrow> string \<Rightarrow> url_values" where
  "values_del q k = AList.delete k q"

definition add_value :: "url_values \<Rightarrow> string \<times> string \<Rightarrow> url_values" where
  "add_value q kv = AList.update (fst kv) (vals q (fst kv) @ [snd kv]) q"

text \<open>One \<open>&\<close>-separated segment; \<open>None\<close> for a segment the parser skips.\<close>

definition parse_segment :: "string \<Rightarrow> (string \<times> string) option" where
  "parse_segment seg =
     (if CHR '';'' \<in> set seg \<or> seg = [] then None
      else case cut seg CHR ''='' of (k, v, _) \<Rightarrow>
        (case (unescape EncodeQueryComponent k, unescape EncodeQueryComponent v) of
           (Some k', Some v') \<Rightarrow> Some (k', v')
         | _ \<Rightarrow> None))"

definition parse_query :: "string \<Rightarrow> url_values" where
  "parse_query s = foldl add_value [] (List.map_filter parse_segment (split_on CHR ''&'' s))"

definition values_encode :: "url_values \<Rightarrow> string" where
  "values_encode q =
     join ''&'' (concat (map (\<lambda>k. map (\<lambda>v. escape EncodeQueryComponent k @ ''='' @ escape EncodeQueryComponent v)
        (vals q k)) (sort (map fst q))))"

lemma vals_add_value: "vals (add_value q (k, v)) k' = vals q k' @ (if k' = k then [v] else [])"
  by (simp add: vals_def add_value_def alist_update_map)

lemma vals_fold: "vals (foldl add_value q ps) k = vals q k @ map snd (filter (\<lambda>p. fst p = k) ps)"
  by (induction ps arbitrary: q) (auto simp: vals_add_value)

lemma has_fold: "values_has (foldl add_value q ps) k \<longleftrightarrow> values_has q k \<or> k \<in> fst ` set ps"
  by (induction ps arbitrary: q) (auto simp: values_has_def add_value_def alist_update_map)

lemma distinct_fold: "distinct (map fst q) \<Longrightarrow> distinct (map fst (foldl add_value q ps))"
  by (induction ps arbitrary: q) (simp_all add: add_value_def distinct_update)

lemma parse_query_distinct: "distinct (map fst (parse_query s))"
  by (simp add: parse_query_def distinct_fold)

lemma parse_segment_encode:
  "parse_segment (escape EncodeQueryComponent k @ ''='' @ escape EncodeQueryComponent v) = Some (k, v)"
proof -
  have "cut (escape EncodeQueryComponent k @ ''='' @ escape EncodeQueryComponent v) CHR ''='' =
     (escape EncodeQueryComponent k, escape EncodeQueryComponent v, True)"
    using escape_query_safe by (simp add: cut_found) (metis cut_found)
  then show ?thesis
    using escape_query_safe by (auto simp: parse_segment_def unescape_escape)
qed

definition pairs_of :: "url_values \<Rightarrow> (string \<times> string) list" where
  "pairs_of q = concat (map (\<lambda>k. map (Pair k) (vals q k)) (sort (map fst q)))"

lemma map_filter_Some: "(\<And>x. x \<in> set xs \<Longrightarrow> f (g x) = Some x) \<Longrightarrow> List.map_filter f (map g xs) = xs"
  by (induction xs) (auto simp: map_filter_simps)

lemma parse_encode: "parse_query (values_encode q) = foldl add_value [] (pairs_of q)"
proof -
  let ?g = "\<lambda>(k, v). escape EncodeQueryComponent k @ ''='' @ escape EncodeQueryComponent v"
  have enc: "values_encode q = join ''&'' (map ?g (pairs_of q))"
    by (simp add: values_encode_def pairs_of_def map_concat o_def)
  have seg: "parse_segment (?g p) = Some p" for p
    using parse_segment_encode by (cases p) simp
  show ?thesis
  proof (cases "pairs_of q = []")
    case True
    then show ?thesis by (simp add: parse_query_def enc parse_segment_def map_filter_simps)
  next
    case False
    have "CHR ''&'' \<notin> set (?g p)" for p
      using escape_query_safe by (cases p) auto
    with False have "split_on CHR ''&'' (values_encode q) = map ?g (pairs_of q)"
      unfolding enc by (intro split_join) auto
    moreover have "List.map_filter parse_segment (map ?g (pairs_of q)) = pairs_of q"
      by (rule map_filter_Some) (rule seg)
    ultimately show ?thesis by (simp only: parse_query_def)
  qed
qed

text \<open>What a reader of the encoded query sees.\<close>

lemma vals_parse_encode:
  assumes "distinct (map fst q)"
  shows "vals (parse_query (values_encode q)) k = vals q k"
proof -
  have "map snd (filter (\<lambda>p. fst p = k) (concat (map (\<lambda>k. map (Pair k) (vals q k)) ks))) =
      (if k \<in> set ks then vals q k else [])" if "distinct ks" for ks
    using that
  proof (induction ks)
    case Nil
    then show ?case by simp
  next
    case (Cons a ks)
    then show ?case by (cases "a = k") (auto simp: filter_map o_def)
  qed
  from this [of "sort (map fst q)"] assms
  have "vals (parse_query (values_encode q)) k = (if k \<in> set (map fst q) then vals q k else [])"
    by (simp add: parse_encode vals_fold pairs_of_def vals_def [of "[]"])
  also have "\<dots> = vals q k"
    by (auto simp: vals_def dest: map_of_SomeD split: option.splits) (metis fst_conv image_eqI map_of_SomeD)
  finally show ?thesis .
qed

lemma has_parse_encode_del: "\<not> values_has (parse_query (values_encode (values_del q k))) k"
proof -
  have "k \<notin> fst ` set (pairs_of (values_del q k))"
    by (auto simp: pairs_of_def values_del_def AList.delete_eq)
  then show ?thesis by (simp add: parse_encode has_fold) (simp add: values_has_def)
qed

section \<open>URLs\<close>

record url =
  scheme :: string
  opaque :: string
  path :: string
  raw_path :: string
  force_query :: bool
  raw_query :: string

definition valid_encoded :: "string \<Rightarrow> bool" where
  "valid_encoded s \<longleftrightarrow>
     (\<forall>c \<in> set s. c \<in> set ''!$&()*+,;=:@[]%'' \<or> c = CHR 0x27 \<or> \<not> should_escape EncodePath c)"

definition escaped_path :: "url \<Rightarrow> string" where
  "escaped_path u =
     (if raw_path u \<noteq> [] \<and> valid_encoded (raw_path u) \<and> unescape EncodePath (raw_path u) = Some (path u)
      then raw_path u
      else if path u = ''*'' then ''*''
      else escape EncodePath (path u))"

definition request_uri :: "url \<Rightarrow> string" where
  "request_uri u =
     (let result =
        (if opaque u = [] then (let p = escaped_path u in if p = [] then ''/'' else p)
         else if has_prefix (opaque u) ''//'' then scheme u @ '':'' @ opaque u
         else opaque u)
      in if force_query u \<or> raw_query u \<noteq> [] then result @ ''?'' @ raw_query u else result)"

end
