(* ===== verification/Http.thy ===== *)
theory Http
  imports GoUrl GoNum
begin

text \<open>
  \<open>net/http\<close> as the gateway's handlers see it: headers with canonical keys, the request record
  (with the two context values the gateway stores in it), cookies and the response record.
\<close>

section \<open>Headers\<close>

definition token_char :: "char \<Rightarrow> bool" where
  "token_char c \<longleftrightarrow> is_alnum c \<or> c \<in> set ''!#$%&*+-.^_|~'' \<or> c = CHR 0x27 \<or> c = CHR 0x60"

fun canon_from :: "bool \<Rightarrow> string \<Rightarrow> string" where
  "canon_from up [] = []"
| "canon_from up (c # s) = (if up then to_upper_char c else to_lower_char c) # canon_from (c = CHR ''-'') s"

text \<open>\<open>textproto.CanonicalMIMEHeaderKey\<close>: a key with an invalid byte is left alone.\<close>

definition canon :: "string \<Rightarrow> string" where
  "canon k = (if list_all token_char k then canon_from True k else k)"

text \<open>\<open>http.Header\<close>, a Go map from keys to values.\<close>

type_synonym header = "(string \<times> string list) list"

definition hdr_values :: "header \<Rightarrow> string \<Rightarrow> string list" where
  "hdr_values h k = (case map_of h (canon k) of None \<Rightarrow> [] | Some vs \<Rightarrow> vs)"

definition hdr_get :: "header \<Rightarrow> string \<Rightarrow> string" where
  "hdr_get h k = (case hdr_values h k of [] \<Rightarrow> [] | v # _ \<Rightarrow> v)"

definition hdr_set :: "header \<Rightarrow> string \<Rightarrow> string \<Rightarrow> header" where
  "hdr_set h k v = AList.update (canon k) [v] h"

definition hdr_del :: "header \<Rightarrow> string \<Rightarrow> header" where
  "hdr_del h k = AList.delete (canon k) h"

text \<open>
  What the HTTP reader guarantees of a parsed header: each key is the canonical form of the name
  on the wire, so canonicalising it again changes nothing, and a key occurs once.
\<close>

definition header_ok :: "header \<Rightarrow> bool" where
  "header_ok h \<longleftrightarrow> (\<forall>k \<in> fst ` set h. canon k = k) \<and> distinct (map fst h)"

lemma of_char_case:
  "byte (to_upper_char c) = (if 97 \<le> byte c \<and> byte c \<le> 122 then byte c - 32 else byte c)"
  "byte (to_lower_char c) = (if 65 \<le> byte c \<and> byte c \<le> 90 then byte c + 32 else byte c)"
  using of_char_less_256 [of c]
  by (auto simp: to_upper_char_def to_lower_char_def less_eq_char_def)

lemma case_idem:
  "to_upper_char (to_upper_char c) = to_upper_char c"
  "to_lower_char (to_lower_char c) = to_lower_char c"
  "to_lower_char (to_upper_char c) = to_lower_char c"
  by (rule of_char_eqI [where ?'a = nat]; auto simp: of_char_case)+

lemma case_dash:
  "to_upper_char c = CHR ''-'' \<longleftrightarrow> c = CHR ''-''"
  "to_lower_char c = CHR ''-'' \<longleftrightarrow> c = CHR ''-''"
proof -
  have d: "x = CHR ''-'' \<longleftrightarrow> byte x = 45" for x
    using of_char_eq_iff [of x "CHR ''-''", where ?'a = nat] by simp
  show "to_upper_char c = CHR ''-'' \<longleftrightarrow> c = CHR ''-''"
    and "to_lower_char c = CHR ''-'' \<longleftrightarrow> c = CHR ''-''"
    unfolding d of_char_case by auto
qed

lemma canon_from_idem: "canon_from up (canon_from up k) = canon_from up k"
  by (induction up k rule: canon_from.induct) (auto simp: case_idem case_dash)

lemma to_lower_canon_from: "to_lower (canon_from up k) = to_lower k"
  by (induction up k rule: canon_from.induct) (auto simp: case_idem to_lower_def)

lemma alnum_case:
  "is_alnum c \<Longrightarrow> is_alnum (to_upper_char c)"
  "is_alnum c \<Longrightarrow> is_alnum (to_lower_char c)"
  by (simp_all only: is_alnum_def less_eq_char_def of_char_case) (auto split: if_splits)

lemma case_non_alnum:
  "\<not> is_alnum c \<Longrightarrow> to_upper_char c = c"
  "\<not> is_alnum c \<Longrightarrow> to_lower_char c = c"
  by (auto simp: is_alnum_def to_upper_char_def to_lower_char_def)

lemma token_case: "token_char c \<Longrightarrow> token_char (to_upper_char c) \<and> token_char (to_lower_char c)"
  by (cases "is_alnum c") (auto simp: token_char_def alnum_case case_non_alnum)

lemma canon_from_token: "list_all token_char k \<Longrightarrow> list_all token_char (canon_from up k)"
  by (induction up k rule: canon_from.induct) (auto simp: token_case)

lemma canon_idem [simp]: "canon (canon k) = canon k"
  by (simp add: canon_def canon_from_idem canon_from_token)

lemma to_lower_canon: "to_lower (canon k) = to_lower k"
  by (simp add: canon_def to_lower_canon_from)

lemma hdr_values_set: "hdr_values (hdr_set h k v) k' = (if canon k' = canon k then [v] else hdr_values h k')"
  by (simp add: hdr_values_def hdr_set_def alist_update_map)

lemma hdr_values_del: "hdr_values (hdr_del h k) k' = (if canon k' = canon k then [] else hdr_values h k')"
  by (simp add: hdr_values_def hdr_del_def alist_delete_map)

lemmas hdr_simps = hdr_values_set hdr_values_del hdr_get_def

lemma header_ok_set: "header_ok h \<Longrightarrow> header_ok (hdr_set h k v)"
  by (auto simp: header_ok_def hdr_set_def dom_update distinct_update)

lemma header_ok_del: "header_ok h \<Longrightarrow> header_ok (hdr_del h k)"
  unfolding header_ok_def hdr_del_def
  using dom_delete_subset [of "canon k" h] distinct_delete [of h "canon k"] by blast

section \<open>Requests\<close>

text \<open>
  A body as the connection delivers it: the bytes that arrive, and how the stream ends.
\<close>

datatype read_end = Eof | DeadlineExceeded | ReadFailed

record body_stream =
  arriving :: string
  ending :: read_end

text \<open>
  \<open>ctx_label\<close> is the label \<open>auth\<close> put into the context (empty when it did not),
  \<open>ctx_info\<close> whether the access log's \<open>RequestInfo\<close> holder is there. \<open>ctx_gone\<close> is whether the
  context is cancelled, the client gone, when the reverse proxy itself gives up a forward: that
  happens at most once for a request, so one value is enough.
\<close>

record request =
  req_method :: string
  req_url :: url
  req_header :: header
  req_host :: string
  remote_addr :: string
  req_body :: "body_stream option"
  content_length :: int
  ctx_label :: string
  ctx_info :: bool
  ctx_gone :: bool

section \<open>Cookies\<close>

definition cookie_ws :: "char \<Rightarrow> bool" where
  "cookie_ws c \<longleftrightarrow> c = CHR '' '' \<or> c = CHR 0x09 \<or> c = CHR 0x0A \<or> c = CHR 0x0D"

text \<open>\<open>textproto.TrimString\<close>.\<close>

definition trim_string :: "string \<Rightarrow> string" where
  "trim_string s = rev (dropWhile cookie_ws (rev (dropWhile cookie_ws s)))"

definition cookie_value_byte :: "char \<Rightarrow> bool" where
  "cookie_value_byte c \<longleftrightarrow> CHR 0x20 \<le> c \<and> c < CHR 0x7F \<and> c \<noteq> CHR 0x22 \<and> c \<noteq> CHR '';'' \<and> c \<noteq> CHR 0x5C"

definition parse_cookie_value :: "string \<Rightarrow> string option" where
  "parse_cookie_value raw =
     (let v = (if 1 < length raw \<and> hd raw = CHR 0x22 \<and> last raw = CHR 0x22 then butlast (tl raw) else raw)
      in if list_all cookie_value_byte v then Some v else None)"

text \<open>One \<open>;\<close>-separated part of a Cookie line, read with a name filter.\<close>

definition cookie_part :: "string \<Rightarrow> string \<Rightarrow> string option" where
  "cookie_part name part =
     (case cut (trim_string part) CHR ''='' of (n, v, _) \<Rightarrow>
        if trim_string part = [] \<or> trim_string n = [] \<or> \<not> list_all token_char (trim_string n)
           \<or> trim_string n \<noteq> name then None
        else parse_cookie_value v)"

text \<open>\<open>r.Cookie(name)\<close>: the first parsable cookie of that name, over all Cookie lines.\<close>

definition req_cookie :: "header \<Rightarrow> string \<Rightarrow> string option" where
  "req_cookie h name =
     (case List.map_filter (cookie_part name)
             (concat (map (\<lambda>line. split_on CHR '';'' (trim_string line)) (hdr_values h ''Cookie''))) of
        [] \<Rightarrow> None
      | v # _ \<Rightarrow> Some v)"

record cookie =
  c_name :: string
  c_value :: string
  c_path :: string
  c_http_only :: bool
  c_secure :: bool
  c_same_site_lax :: bool
  c_expires :: time

text \<open>A cookie with a plain value, sent alone, is read back.\<close>

lemma trim_string_id:
  assumes "s \<noteq> [] \<Longrightarrow> \<not> cookie_ws (hd s) \<and> \<not> cookie_ws (last s)"
  shows "trim_string s = s"
proof (cases "s = []")
  case False
  with assms have "\<not> cookie_ws (hd s)" "\<not> cookie_ws (hd (rev s))" by (auto simp: hd_rev)
  with False show ?thesis
    by (simp add: trim_string_def dropWhile_eq_self_iff [THEN iffD2])
qed (simp add: trim_string_def)

section \<open>Responses\<close>

text \<open>
  A body is the error envelope before its JSON encoding, a fixed page, or the bytes a node sent.
\<close>

datatype body =
    ErrorBody (err_message: string) (err_type: string) (err_code: string)
  | Page string
  | NodeBytes string
  | EmptyBody

record response =
  status :: int
  r_header :: header
  set_cookies :: "cookie list"
  r_body :: body

definition status_switching :: int where "status_switching = 101"
definition status_ok :: int where "status_ok = 200"
definition status_see_other :: int where "status_see_other = 303"
definition status_bad_request :: int where "status_bad_request = 400"
definition status_unauthorized :: int where "status_unauthorized = 401"
definition status_forbidden :: int where "status_forbidden = 403"
definition status_request_timeout :: int where "status_request_timeout = 408"
definition status_too_large :: int where "status_too_large = 413"
definition status_too_many_requests :: int where "status_too_many_requests = 429"
definition status_bad_gateway :: int where "status_bad_gateway = 502"
definition status_unavailable :: int where "status_unavailable = 503"

lemmas status_defs = status_switching_def status_ok_def status_see_other_def status_bad_request_def
  status_unauthorized_def status_forbidden_def status_request_timeout_def status_too_large_def
  status_too_many_requests_def status_bad_gateway_def status_unavailable_def

text \<open>
  \<open>auth.WriteError\<close> (internal/auth/errors.go): the OpenAI-shaped error, on top of the headers
  already set on the writer.
\<close>

definition write_error :: "header \<Rightarrow> int \<Rightarrow> string \<Rightarrow> string \<Rightarrow> response" where
  "write_error h st msg code =
     \<lparr>status = st, r_header = hdr_set h ''Content-Type'' ''application/json'', set_cookies = [],
      r_body = ErrorBody msg ''invalid_request_error'' code\<rparr>"

end
