(* ===== verification/GoRedirect.thy ===== *)
theory GoRedirect
  imports GoPath NetAddr Http
begin

text \<open>
  \<open>http.Redirect\<close>, which does more than set a header: it asks \<open>url.Parse\<close> whether the
  target is relative, and then makes its path absolute and cleans it; the location is written with
  non-ASCII bytes escaped, and a GET gets a small page.
\<close>

section \<open>Is the target relative?\<close>

text \<open>\<open>getScheme\<close>: the scheme and the rest, or \<open>None\<close> for a missing scheme.\<close>

definition is_alpha :: "char \<Rightarrow> bool" where
  "is_alpha c \<longleftrightarrow> in_range (CHR ''a'') (CHR ''z'') c \<or> in_range (CHR ''A'') (CHR ''Z'') c"

fun scheme_from :: "string \<Rightarrow> string \<Rightarrow> string \<Rightarrow> (string \<times> string) option" where
  "scheme_from raw pre [] = Some ([], raw)"
| "scheme_from raw pre (c # s) =
     (if is_alpha c then scheme_from raw (pre @ [c]) s
      else if is_alnum c \<or> c \<in> set ''+-.'' then (if pre = [] then Some ([], raw) else scheme_from raw (pre @ [c]) s)
      else if c = CHR '':'' then (if pre = [] then None else Some (pre, s))
      else Some ([], raw))"

definition get_scheme :: "string \<Rightarrow> (string \<times> string) option" where
  "get_scheme raw = scheme_from raw [] raw"

definition control_byte :: "char \<Rightarrow> bool" where
  "control_byte c \<longleftrightarrow> (of_char c :: nat) < 32 \<or> c = CHR 0x7F"

text \<open>
  An authority has no host if nothing follows its last \<open>@\<close>; then the parse depends on the user
  information before it. With a host, the target is not relative, whether the host is well formed
  or not.
\<close>

definition valid_userinfo :: "string \<Rightarrow> bool" where
  "valid_userinfo s \<longleftrightarrow>
     list_all (\<lambda>c. is_alnum c \<or> c \<in> set ''-._:~!$&()*+,;=%@'' \<or> c = CHR 0x27) s \<and> unescape EncodePath s \<noteq> None"

definition hostless :: "string \<Rightarrow> bool" where
  "hostless authority \<longleftrightarrow>
     (case last_index CHR ''@'' authority of
        None \<Rightarrow> authority = []
      | Some i \<Rightarrow> drop (i + 1) authority = [] \<and> valid_userinfo (take i authority))"

text \<open>\<open>url.Parse\<close> succeeds, with neither a scheme nor a host.\<close>

definition relative_target :: "string \<Rightarrow> bool" where
  "relative_target target \<longleftrightarrow>
     (case cut target CHR ''#'' of (raw, frag, _) \<Rightarrow>
        unescape EncodePath frag \<noteq> None \<and> \<not> list_ex control_byte raw \<and>
        (raw = ''*'' \<or>
         (case get_scheme raw of
            None \<Rightarrow> False
          | Some (sch, rest) \<Rightarrow>
              (let rest = fst (cut rest CHR ''?'')
               in sch = [] \<and>
                  (if has_prefix rest ''//'' \<and> \<not> has_prefix rest ''///'' then
                     (let authority = takeWhile (\<lambda>c. c \<noteq> CHR ''/'') (drop 2 rest)
                      in hostless authority \<and> unescape EncodePath (drop (2 + length authority) rest) \<noteq> None)
                   else
                     (has_prefix rest ''/'' \<or> CHR '':'' \<notin> set (takeWhile (\<lambda>c. c \<noteq> CHR ''/'') rest)) \<and>
                     unescape EncodePath rest \<noteq> None)))))"

section \<open>Redirect\<close>

definition path_dir :: "string \<Rightarrow> string" where
  "path_dir p = (case last_index CHR ''/'' p of None \<Rightarrow> [] | Some i \<Rightarrow> take (i + 1) p)"

definition clean_keeping_slash :: "string \<Rightarrow> string" where
  "clean_keeping_slash p =
     (let c = path_clean p in if has_suffix p ''/'' \<and> \<not> has_suffix c ''/'' then c @ ''/'' else c)"

definition redirect_target :: "string \<Rightarrow> string \<Rightarrow> string" where
  "redirect_target oldpath target =
     (if relative_target target then
        (let oldpath = (if oldpath = [] then ''/'' else oldpath);
             target = (if has_prefix target ''/'' then target else path_dir oldpath @ target)
         in case cut target CHR ''?'' of
              (p, q, found) \<Rightarrow> clean_keeping_slash p @ (if found then CHR ''?'' # q else []))
      else target)"

definition lower_hex :: string where
  "lower_hex = ''0123456789abcdef''"

definition hex_escape_char :: "char \<Rightarrow> string" where
  "hex_escape_char c =
     (if (of_char c :: nat) < 128 then [c]
      else [CHR ''%'', lower_hex ! (of_char c div 16), lower_hex ! (of_char c mod 16)])"

definition hex_escape_non_ascii :: "string \<Rightarrow> string" where
  "hex_escape_non_ascii s = concat (map hex_escape_char s)"

definition html_escape_char :: "char \<Rightarrow> string" where
  "html_escape_char c =
     (if c = CHR ''&'' then ''&amp;'' else if c = CHR ''<'' then ''&lt;'' else if c = CHR ''>'' then ''&gt;''
      else if c = CHR 0x22 then ''&#34;'' else if c = CHR 0x27 then ''&#39;'' else [c])"

definition html_escape :: "string \<Rightarrow> string" where
  "html_escape s = concat (map html_escape_char s)"

definition see_other_page :: "string \<Rightarrow> string" where
  "see_other_page target =
     ''<a href='' @ [CHR 0x22] @ html_escape target @ [CHR 0x22] @ ''>See Other</a>.'' @ [CHR 0x0A, CHR 0x0A]"

text \<open>\<open>Redirect\<close> with 303 on a writer with no headers but the cookies.\<close>

definition see_other :: "request \<Rightarrow> string \<Rightarrow> cookie list \<Rightarrow> response" where
  "see_other r target cookies =
     (let target = redirect_target (path (req_url r)) target;
          h = hdr_set [] ''Location'' (hex_escape_non_ascii target)
      in \<lparr>status = status_see_other,
          r_header = (if req_method r = ''GET'' \<or> req_method r = ''HEAD''
                      then hdr_set h ''Content-Type'' ''text/html; charset=utf-8'' else h),
          set_cookies = cookies,
          r_body = (if req_method r = ''GET'' then Page (see_other_page target) else EmptyBody)\<rparr>)"

lemma see_other_simps [simp]:
  "status (see_other r t cs) = status_see_other"
  "set_cookies (see_other r t cs) = cs"
  by (simp_all add: see_other_def Let_def)

lemma see_other_location:
  "hdr_get (r_header (see_other r t cs)) ''Location'' = hex_escape_non_ascii (redirect_target (path (req_url r)) t)"
proof -
  have c: "canon ''Location'' = ''Location''" "canon ''Content-Type'' = ''Content-Type''" by code_simp+
  show ?thesis
    by (simp add: see_other_def Let_def hdr_get_def hdr_values_def hdr_set_def c)
qed

section \<open>An absolute path stays one\<close>

lemma path_clean_origin:
  assumes "has_prefix p ''/''"
  shows "has_prefix (path_clean p) ''/'' \<and> \<not> has_prefix (path_clean p) ''//''"
proof -
  obtain s where p: "p = CHR ''/'' # s" using assms by (cases p) auto
  show ?thesis
  proof (cases "resolve p")
    case Nil
    then show ?thesis by (simp add: p path_clean_rooted)
  next
    case (Cons e es)
    with resolve_ok [of p] have "e \<noteq> []" "CHR ''/'' \<notin> set e" by (auto simp: elem_ok_def)
    then have "\<exists>x t. join ''/'' (e # es) = x # t \<and> x \<noteq> CHR ''/''"
      by (cases e; cases es) auto
    then show ?thesis using Cons by (auto simp: p path_clean_rooted)
  qed
qed

lemma clean_keeping_origin:
  assumes "has_prefix p ''/''"
  shows "has_prefix (clean_keeping_slash p) ''/'' \<and> \<not> has_prefix (clean_keeping_slash p) ''//''"
proof -
  obtain s where s: "path_clean p = CHR ''/'' # s" "\<not> has_prefix s ''/''"
    using path_clean_origin [OF assms] by (cases "path_clean p") auto
  have "s = [] \<Longrightarrow> has_suffix (path_clean p) ''/''" using s by (simp add: has_suffix_def)
  with s show ?thesis by (cases s) (auto simp: clean_keeping_slash_def Let_def)
qed

text \<open>Cleaning adds no character but dots and slashes.\<close>

lemma split_on_chars: "e \<in> set (split_on c s) \<Longrightarrow> set e \<subseteq> set s"
proof (induction s arbitrary: e)
  case (Cons x s)
  show ?case
  proof (cases "x = c")
    case True
    with Cons show ?thesis by fastforce
  next
    case False
    obtain y ys where y: "split_on c s = y # ys" by (cases "split_on c s") simp_all
    have "e = x # y \<or> e \<in> set (split_on c s)" using Cons.prems False y by auto
    with Cons.IH y show ?thesis by fastforce
  qed
qed simp

lemma clean_step_set: "set (clean_step b st seg) \<subseteq> insert seg (insert ''..'' (set st))"
  by (cases st) (auto simp: clean_step_def)

lemma clean_fold_set: "set (foldl (clean_step b) st segs) \<subseteq> set segs \<union> insert ''..'' (set st)"
proof (induction segs arbitrary: st)
  case (Cons a segs)
  from Cons [of "clean_step b st a"] clean_step_set [of b st a] show ?case by auto
qed auto

lemma join_chars: "set (join ''/'' es) \<subseteq> insert CHR ''/'' (\<Union> (set ` set es))"
  by (induction "''/''" es rule: join.induct) auto

lemma path_clean_chars: "set (path_clean p) \<subseteq> set p \<union> {CHR ''.'', CHR ''/''}"
proof -
  have e: "set e \<subseteq> set p \<union> {CHR ''.'', CHR ''/''}" if "e \<in> set (clean_elems b (split_on CHR ''/'' p))" for e b
  proof -
    have "e \<in> set (split_on CHR ''/'' p) \<or> e = ''..''"
      using that clean_fold_set [of b "[]" "split_on CHR ''/'' p"] by (auto simp: clean_elems_def)
    then show ?thesis using split_on_chars [of e "CHR ''/''" p] by auto
  qed
  have "set (join ''/'' (clean_elems b (split_on CHR ''/'' p))) \<subseteq> set p \<union> {CHR ''.'', CHR ''/''}" for b
    using join_chars [of "clean_elems b (split_on CHR ''/'' p)"] e [of _ b] by blast
  then show ?thesis by (auto simp: path_clean_def Let_def)
qed

lemma clean_keeping_chars: "set (clean_keeping_slash p) \<subseteq> set p \<union> {CHR ''.'', CHR ''/''}"
  using path_clean_chars [of p] by (auto simp: clean_keeping_slash_def Let_def)

text \<open>The escaped location starts alike and splits at the same question mark.\<close>

lemma hex_escape_ascii: "list_all (\<lambda>c. (of_char c :: nat) < 128) s \<Longrightarrow> hex_escape_non_ascii s = s"
  by (induction s) (simp_all add: hex_escape_non_ascii_def hex_escape_char_def)

lemma hex_escape_append: "hex_escape_non_ascii (a @ b) = hex_escape_non_ascii a @ hex_escape_non_ascii b"
  by (simp add: hex_escape_non_ascii_def)

lemma hex_escape_Cons:
  "(of_char c :: nat) < 128 \<Longrightarrow> hex_escape_non_ascii (c # s) = c # hex_escape_non_ascii s"
  by (simp add: hex_escape_non_ascii_def hex_escape_char_def)

lemma lower_hex_chars: "n < 16 \<Longrightarrow> lower_hex ! n \<notin> set ''/?''"
proof -
  assume "n < 16"
  then have "lower_hex ! n \<in> set lower_hex" by (intro nth_mem) (simp add: lower_hex_def)
  then show ?thesis by (auto simp: lower_hex_def)
qed

lemma hex_escape_char_new:
  assumes "x \<in> set (hex_escape_char c)" "x \<in> set ''/?''"
  shows "x = c"
proof -
  have d: "(of_char c div 16 :: nat) < 16" using of_char_less_256 [of c] by (simp add: div_less_iff_less_mult)
  have m: "(of_char c mod 16 :: nat) < 16" by simp
  from assms lower_hex_chars [OF d] lower_hex_chars [OF m] show ?thesis
    by (auto simp: hex_escape_char_def split: if_splits)
qed

lemma hex_escape_no_question: "CHR ''?'' \<notin> set s \<Longrightarrow> CHR ''?'' \<notin> set (hex_escape_non_ascii s)"
  using hex_escape_char_new by (fastforce simp: hex_escape_non_ascii_def)

lemma hex_escape_origin:
  assumes "has_prefix s ''/'' \<and> \<not> has_prefix s ''//''"
  shows "has_prefix (hex_escape_non_ascii s) ''/'' \<and> \<not> has_prefix (hex_escape_non_ascii s) ''//''"
proof -
  obtain t where t: "s = CHR ''/'' # t" "\<not> has_prefix t ''/''" using assms by (cases s) auto
  have "\<not> has_prefix (hex_escape_non_ascii t) ''/''"
  proof (cases t)
    case Nil
    then show ?thesis by (simp add: hex_escape_non_ascii_def)
  next
    case (Cons c u)
    then have "c \<noteq> CHR ''/''" using t by simp
    moreover have "hex_escape_char c \<noteq> []" by (simp add: hex_escape_char_def)
    ultimately show ?thesis
      using hex_escape_char_new [of "hd (hex_escape_char c)" c] Cons
      by (cases "hex_escape_char c") (auto simp: hex_escape_non_ascii_def)
  qed
  then show ?thesis using t by (simp add: hex_escape_Cons)
qed

text \<open>
  What a same-origin target becomes: a path on this origin and the same query.
\<close>

lemma redirect_same_origin:
  assumes "has_prefix target ''/'' \<and> \<not> has_prefix target ''//''"
  shows "has_prefix (redirect_target oldpath target) ''/'' \<and> \<not> has_prefix (redirect_target oldpath target) ''//'' \<and>
     snd (cut (redirect_target oldpath target) CHR ''?'') = snd (cut target CHR ''?'')"
proof (cases "relative_target target")
  case False
  with assms show ?thesis by (simp add: redirect_target_def)
next
  case True
  obtain p q found where c: "cut target CHR ''?'' = (p, q, found)" by (metis prod_cases3)
  have p: "p = takeWhile (\<lambda>x. x \<noteq> CHR ''?'') target" using c by (simp add: cut_def)
  have pp: "has_prefix p ''/''" using assms by (cases target) (auto simp: p)
  have nq: "CHR ''?'' \<notin> set (clean_keeping_slash p)"
    using clean_keeping_chars [of p] by (auto simp: p dest: set_takeWhileD)
  have t: "redirect_target oldpath target = clean_keeping_slash p @ (if found then CHR ''?'' # q else [])"
    using assms True by (simp add: redirect_target_def c Let_def)
  have o1: "has_prefix (redirect_target oldpath target) ''/'' \<and> \<not> has_prefix (redirect_target oldpath target) ''//''"
    unfolding t using clean_keeping_origin [OF pp]
    by (cases "clean_keeping_slash p"; cases "tl (clean_keeping_slash p)") auto
  have nf: "\<not> found \<Longrightarrow> q = []"
    using c cut_flag [OF c] cut_not_found [of "CHR ''?''" target] by simp
  then have "snd (cut (redirect_target oldpath target) CHR ''?'') = (q, found)"
    unfolding t using cut_found [OF nq, of q] cut_not_found [OF nq] by auto
  with o1 c show ?thesis by simp
qed

end
