(* ===== verification/ClientIp.thy ===== *)
theory ClientIp
  imports Http NetAddr
begin

text \<open>
  internal/clientip/clientip.go: the address a request is attributed to in both log streams.
  The proxy in front appends the peer it saw to X-Forwarded-For, so only the rightmost entry is
  its own word.
\<close>

text \<open>The loop from the last entry down to the first non-empty one.\<close>

fun rightmost :: "string list \<Rightarrow> string option" where
  "rightmost [] = None"
| "rightmost (e # es) = (if trim_space e \<noteq> [] then Some (trim_space e) else rightmost es)"

definition host_or_all :: "string \<Rightarrow> string" where
  "host_or_all a = (case split_host_port a of Some (host, _) \<Rightarrow> host | None \<Rightarrow> a)"

definition client_ip :: "request \<Rightarrow> string" where
  "client_ip r =
     (let fwd = join '','' (hdr_values (req_header r) ''X-Forwarded-For'')
      in case (if fwd \<noteq> [] then rightmost (rev (split_on CHR '','' fwd)) else None) of
           Some ip \<Rightarrow> host_or_all ip
         | None \<Rightarrow> host_or_all (remote_addr r))"

text \<open>
  Whatever lines and entries the client put first, the last entry of the last line decides.
\<close>

lemma last_entry_decides:
  assumes "hdr_values (req_header r) ''X-Forwarded-For'' = claimed @ [line]"
    and "last (split_on CHR '','' line) = peer" and "trim_space peer \<noteq> []"
  shows "client_ip r = host_or_all (trim_space peer)"
proof -
  let ?fwd = "join '','' (claimed @ [line])"
  obtain es where es: "split_on CHR '','' line = es @ [peer]"
    using assms(2) by (metis append_butlast_last_id split_on_not_Nil)
  have "\<exists>ds. split_on CHR '','' ?fwd = ds @ [peer]"
    using es by (cases "claimed = []") (auto simp: join_snoc split_on_snoc)
  then obtain ds where ds: "split_on CHR '','' ?fwd = ds @ [peer]" by blast
  have "?fwd \<noteq> []"
  proof
    assume e: "?fwd = []"
    with ds have "ds @ [peer] = [[]]" by simp
    then have "peer = []" by (cases ds) auto
    with assms(3) show False by simp
  qed
  with ds assms(1,3) show ?thesis by (simp add: client_ip_def)
qed

lemma no_forwarded_header:
  "hdr_values (req_header r) ''X-Forwarded-For'' = [] \<Longrightarrow> client_ip r = host_or_all (remote_addr r)"
  by (simp add: client_ip_def)

lemma host_or_all_plain:
  assumes "set host \<inter> set '':[]'' = {}" and "set port \<inter> set '':[]'' = {}"
  shows "host_or_all (host @ '':'' @ port) = host"
  using split_plain [OF assms] by (simp add: host_or_all_def)

end
