(* ===== verification/Auth.thy ===== *)
theory Auth
  imports Token GoRedirect ClientIp
begin

text \<open>
  internal/auth/middleware.go: every request is authenticated by a bearer key, the session cookie
  or the one-time \<open>?key=\<close> parameter; what goes on carries the key's label and no credential.
\<close>

definition cookie_name :: string where "cookie_name = ''viiwork_gw''"

definition query_param :: string where "query_param = ''key''"

record middleware =
  mw_keys :: key_set
  mw_ttl :: duration

text \<open>The one log line of a rejection.\<close>

record reject_log =
  log_method :: string
  log_path :: string
  log_remote :: string
  log_reason :: string

datatype auth_outcome =
    Forwarded request
  | Redirected response
  | Rejected response reject_log

section \<open>Context\<close>

definition label_from_context :: "request \<Rightarrow> string" where
  "label_from_context r = ctx_label r"

definition context_with_label :: "request \<Rightarrow> string \<Rightarrow> request" where
  "context_with_label r label = r\<lparr>ctx_label := label\<rparr>"

section \<open>Credentials out of the request\<close>

definition url_query :: "url \<Rightarrow> url_values" where
  "url_query u = parse_query (raw_query u)"

definition strip_credentials :: "request \<Rightarrow> string \<Rightarrow> request" where
  "strip_credentials r label =
     (let out = context_with_label r label;
          out = out\<lparr>req_header := hdr_del (hdr_del (req_header out) ''Authorization'') ''Cookie''\<rparr>;
          q = url_query (req_url out)
      in if values_has q query_param
         then out\<lparr>req_url := (req_url out)\<lparr>raw_query := values_encode (values_del q query_param)\<rparr>\<rparr>
         else out)"

fun fold_slashes :: "string \<Rightarrow> string" where
  "fold_slashes (CHR ''/'' # CHR ''/'' # p) = fold_slashes (CHR ''/'' # p)"
| "fold_slashes p = p"

definition clean_url :: "url \<Rightarrow> string" where
  "clean_url u =
     (let q = values_del (url_query u) query_param;
          u = u\<lparr>raw_query := values_encode q\<rparr>;
          p = (if path u = [] then ''/'' else path u)
      in request_uri (u\<lparr>path := fold_slashes p\<rparr>))"

section \<open>Rejection\<close>

definition wants_html :: "request \<Rightarrow> bool" where
  "wants_html r \<longleftrightarrow>
     hdr_get (req_header r) ''Authorization'' = [] \<and> contains (hdr_get (req_header r) ''Accept'') ''text/html''"

definition nl :: string where "nl = [CHR 0x0A]"

definition unauthorized_html :: string where
  "unauthorized_html =
     ''<!doctype html>'' @ nl @
     ''<title>viiwork-gateway</title>'' @ nl @
     ''<style>body{font:16px system-ui;margin:4rem auto;max-width:34rem;padding:0 1rem}code{background:#eee;padding:.15em .4em;border-radius:3px}</style>'' @ nl @
     ''<h1>Authentication required</h1>'' @ nl @
     ''<p>Append your API key once and the browser will be issued a session cookie:</p>'' @ nl @
     ''<p><code>?key=YOUR_API_KEY</code></p>'' @ nl @
     ''<p>API clients should send <code>Authorization: Bearer YOUR_API_KEY</code> instead.</p>'' @ nl"

definition reject :: "request \<Rightarrow> string \<Rightarrow> auth_outcome" where
  "reject r reason =
     Rejected
       (if wants_html r then
          \<lparr>status = status_unauthorized, r_header = hdr_set [] ''Content-Type'' ''text/html; charset=utf-8'',
           set_cookies = [], r_body = Page unauthorized_html\<rparr>
        else write_error [] status_unauthorized ''invalid API key'' ''invalid_api_key'')
       \<lparr>log_method = req_method r, log_path = path (req_url r), log_remote = client_ip r,
        log_reason = reason\<rparr>"

section \<open>Wrap\<close>

definition bearer_secret :: "string \<Rightarrow> string" where
  "bearer_secret raw =
     (case cut_prefix raw ''Bearer '' of (secret, ok) \<Rightarrow>
        trim_space (if ok then secret else fst (cut_prefix raw ''bearer '')))"

definition session_cookie :: "string \<Rightarrow> time \<Rightarrow> cookie" where
  "session_cookie value expires =
     \<lparr>c_name = cookie_name, c_value = value, c_path = ''/'', c_http_only = True, c_secure = True,
      c_same_site_lax = True, c_expires = expires\<rparr>"

definition forward :: "request \<Rightarrow> string \<Rightarrow> auth_outcome" where
  [simp]: "forward r label = Forwarded (strip_credentials r label)"

text \<open>
  \<open>Middleware.Wrap\<close>. The clock is read up to three times: \<open>t1\<close> for verifying a cookie,
  \<open>t2\<close> for the token minted and \<open>t3\<close> for the cookie's expiry attribute.
\<close>

definition wrap :: "middleware \<Rightarrow> time \<Rightarrow> time \<Rightarrow> time \<Rightarrow> request \<Rightarrow> auth_outcome" where
  "wrap m t1 t2 t3 r =
     (let raw = hdr_get (req_header r) ''Authorization''
      in if raw \<noteq> [] then
           (case keys_lookup (mw_keys m) (bearer_secret raw) of
              Some label \<Rightarrow> forward r label
            | None \<Rightarrow> reject r ''invalid bearer'')
         else
           (let cookie = req_cookie (req_header r) cookie_name;
                checked = (case cookie of None \<Rightarrow> None
                           | Some c \<Rightarrow> verify c (keys_secret (mw_keys m)) t1)
            in case checked of
                 Some label \<Rightarrow> forward r label
               | None \<Rightarrow>
                   (let reason = (if cookie \<noteq> None then ''invalid cookie'' else ''no credential presented'');
                        secret = values_get (url_query (req_url r)) query_param
                    in if secret = [] then reject r reason
                       else
                         (case keys_lookup (mw_keys m) secret of
                            None \<Rightarrow> reject r ''invalid key''
                          | Some label \<Rightarrow>
                              (let key_secret = (case keys_secret (mw_keys m) label of None \<Rightarrow> [] | Some v \<Rightarrow> v)
                               in Redirected
                                    (see_other r (clean_url (req_url r))
                                       [session_cookie (mint label key_secret (t2 + mw_ttl m)) (t3 + mw_ttl m)]))))))"

section \<open>What is forwarded\<close>

lemma strip_label: "ctx_label (strip_credentials r l) = l"
  by (simp add: strip_credentials_def context_with_label_def Let_def)

lemma strip_header:
  "req_header (strip_credentials r l) = hdr_del (hdr_del (req_header r) ''Authorization'') ''Cookie''"
  by (simp add: strip_credentials_def context_with_label_def Let_def)

lemma strip_no_key: "\<not> values_has (url_query (req_url (strip_credentials r l))) query_param"
  using has_parse_encode_del
  by (auto simp: strip_credentials_def context_with_label_def Let_def url_query_def)

lemma strip_other_params:
  assumes "k \<noteq> query_param"
  shows "vals (url_query (req_url (strip_credentials r l))) k = vals (url_query (req_url r)) k"
proof -
  let ?q = "url_query (req_url r)"
  have d: "distinct (map fst (values_del ?q query_param))"
    by (simp add: values_del_def url_query_def parse_query_distinct distinct_delete)
  have "vals (values_del ?q query_param) k = vals ?q k"
    using assms by (simp add: vals_def values_del_def)
  with vals_parse_encode [OF d, of k] show ?thesis
    by (simp add: strip_credentials_def context_with_label_def Let_def url_query_def)
qed

lemma strip_other_headers:
  assumes "canon k \<noteq> canon ''Authorization''" and "canon k \<noteq> canon ''Cookie''"
  shows "hdr_values (req_header (strip_credentials r l)) k = hdr_values (req_header r) k"
  using assms by (simp add: strip_header hdr_values_del)

lemma strip_rest:
  "req_method (strip_credentials r l) = req_method r"
  "path (req_url (strip_credentials r l)) = path (req_url r)"
  "raw_path (req_url (strip_credentials r l)) = raw_path (req_url r)"
  "req_body (strip_credentials r l) = req_body r"
  "remote_addr (strip_credentials r l) = remote_addr r"
  by (simp_all add: strip_credentials_def context_with_label_def Let_def)

text \<open>The credentials a request can present, and the label each stands for.\<close>

definition presents_bearer :: "middleware \<Rightarrow> request \<Rightarrow> string \<Rightarrow> bool" where
  "presents_bearer m r l \<longleftrightarrow>
     hdr_get (req_header r) ''Authorization'' \<noteq> [] \<and>
     keys_secret (mw_keys m) l = Some (bearer_secret (hdr_get (req_header r) ''Authorization''))"

definition presents_cookie :: "middleware \<Rightarrow> time \<Rightarrow> request \<Rightarrow> string \<Rightarrow> bool" where
  "presents_cookie m now r l \<longleftrightarrow>
     hdr_get (req_header r) ''Authorization'' = [] \<and>
     (\<exists>c. req_cookie (req_header r) cookie_name = Some c \<and> verify c (keys_secret (mw_keys m)) now = Some l)"

lemma wrap_forwarded_iff:
  assumes ok: "keys_ok (mw_keys m)"
  shows "wrap m t1 t2 t3 r = Forwarded out \<longleftrightarrow>
     (\<exists>l. (presents_bearer m r l \<or> presents_cookie m t1 r l) \<and> out = strip_credentials r l)"
  by (auto simp: wrap_def Let_def reject_def presents_bearer_def presents_cookie_def
      loaded_keys.lookup_iff [OF ok, symmetric] split: option.splits if_splits)

lemma wrap_total:
  "(\<exists>out. wrap m t1 t2 t3 r = Forwarded out) \<or> (\<exists>rs. wrap m t1 t2 t3 r = Redirected rs) \<or>
   (\<exists>reason. wrap m t1 t2 t3 r = reject r reason \<and>
      reason \<in> {''invalid bearer'', ''invalid cookie'', ''no credential presented'', ''invalid key''})"
  by (auto simp: wrap_def Let_def split: option.splits)

lemma wrap_redirected_iff:
  assumes ok: "keys_ok (mw_keys m)"
  shows "wrap m t1 t2 t3 r = Redirected rs \<longleftrightarrow>
     (hdr_get (req_header r) ''Authorization'' = [] \<and> (\<forall>l. \<not> presents_cookie m t1 r l) \<and>
      (\<exists>l k. k = values_get (url_query (req_url r)) query_param \<and> k \<noteq> [] \<and>
         keys_secret (mw_keys m) l = Some k \<and>
         rs = see_other r (clean_url (req_url r)) [session_cookie (mint l k (t2 + mw_ttl m)) (t3 + mw_ttl m)]))"
proof -
  let ?k = "values_get (url_query (req_url r)) query_param"
  have k: "keys_lookup (mw_keys m) ?k = Some l \<longleftrightarrow> keys_secret (mw_keys m) l = Some ?k" for l
    by (rule loaded_keys.lookup_iff [OF ok])
  show ?thesis
    by (auto simp: wrap_def Let_def reject_def presents_cookie_def k [symmetric] split: option.splits if_splits)
      (auto simp: k)
qed

section \<open>The redirect target\<close>

lemma fold_slashes_path:
  assumes "p \<noteq> []" and "hd p = CHR ''/''"
  shows "hd (fold_slashes p) = CHR ''/'' \<and> fold_slashes p \<noteq> [] \<and> \<not> has_prefix (fold_slashes p) ''//''"
  using assms
proof (induction p rule: fold_slashes.induct)
  case (1 p)
  then show ?case by simp
qed (auto simp: has_prefix_def)

lemma escape_slash: "escape EncodePath (CHR ''/'' # p) = CHR ''/'' # escape EncodePath p"
  by (simp add: escape_def escape_char_def should_escape_def is_alnum_def)

lemma escape_not_slash: "c \<noteq> CHR ''/'' \<Longrightarrow> hd (escape EncodePath (c # p)) \<noteq> CHR ''/''"
  by (auto simp: escape_def escape_char_def)

lemma escaped_path_same_origin:
  assumes p: "path u \<noteq> []" "hd (path u) = CHR ''/''" "\<not> has_prefix (path u) ''//''"
    and raw: "raw_path u = [] \<or> hd (raw_path u) = CHR ''/''"
  shows "has_prefix (escaped_path u) ''/'' \<and> \<not> has_prefix (escaped_path u) ''//''"
proof -
  obtain q where q: "path u = CHR ''/'' # q" using p by (cases "path u") auto
  have nq: "q = [] \<or> hd q \<noteq> CHR ''/''" using p(3) q by (cases q) auto
  show ?thesis
  proof (cases "raw_path u \<noteq> [] \<and> valid_encoded (raw_path u) \<and> unescape EncodePath (raw_path u) = Some (path u)")
    case True
    with raw obtain s where s: "raw_path u = CHR ''/'' # s" by (cases "raw_path u") auto
    with True q have "unescape EncodePath s = Some q" by simp
    with nq have "s = [] \<or> hd s \<noteq> CHR ''/''" by (cases s) auto
    moreover have "escaped_path u = CHR ''/'' # s" using True s by (simp add: escaped_path_def)
    ultimately show ?thesis by (cases s) auto
  next
    case False
    then have "escaped_path u = CHR ''/'' # escape EncodePath q"
      using q by (auto simp: escaped_path_def escape_slash)
    moreover have "\<not> has_prefix (escape EncodePath q) ''/''"
    proof (cases q)
      case Nil
      then show ?thesis by (simp add: escape_def has_prefix_def)
    next
      case (Cons c t)
      then have "c \<noteq> CHR ''/''" using nq by simp
      then show ?thesis using escape_not_slash [of c t] Cons
        by (cases "escape EncodePath (c # t)") auto
    qed
    ultimately show ?thesis by simp
  qed
qed

lemma prefix_append_query:
  "has_prefix e ''/'' \<Longrightarrow> \<not> has_prefix e ''//'' \<Longrightarrow> x \<noteq> [] \<longrightarrow> hd x = CHR ''?'' \<Longrightarrow>
   has_prefix (e @ x) ''/'' \<and> \<not> has_prefix (e @ x) ''//''"
  by (cases e; cases "tl e"; cases x) auto

text \<open>
  What the server's request-line parser yields for every request target but an opaque one: the
  path is empty or starts with a slash, and so does its raw spelling.
\<close>

definition hierarchical :: "url \<Rightarrow> bool" where
  "hierarchical u \<longleftrightarrow> opaque u = [] \<and> (path u = [] \<or> hd (path u) = CHR ''/'') \<and>
     (raw_path u = [] \<or> hd (raw_path u) = CHR ''/'')"

lemma clean_url_same_origin:
  assumes "hierarchical u"
  shows "has_prefix (clean_url u) ''/'' \<and> \<not> has_prefix (clean_url u) ''//''"
proof -
  define v where "v = u\<lparr>raw_query := values_encode (values_del (url_query u) query_param),
     path := fold_slashes (if path u = [] then ''/'' else path u)\<rparr>"
  have c: "clean_url u = request_uri v"
    by (simp add: clean_url_def Let_def v_def)
  have "hd (if path u = [] then ''/'' else path u) = CHR ''/''"
    using assms by (auto simp: hierarchical_def)
  from fold_slashes_path [OF _ this] have pv: "path v \<noteq> []" "hd (path v) = CHR ''/''" "\<not> has_prefix (path v) ''//''"
    by (auto simp: v_def)
  have "raw_path v = [] \<or> hd (raw_path v) = CHR ''/''" "opaque v = []"
    using assms by (auto simp: v_def hierarchical_def)
  from escaped_path_same_origin [OF pv this(1)] this(2)
  have e: "has_prefix (escaped_path v) ''/''" "\<not> has_prefix (escaped_path v) ''//''" "opaque v = []" by auto
  then have "escaped_path v \<noteq> []" by (auto simp: has_prefix_def)
  with prefix_append_query [OF e(1,2), of "''?'' @ raw_query v"] e show ?thesis
    by (auto simp: c request_uri_def Let_def)
qed

section \<open>The session cookie\<close>

lemma token_bytes:
  assumes "c \<in> set (mint l s e)"
  shows "cookie_value_byte c \<and> \<not> cookie_ws c \<and> c \<noteq> CHR '';''"
proof -
  have b: "cookie_value_byte c \<and> \<not> cookie_ws c \<and> c \<noteq> CHR '';''" if "c \<in> set (b64_encode raw_url_encoding x)" for x
  proof -
    have "c \<in> set (b64_common @ ''-_'')"
      using b64_encode_symbols [OF raw_url_ok, of x] that by (auto simp: raw_url_encoding_def)
    then show ?thesis
      by (auto simp: b64_common_def cookie_value_byte_def cookie_ws_def)
  qed
  have d: "is_digit c \<Longrightarrow> cookie_value_byte c \<and> \<not> cookie_ws c \<and> c \<noteq> CHR '';''"
    by (auto simp: is_digit_def cookie_value_byte_def cookie_ws_def less_eq_char_def less_char_def)
  have f: "cookie_value_byte c \<and> \<not> cookie_ws c \<and> c \<noteq> CHR '';''" if "c \<in> set (format_int n)" for n
    using that d show_nat_props [of "nat n"] show_nat_props [of "nat (- n)"]
    by (auto simp: format_int_def list_all_iff cookie_value_byte_def cookie_ws_def split: if_splits)
  from assms b f show ?thesis
    by (auto simp: mint_def sign_def Let_def cookie_value_byte_def cookie_ws_def)
qed

lemma mint_ne: "mint l s e \<noteq> []"
  by (simp add: mint_def Let_def)

lemma session_cookie_read_back:
  assumes "hdr_values h ''Cookie'' = [cookie_name @ ''='' @ mint l s e]"
  shows "req_cookie h cookie_name = Some (mint l s e)"
proof -
  let ?t = "mint l s e"
  let ?line = "cookie_name @ ''='' @ ?t"
  have plain: "\<not> cookie_ws (hd ?line)" "\<not> cookie_ws (last ?line)"
    using token_bytes [OF last_in_set [OF mint_ne [of l s e]]] mint_ne [of l s e]
    by (simp_all add: cookie_name_def cookie_ws_def)
  have tl: "trim_string ?line = ?line" by (rule trim_string_id) (use plain in auto)
  have "CHR '';'' \<notin> set ?line" using token_bytes [of "CHR '';''" l s e] by (auto simp: cookie_name_def)
  then have sp: "split_on CHR '';'' ?line = [?line]" by (rule split_on_absent)
  have c: "cut ?line CHR ''='' = (cookie_name, ?t, True)"
    using cut_found [of "CHR ''=''" cookie_name ?t] by (simp add: cookie_name_def)
  have n: "trim_string cookie_name = cookie_name" "list_all token_char cookie_name" "cookie_name \<noteq> []"
    by (simp_all add: cookie_name_def trim_string_def cookie_ws_def token_char_def is_alnum_def)
  have "hd ?t \<noteq> CHR 0x22"
    using token_bytes [OF hd_in_set [OF mint_ne [of l s e]]] by (auto simp: cookie_value_byte_def)
  moreover have "list_all cookie_value_byte ?t" using token_bytes by (simp add: list_all_iff)
  ultimately have v: "parse_cookie_value ?t = Some ?t" by (simp add: parse_cookie_value_def)
  have "cookie_part cookie_name ?line = Some ?t"
    unfolding cookie_part_def tl c using n v by simp
  with assms tl sp show ?thesis
    by (simp add: req_cookie_def map_filter_simps)
qed

end
