(* ===== verification/AuthSpec.thy ===== *)
theory AuthSpec
  imports Auth
begin

text \<open>
  The properties of authentication: what a loaded key set accepts, what a session token proves,
  which requests get through the middleware and what is left of them, and the attribution of a
  request to a client address.
\<close>

section \<open>What Load accepts\<close>

text \<open>The key variables of an environment: label and secret, in the order of the environment.\<close>

definition key_vars :: "string list \<Rightarrow> (string \<times> string) list" where
  "key_vars environ = List.map_filter (\<lambda>kv.
     if \<not> has_prefix kv env_prefix then None
     else (case cut kv CHR ''='' of (name, secret, ok) \<Rightarrow>
             if ok then Some (trim_prefix name env_prefix, secret) else None)) environ"

definition acceptable :: "(string \<times> string) list \<Rightarrow> bool" where
  "acceptable kvs \<longleftrightarrow> (\<forall>(l, k) \<in> set kvs. l \<noteq> [] \<and> min_key_length \<le> length k) \<and> distinct (map snd kvs)"

lemma key_vars_simps [simp]:
  "key_vars [] = []"
  "key_vars (kv # environ) =
     (if \<not> has_prefix kv env_prefix then key_vars environ
      else (case cut kv CHR ''='' of (name, secret, ok) \<Rightarrow>
              if ok then (trim_prefix name env_prefix, secret) # key_vars environ else key_vars environ))"
  by (simp_all add: key_vars_def map_filter_simps split: prod.split)

lemma load_loop_iff:
  "load_loop environ bl seen = Inr out \<longleftrightarrow>
     acceptable (key_vars environ) \<and> set (map snd (key_vars environ)) \<inter> dom (map_of seen) = {} \<and>
     out = foldl (\<lambda>bl (l, k). AList.update l k bl) bl (key_vars environ)"
proof (induction environ bl seen rule: load_loop.induct)
  case (1 bl seen)
  then show ?case by (auto simp: acceptable_def)
next
  case (2 kv environ bl seen)
  obtain name v ok where c: "cut kv CHR ''='' = (name, v, ok)" by (cases "cut kv CHR ''=''")
  let ?l = "trim_prefix name env_prefix"
  show ?case
  proof (cases "has_prefix kv env_prefix \<and> ok \<and> ?l \<noteq> [] \<and> min_key_length \<le> length v \<and> map_of seen v = None")
    case False
    then consider "\<not> has_prefix kv env_prefix" | "has_prefix kv env_prefix" "\<not> ok"
      | "has_prefix kv env_prefix" "ok" "?l = [] \<or> length v < min_key_length \<or> map_of seen v \<noteq> None"
      by (auto simp: not_le)
    then show ?thesis
    proof cases
      case 1
      then show ?thesis using "2.IH"(1) by simp
    next
      case 2
      then show ?thesis using "2.IH"(2) [OF _ c [symmetric] refl] c by simp
    next
      case 3
      then show ?thesis using c by (auto simp: acceptable_def Let_def split: option.split)
    qed
  next
    case True
    then have IH: "load_loop environ (AList.update ?l v bl) (AList.update v ?l seen) = Inr out \<longleftrightarrow>
        acceptable (key_vars environ) \<and>
        set (map snd (key_vars environ)) \<inter> dom (map_of (AList.update v ?l seen)) = {} \<and>
        out = foldl (\<lambda>bl (l, k). AList.update l k bl) (AList.update ?l v bl) (key_vars environ)"
      using "2.IH"(3) c by (simp add: not_less)
    have "dom (map_of (AList.update v ?l seen)) = insert v (dom (map_of seen))"
      by (simp add: alist_update_map)
    with True c IH show ?thesis by (auto simp: acceptable_def Let_def not_less)
  qed
qed

lemma fold_update_map: "map_of (foldl (\<lambda>bl (l, k). AList.update l k bl) bl kvs) = map_of (rev kvs @ bl)"
  by (induction kvs arbitrary: bl) (auto simp: alist_update_map fun_eq_iff map_add_def split: option.split)

lemma fold_update_ne: "foldl (\<lambda>bl (l, k). AList.update l k bl) bl kvs = [] \<longleftrightarrow> bl = [] \<and> kvs = []"
proof (induction kvs arbitrary: bl)
  case Nil
  then show ?case by simp
next
  case (Cons p kvs)
  obtain l k where "p = (l, k)" by (cases p)
  moreover have "AList.update l k bl \<noteq> []" by (cases bl) auto
  ultimately show ?case using Cons [of "AList.update l k bl"] by simp
qed

text \<open>C34: Load succeeds exactly on a safe environment. There is at least one key variable, every
  one has a label and a secret of at least 24 bytes, and no secret is used twice.\<close>

theorem load_iff:
  "(\<exists>s. keys_load environ = Inr s) \<longleftrightarrow> key_vars environ \<noteq> [] \<and> acceptable (key_vars environ)"
proof -
  let ?bl = "foldl (\<lambda>bl (l, k). AList.update l k bl) [] (key_vars environ)"
  have "(\<exists>s. keys_load environ = Inr s) \<longleftrightarrow> (\<exists>bl. load_loop environ [] [] = Inr bl \<and> bl \<noteq> [])"
    by (auto simp: keys_load_def result_iff)
  also have "\<dots> \<longleftrightarrow> acceptable (key_vars environ) \<and> ?bl \<noteq> []"
    by (simp add: load_loop_iff)
  also have "\<dots> \<longleftrightarrow> key_vars environ \<noteq> [] \<and> acceptable (key_vars environ)"
    unfolding fold_update_ne by blast
  finally show ?thesis .
qed

text \<open>A loaded set holds what the environment says. A label's secret is the one its last
  variable gives, nothing else is in the set, and the labels are listed in order.\<close>

theorem load_contents:
  assumes "keys_load environ = Inr s"
  shows "keys_secret s = map_of (rev (key_vars environ)) \<and> sorted (labels s) \<and> distinct (labels s) \<and>
     set (labels s) = fst ` set (key_vars environ) \<and> keys_len s = length (labels s)"
proof -
  obtain bl where bl: "bl = foldl (\<lambda>bl (l, k). AList.update l k bl) [] (key_vars environ)"
    and s: "s = \<lparr>by_label = bl, labels = sort (map fst bl)\<rparr>"
    using assms by (auto simp: keys_load_def result_iff load_loop_iff split: if_splits)
  have m: "keys_secret s = map_of (rev (key_vars environ))"
    unfolding s by (rule ext) (simp add: keys_secret_def bl fold_update_map)
  have "dom (map_of bl) = dom (map_of (rev (key_vars environ)))"
    by (simp add: bl fold_update_map)
  then have "fst ` set bl = fst ` set (key_vars environ)"
    by (simp only: dom_map_of_conv_image_fst) simp
  moreover have "distinct (map fst bl)"
    using keys_load_ok [OF assms] by (simp add: keys_ok_def s)
  ultimately show ?thesis using m by (simp add: s keys_len_def)
qed

definition sample_secret :: string where "sample_secret = ''0123456789abcdefghijklmnop''"

definition sample_environ :: "string list" where
  "sample_environ = [''HOME=/root'', ''VIIWORK_KEY_laptop='' @ sample_secret]"

definition sample_keys :: key_set where
  "sample_keys = \<lparr>by_label = [(''laptop'', sample_secret)], labels = [''laptop'']\<rparr>"

lemma sample_load: "keys_load sample_environ = Inr sample_keys"
  by (simp add: keys_load_def sample_environ_def sample_keys_def sample_secret_def
      env_prefix_def cut_def trim_prefix_def min_key_length_def)

theorem load_contents_witness: "keys_secret sample_keys ''laptop'' = Some sample_secret"
  using load_contents [OF sample_load]
  by (simp add: sample_environ_def sample_secret_def env_prefix_def cut_def trim_prefix_def)

text \<open>C33: the constant-time scan is an exact lookup. In a set that Load returned, a presented secret
  resolves to a label if and only if it is that label's secret; a prefix, an extension or the
  empty string resolves to none.\<close>

theorem lookup_exact:
  assumes "keys_load environ = Inr s"
  shows "keys_lookup s k = Some l \<longleftrightarrow> keys_secret s l = Some k"
  by (rule loaded_keys.lookup_iff [OF keys_load_ok [OF assms]])

theorem lookup_exact_witness:
  "keys_lookup sample_keys sample_secret = Some ''laptop'' \<and> keys_lookup sample_keys '''' = None"
proof -
  have n: "keys_lookup sample_keys '''' \<noteq> Some l" for l
    unfolding lookup_exact [OF sample_load] by (simp add: keys_secret_def sample_keys_def sample_secret_def)
  show ?thesis
    using n lookup_exact [OF sample_load, of sample_secret "''laptop''"]
    by (auto simp: keys_secret_def sample_keys_def)
qed

section \<open>Tokens\<close>

text \<open>C32: a minted token is accepted exactly until it expires. Whatever the label and the secret,
  Verify of a fresh token returns the label as long as the clock is before the expiry, cut to whole
  seconds, and nothing from then on.\<close>

theorem token_roundtrip:
  assumes "valid_time exp" and "secret_of label = Some secret"
  shows "verify (mint label secret exp) secret_of now =
     (if before now (exp div second * second) then Some label else None)"
  by (simp add: verify_mint [OF assms(1)] assms(2))

definition sample_exp :: time where "sample_exp = 63100000000 * second"

lemma sample_exp_valid: "valid_time sample_exp"
  by (simp add: valid_time_def sample_exp_def second_def in_int64_def min_int64_def max_int64_def)

theorem token_roundtrip_witness:
  "verify (mint ''laptop'' sample_secret sample_exp) (keys_secret sample_keys) (sample_exp - 1) = Some ''laptop'' \<and>
   verify (mint ''laptop'' sample_secret sample_exp) (keys_secret sample_keys) sample_exp = None"
proof -
  have k: "keys_secret sample_keys ''laptop'' = Some sample_secret"
    by (simp add: keys_secret_def sample_keys_def)
  show ?thesis
    unfolding token_roundtrip [of _ "keys_secret sample_keys", OF sample_exp_valid k]
    by (simp add: before_def sample_exp_def second_def)
qed

text \<open>C10: no token without the label's current secret. An accepted token has three fields, its last
  is the HMAC of the first two under the secret the label has now, so rotating or removing a key
  ends its sessions, and its expiry lies ahead.\<close>

theorem token_sound:
  "verify token secret_of now = Some label \<longleftrightarrow>
     (\<exists>enc exp_str secret exp.
        token = enc @ ''.'' @ exp_str @ ''.'' @ sign enc exp_str secret \<and>
        CHR ''.'' \<notin> set enc \<and> CHR ''.'' \<notin> set exp_str \<and>
        b64_decode raw_url_encoding enc = Some label \<and> secret_of label = Some secret \<and>
        parse_int exp_str = Some exp \<and> before now (time_unix exp))"
  by (rule verify_iff)

text \<open>The signature binds label and expiry together. The text signed for a label and an expiry is
  signed for no other label and no other second, so no field can be moved into the other.\<close>

theorem signed_text_binds:
  assumes "valid_time e1" and "valid_time e2"
  shows "b64_encode raw_url_encoding l1 @ ''.'' @ format_int (unix_of e1) =
         b64_encode raw_url_encoding l2 @ ''.'' @ format_int (unix_of e2) \<longleftrightarrow>
         l1 = l2 \<and> e1 div second = e2 div second"
proof
  assume "b64_encode raw_url_encoding l1 @ ''.'' @ format_int (unix_of e1) =
      b64_encode raw_url_encoding l2 @ ''.'' @ format_int (unix_of e2)"
  from signed_text_inj [OF b64_url_no_dot b64_url_no_dot this]
  have l: "b64_encode raw_url_encoding l1 = b64_encode raw_url_encoding l2"
    and x: "format_int (unix_of e1) = format_int (unix_of e2)" by simp_all
  have "l1 = l2" using b64_field.enc_inj [OF TrueI TrueI l] .
  moreover have "unix_of e1 = unix_of e2"
    by (rule int_field.enc_inj [OF _ _ x]) (simp_all add: unix_of_def wrap64_range)
  then have "e1 div second * second = e2 div second * second"
    using time_unix_unix_of [OF assms(1)] time_unix_unix_of [OF assms(2)] by metis
  then have "e1 div second = e2 div second" by (simp add: second_def)
  ultimately show "l1 = l2 \<and> e1 div second = e2 div second" ..
next
  assume "l1 = l2 \<and> e1 div second = e2 div second"
  then show "b64_encode raw_url_encoding l1 @ ''.'' @ format_int (unix_of e1) =
      b64_encode raw_url_encoding l2 @ ''.'' @ format_int (unix_of e2)" by (simp add: unix_of_def)
qed

theorem signed_text_binds_witness:
  "b64_encode raw_url_encoding ''ab'' @ ''.'' @ format_int (unix_of sample_exp) \<noteq>
   b64_encode raw_url_encoding ''a'' @ ''.'' @ format_int (unix_of sample_exp)"
  using signed_text_binds [OF sample_exp_valid sample_exp_valid, of "''ab''" "''a''"] by simp

section \<open>Requests\<close>

text \<open>C1: nothing gets through unauthenticated. A request is forwarded if and only if it presents a
  bearer key of the set or, with no Authorization header, a session cookie that verifies; what is
  forwarded carries that credential's label and has no Authorization header, no Cookie header and no
  \<open>key\<close> parameter.\<close>

theorem forwarded_iff:
  assumes "keys_load environ = Inr (mw_keys m)"
  shows "wrap m t1 t2 t3 r = Forwarded out \<longleftrightarrow>
     (\<exists>l. (presents_bearer m r l \<or> presents_cookie m t1 r l) \<and> out = strip_credentials r l \<and>
        label_from_context out = l \<and>
        hdr_values (req_header out) ''Authorization'' = [] \<and> hdr_values (req_header out) ''Cookie'' = [] \<and>
        \<not> values_has (url_query (req_url out)) query_param)"
  unfolding wrap_forwarded_iff [OF keys_load_ok [OF assms]]
  by (auto simp: strip_label strip_header strip_no_key hdr_values_del label_from_context_def)

definition sample_mw :: middleware where
  "sample_mw = \<lparr>mw_keys = sample_keys, mw_ttl = 3600 * second\<rparr>"

definition sample_url :: url where
  "sample_url = \<lparr>scheme = [], opaque = [], path = ''/v1/models'', raw_path = [], force_query = False,
     raw_query = ''a=1''\<rparr>"

definition sample_request :: request where
  "sample_request = \<lparr>req_method = ''GET'', req_url = sample_url,
     req_header = [(''Authorization'', [''Bearer '' @ sample_secret]), (''Cookie'', [''x=y''])],
     req_host = ''gw.example'', remote_addr = ''192.0.2.1:443'', req_body = None, content_length = 0, ctx_label = [], ctx_info = False, ctx_gone = False\<rparr>"

lemma sample_bearer: "presents_bearer sample_mw sample_request ''laptop''"
proof -
  have "canon ''Authorization'' = ''Authorization''" by code_simp
  moreover have "bearer_secret (''Bearer '' @ sample_secret) = sample_secret"
    unfolding sample_secret_def by code_simp
  ultimately show ?thesis
    by (simp add: presents_bearer_def hdr_get_def hdr_values_def sample_request_def sample_mw_def
        keys_secret_def sample_keys_def)
qed

theorem forwarded_iff_witness:
  "wrap sample_mw 0 0 0 sample_request = Forwarded (strip_credentials sample_request ''laptop'')"
proof -
  have l: "keys_load sample_environ = Inr (mw_keys sample_mw)"
    by (simp add: sample_load sample_mw_def)
  have "hdr_values (req_header (strip_credentials sample_request ''laptop'')) ''Authorization'' = []"
    "hdr_values (req_header (strip_credentials sample_request ''laptop'')) ''Cookie'' = []"
    by (simp_all add: strip_header hdr_values_del)
  with sample_bearer strip_no_key show ?thesis
    by (subst forwarded_iff [OF l]) (auto simp: label_from_context_def strip_label)
qed

text \<open>No credential travels on. A forwarded request carries the label of an existing key and
  neither an Authorization header, a Cookie header nor a \<open>key\<close> query parameter; method, path, body,
  every other header and every other query parameter are those of the client.\<close>

theorem forwarded_clean:
  assumes "keys_load environ = Inr (mw_keys m)" and "wrap m t1 t2 t3 r = Forwarded out"
  shows "keys_secret (mw_keys m) (ctx_label out) \<noteq> None \<and>
     hdr_values (req_header out) ''Authorization'' = [] \<and> hdr_values (req_header out) ''Cookie'' = [] \<and>
     \<not> values_has (url_query (req_url out)) query_param \<and>
     (\<forall>k. k \<noteq> query_param \<longrightarrow> vals (url_query (req_url out)) k = vals (url_query (req_url r)) k) \<and>
     (\<forall>k. canon k \<noteq> canon ''Authorization'' \<and> canon k \<noteq> canon ''Cookie'' \<longrightarrow>
        hdr_values (req_header out) k = hdr_values (req_header r) k) \<and>
     req_method out = req_method r \<and> path (req_url out) = path (req_url r) \<and> req_body out = req_body r"
proof -
  from assms(2) obtain l where l: "presents_bearer m r l \<or> presents_cookie m t1 r l"
    and out: "out = strip_credentials r l"
    unfolding wrap_forwarded_iff [OF keys_load_ok [OF assms(1)]] by blast
  from l have "keys_secret (mw_keys m) l \<noteq> None"
    by (auto simp: presents_bearer_def presents_cookie_def verify_iff)
  then show ?thesis
    unfolding out by (simp add: strip_label strip_header strip_no_key strip_other_params strip_other_headers
        strip_rest hdr_values_del)
qed

theorem forwarded_clean_witness:
  "hdr_values (req_header (strip_credentials sample_request ''laptop'')) ''Cookie'' = []"
proof -
  have k: "keys_load sample_environ = Inr (mw_keys sample_mw)"
    by (simp add: sample_load sample_mw_def)
  have "wrap sample_mw 0 0 0 sample_request = Forwarded (strip_credentials sample_request ''laptop'')"
    unfolding wrap_forwarded_iff [OF keys_load_ok [OF k]] using sample_bearer by blast
  from forwarded_clean [OF k this] show ?thesis by blast
qed

section \<open>The browser bootstrap\<close>

text \<open>C31: appending the key once logs the browser in. When the middleware answers with its redirect,
  any later request without an Authorization header that sends the cookie of that redirect back
  before the session ends is forwarded, under the label of the key that was given.\<close>

theorem bootstrap_login:
  assumes "keys_load environ = Inr (mw_keys m)"
    and "wrap m t1 t2 t3 r = Redirected rs" and "valid_time (t2 + mw_ttl m)"
    and "set_cookies rs = [c]" and "hdr_get (req_header r') ''Authorization'' = []"
    and "hdr_values (req_header r') ''Cookie'' = [c_name c @ ''='' @ c_value c]"
    and "before t1' ((t2 + mw_ttl m) div second * second)"
  shows "\<exists>l. keys_secret (mw_keys m) l = Some (values_get (url_query (req_url r)) query_param) \<and>
     wrap m t1' t2' t3' r' = Forwarded (strip_credentials r' l)"
proof -
  note ok = keys_load_ok [OF assms(1)]
  let ?k = "values_get (url_query (req_url r)) query_param"
  obtain l where l: "keys_secret (mw_keys m) l = Some ?k"
    and c: "c = session_cookie (mint l ?k (t2 + mw_ttl m)) (t3 + mw_ttl m)"
    using assms(2,4) unfolding wrap_redirected_iff [OF ok] by auto
  have "req_cookie (req_header r') cookie_name = Some (mint l ?k (t2 + mw_ttl m))"
    using assms(6) by (intro session_cookie_read_back) (simp add: c session_cookie_def)
  moreover have "verify (mint l ?k (t2 + mw_ttl m)) (keys_secret (mw_keys m)) t1' = Some l"
    by (simp add: verify_mint [OF assms(3)] l assms(7))
  ultimately have "presents_cookie m t1' r' l"
    using assms(5) by (simp add: presents_cookie_def)
  then have "wrap m t1' t2' t3' r' = Forwarded (strip_credentials r' l)"
    unfolding wrap_forwarded_iff [OF ok] by blast
  with l show ?thesis by blast
qed

definition sample_login :: request where
  "sample_login = sample_request\<lparr>req_url := sample_url\<lparr>raw_query := ''key='' @ sample_secret\<rparr>, req_header := []\<rparr>"

lemma sample_login_key: "values_get (url_query (req_url sample_login)) query_param = sample_secret"
  unfolding sample_login_def sample_secret_def by code_simp

lemma sample_mw_loaded: "keys_load sample_environ = Inr (mw_keys sample_mw)"
  by (simp add: sample_load sample_mw_def)

definition sample_redirect :: response where
  "sample_redirect =
     see_other sample_login (clean_url (req_url sample_login))
       [session_cookie (mint ''laptop'' sample_secret (0 + mw_ttl sample_mw)) (0 + mw_ttl sample_mw)]"

lemma sample_login_redirected: "wrap sample_mw 0 0 0 sample_login = Redirected sample_redirect"
proof -
  have a: "hdr_get (req_header sample_login) ''Authorization'' = []"
    "req_cookie (req_header sample_login) cookie_name = None"
    by (simp_all add: sample_login_def hdr_get_def hdr_values_def req_cookie_def map_filter_simps)
  have "keys_secret (mw_keys sample_mw) ''laptop'' = Some sample_secret"
    by (simp add: keys_secret_def sample_mw_def sample_keys_def)
  moreover have "sample_secret \<noteq> []" by (simp add: sample_secret_def)
  ultimately show ?thesis
    unfolding wrap_redirected_iff [OF keys_load_ok [OF sample_mw_loaded]] sample_login_key
    by (auto simp: a presents_cookie_def sample_redirect_def intro!: exI [of _ "''laptop''"])
qed

theorem bootstrap_login_witness:
  "\<exists>c out. set_cookies sample_redirect = [c] \<and>
     wrap sample_mw (second * 60) 0 0
       (sample_request\<lparr>req_header := [(''Cookie'', [c_name c @ ''='' @ c_value c])]\<rparr>) = Forwarded out"
proof -
  define c where "c = session_cookie (mint ''laptop'' sample_secret (0 + mw_ttl sample_mw)) (0 + mw_ttl sample_mw)"
  define r' where "r' = sample_request\<lparr>req_header := [(''Cookie'', [c_name c @ ''='' @ c_value c])]\<rparr>"
  have n: "canon ''Authorization'' = ''Authorization''" "canon ''Cookie'' = ''Cookie''" by code_simp+
  have c: "set_cookies sample_redirect = [c]" by (simp add: sample_redirect_def c_def)
  have v: "valid_time (0 + mw_ttl sample_mw)"
    by (simp add: sample_mw_def valid_time_def second_def in_int64_def min_int64_def max_int64_def)
  have h: "hdr_get (req_header r') ''Authorization'' = []"
    "hdr_values (req_header r') ''Cookie'' = [c_name c @ ''='' @ c_value c]"
    by (simp_all add: r'_def hdr_get_def hdr_values_def n)
  have b: "before (second * 60) ((0 + mw_ttl sample_mw) div second * second)"
    by (simp add: before_def sample_mw_def second_def)
  from bootstrap_login [OF sample_mw_loaded sample_login_redirected v c h b, of 0 0] c
  show ?thesis unfolding r'_def by blast
qed

section \<open>The redirect target\<close>

lemma hex_no_question: "x \<in> set upper_hex \<Longrightarrow> x \<noteq> CHR ''?''"
  by (auto simp: upper_hex_def)

lemma escape_char_no_question:
  assumes "x \<in> set (escape_char EncodePath c)"
  shows "x \<noteq> CHR ''?''"
proof -
  have d: "(of_char c div 16 :: nat) < 16" using of_char_less_256 [of c] by (simp add: div_less_iff_less_mult)
  have m: "(of_char c mod 16 :: nat) < 16" by simp
  have s: "should_escape EncodePath (CHR ''?'')" by (simp add: should_escape_def is_alnum_def)
  have "x = c \<and> \<not> should_escape EncodePath c \<or> x = CHR ''%'' \<or> x \<in> set upper_hex"
    using assms hex_digits(2) [OF d] hex_digits(2) [OF m]
    by (auto simp: escape_char_def split: if_splits)
  with s hex_no_question [of x] show ?thesis by auto
qed

lemma escape_path_no_question: "CHR ''?'' \<notin> set (escape EncodePath p)"
  using escape_char_no_question by (auto simp: escape_def)

lemma escaped_path_no_question: "CHR ''?'' \<notin> set (escaped_path u)"
proof -
  have "should_escape EncodePath (CHR ''?'')" by (simp add: should_escape_def is_alnum_def)
  then have c: "\<not> (CHR ''?'' \<in> set ''!$&()*+,;=:@[]%'' \<or> CHR ''?'' = CHR 0x27 \<or>
      \<not> should_escape EncodePath (CHR ''?''))" by simp
  have "CHR ''?'' \<notin> set s" if "valid_encoded s" for s
    using that c unfolding valid_encoded_def by blast
  then show ?thesis using escape_path_no_question [of "path u"] by (simp add: escaped_path_def)
qed

lemma fold_slashes_ne: "p \<noteq> [] \<Longrightarrow> fold_slashes p \<noteq> []"
  by (induction p rule: fold_slashes.induct) auto

lemma escaped_path_ne: "path u \<noteq> [] \<Longrightarrow> escaped_path u \<noteq> []"
proof -
  assume "path u \<noteq> []"
  moreover have "escape_char EncodePath c \<noteq> []" for c by (simp add: escape_char_def)
  ultimately have "escape EncodePath (path u) \<noteq> []" by (cases "path u") (simp_all add: escape_def)
  then show ?thesis by (simp add: escaped_path_def)
qed

lemma escape_query_ascii: "list_all (\<lambda>c. (of_char c :: nat) < 128) (escape EncodeQueryComponent s)"
proof -
  have ascii: "list_all (\<lambda>c. (of_char c :: nat) < 128) upper_hex" by (simp add: upper_hex_def)
  have hex: "n < 16 \<Longrightarrow> (of_char (upper_hex ! n) :: nat) < 128" for n
    using ascii hex_digits(2) [of n] by (auto simp: list_all_iff)
  have kept: "(of_char c :: nat) < 128" if "\<not> should_escape EncodeQueryComponent c" for c
  proof -
    have "of_char c \<le> (122 :: nat) \<or> c \<in> set ''-_.~''"
      using that by (auto simp: should_escape_def is_alnum_def less_eq_char_def split: if_splits)
    then show ?thesis by auto
  qed
  have "(of_char x :: nat) < 128" if "x \<in> set (escape_char EncodeQueryComponent c)" for x c
  proof -
    have "(of_char c div 16 :: nat) < 16" using of_char_less_256 [of c] by (simp add: div_less_iff_less_mult)
    then show ?thesis
      using that hex [of "of_char c div 16"] hex [of "of_char c mod 16"] kept [of c]
      by (auto simp: escape_char_def split: if_splits)
  qed
  then show ?thesis by (auto simp: escape_def list_all_iff)
qed

lemma join_ascii:
  "list_all P sep \<Longrightarrow> (\<And>x. x \<in> set xs \<Longrightarrow> list_all P x) \<Longrightarrow> list_all P (join sep xs)"
  by (induction sep xs rule: join.induct) auto

lemma values_encode_ascii: "list_all (\<lambda>c. (of_char c :: nat) < 128) (values_encode q)"
  unfolding values_encode_def by (rule join_ascii) (auto simp: escape_query_ascii)

lemma clean_url_query:
  assumes "hierarchical u"
  shows "snd (cut (clean_url u) CHR ''?'') =
    (values_encode (values_del (url_query u) query_param),
     force_query u \<or> values_encode (values_del (url_query u) query_param) \<noteq> [])"
proof -
  define v where "v = u\<lparr>raw_query := values_encode (values_del (url_query u) query_param),
     path := fold_slashes (if path u = [] then ''/'' else path u)\<rparr>"
  have "path v \<noteq> []" by (simp add: v_def fold_slashes_ne)
  from escaped_path_ne [OF this] have e: "escaped_path v \<noteq> []" .
  have "opaque v = []" "force_query v = force_query u" using assms by (simp_all add: v_def hierarchical_def)
  with e escaped_path_no_question [of v] have "snd (cut (request_uri v) CHR ''?'') = (raw_query v, force_query u \<or> raw_query v \<noteq> [])"
    by (auto simp: request_uri_def Let_def cut_found cut_not_found)
  moreover have "clean_url u = request_uri v" "raw_query v = values_encode (values_del (url_query u) query_param)"
    by (simp_all add: clean_url_def Let_def v_def)
  ultimately show ?thesis by simp
qed

text \<open>C35: for a request target of the ordinary form the bootstrap redirect stays on this origin and
  drops the key. Its Location starts with one slash, so no browser reads a host out of it, and what
  follows its first question mark parses to a query without \<open>key\<close>.\<close>

theorem redirect_clean:
  assumes "wrap m t1 t2 t3 r = Redirected rs" and "hierarchical (req_url r)"
  shows "has_prefix (hdr_get (r_header rs) ''Location'') ''/'' \<and> \<not> has_prefix (hdr_get (r_header rs) ''Location'') ''//'' \<and>
     \<not> values_has (parse_query (fst (snd (cut (hdr_get (r_header rs) ''Location'') CHR ''?'')))) query_param"
proof -
  let ?u = "clean_url (req_url r)" and ?q = "values_encode (values_del (url_query (req_url r)) query_param)"
  define t where "t = redirect_target (path (req_url r)) ?u"
  obtain cs where "rs = see_other r ?u cs"
    using assms(1) by (auto simp: wrap_def Let_def reject_def split: option.splits if_splits)
  then have loc: "hdr_get (r_header rs) ''Location'' = hex_escape_non_ascii t"
    by (simp add: see_other_location t_def)
  note o1 = redirect_same_origin [OF clean_url_same_origin [OF assms(2)], of "path (req_url r)", folded t_def]
  obtain p f where c: "cut t CHR ''?'' = (p, ?q, f)"
    using o1 clean_url_query [OF assms(2)] by (cases "cut t CHR ''?''") auto
  have "fst (snd (cut (hex_escape_non_ascii t) CHR ''?'')) = ?q"
  proof (cases f)
    case True
    with c cut_TrueD [of t "CHR ''?''" p ?q] have t: "t = p @ CHR ''?'' # ?q" "CHR ''?'' \<notin> set p" by auto
    have "hex_escape_non_ascii t = hex_escape_non_ascii p @ CHR ''?'' # ?q"
      by (simp add: t(1) hex_escape_append hex_escape_Cons hex_escape_ascii values_encode_ascii)
    then show ?thesis using hex_escape_no_question [OF t(2)] by (simp add: cut_found)
  next
    case False
    then have n: "CHR ''?'' \<notin> set t" using cut_flag [OF c] by simp
    then have "?q = []" using c by (simp add: cut_not_found)
    then show ?thesis using hex_escape_no_question [OF n] by (simp add: cut_not_found)
  qed
  then show ?thesis using o1 hex_escape_origin [of t] by (simp add: loc has_parse_encode_del)
qed

theorem redirect_clean_witness:
  "\<not> has_prefix (hdr_get (r_header sample_redirect) ''Location'') ''//''"
proof -
  have "hierarchical (req_url sample_login)" by (simp add: hierarchical_def sample_login_def sample_url_def)
  from redirect_clean [OF sample_login_redirected this] show ?thesis by simp
qed

text \<open>The one exception. A request target in opaque form, which Go's server accepts and no browser
  sends, is answered with a redirect to whatever it names, although the comment on \<open>cleanURL\<close>
  says that the path is folded to one slash and so always on this origin.\<close>

theorem redirect_opaque:
  "hdr_get (r_header (see_other r (clean_url \<lparr>scheme = ''foo'', opaque = ''https://evil.example'', path = [], raw_path = [],
     force_query = False, raw_query = ''key=k''\<rparr>) cs)) ''Location'' = ''https://evil.example''"
proof -
  have c: "clean_url \<lparr>scheme = ''foo'', opaque = ''https://evil.example'', path = [], raw_path = [],
      force_query = False, raw_query = ''key=k''\<rparr> = ''https://evil.example''" by code_simp
  have "redirect_target p ''https://evil.example'' = ''https://evil.example''" for p
  proof -
    have "\<not> relative_target ''https://evil.example''" by code_simp
    then show ?thesis by (simp add: redirect_target_def)
  qed
  then show ?thesis by (simp add: see_other_location c hex_escape_ascii)
qed

section \<open>Rejections and attribution\<close>

text \<open>A rejection says nothing. Whatever was wrong with the credentials, the status is 401, no
  cookie is set, and the response is one of two fixed ones; the log line names method, path and
  client address but neither the query nor a header, so no secret gets into it.\<close>

theorem rejection_uniform:
  assumes "wrap m t1 t2 t3 r = Rejected rs lg"
  shows "status rs = status_unauthorized \<and> set_cookies rs = [] \<and>
     r_body rs \<in> {Page unauthorized_html,
                  ErrorBody ''invalid API key'' ''invalid_request_error'' ''invalid_api_key''} \<and>
     log_path lg = path (req_url r) \<and> log_remote lg = client_ip r \<and>
     log_reason lg \<in> {''invalid bearer'', ''invalid cookie'', ''no credential presented'', ''invalid key''}"
  using assms wrap_total [of m t1 t2 t3 r] by (auto simp: reject_def write_error_def)

theorem rejection_uniform_witness:
  "\<exists>rs lg. wrap sample_mw 0 0 0 (sample_request\<lparr>req_header := []\<rparr>) = Rejected rs lg \<and>
     status rs = status_unauthorized"
proof -
  let ?r = "sample_request\<lparr>req_header := []\<rparr>"
  have "values_get (url_query (req_url ?r)) query_param = []"
    unfolding sample_request_def sample_url_def by code_simp
  then have "\<exists>rs lg. wrap sample_mw 0 0 0 ?r = Rejected rs lg"
    by (simp add: wrap_def Let_def hdr_get_def hdr_values_def req_cookie_def map_filter_simps reject_def)
  then show ?thesis using rejection_uniform by blast
qed

text \<open>C36: a client cannot choose its address in the logs. Whatever X-Forwarded-For lines and entries
  it sends, the address the proxy in front appended last decides; without that header it is the
  peer of the connection.\<close>

theorem client_ip_unspoofable:
  assumes "hdr_values (req_header r) ''X-Forwarded-For'' = claimed @ [entries @ '','' @ appended]"
    and "CHR '','' \<notin> set appended" and "trim_space appended \<noteq> []"
  shows "client_ip r = host_or_all (trim_space appended)"
proof (rule last_entry_decides [OF assms(1) _ assms(3)])
  show "last (split_on CHR '','' (entries @ '','' @ appended)) = appended"
    using assms(2) by (simp add: split_on_snoc split_on_absent)
qed

theorem client_ip_unspoofable_witness:
  "client_ip (sample_request\<lparr>req_header := [(''X-Forwarded-For'', [''10.0.0.1'', ''9.9.9.9, 203.0.113.7''])]\<rparr>) =
     ''203.0.113.7''"
proof -
  let ?r = "sample_request\<lparr>req_header := [(''X-Forwarded-For'', [''10.0.0.1'', ''9.9.9.9, 203.0.113.7''])]\<rparr>"
  have "canon ''X-Forwarded-For'' = ''X-Forwarded-For''" by code_simp
  then have h: "hdr_values (req_header ?r) ''X-Forwarded-For'' = [''10.0.0.1''] @ [''9.9.9.9'' @ '','' @ '' 203.0.113.7'']"
    by (simp add: hdr_values_def)
  have t: "trim_space '' 203.0.113.7'' = ''203.0.113.7''" by code_simp
  have "host_or_all ''203.0.113.7'' = ''203.0.113.7''" by code_simp
  with client_ip_unspoofable [OF h] t show ?thesis by simp
qed

end
