(* ===== verification/MeshApi.thy ===== *)
theory MeshApi
  imports GoNum
begin

text \<open>
  The viiwork module (\<open>mesh\<close>, \<open>mesh/capacity\<close>, \<open>meshapi\<close>) is not part of this repository.
  Its values appear here only through the fields and functions the gateway uses: the structs as
  records of those fields, the functions and constants as one record of parameters that every
  definition using them takes as an argument.
\<close>

record model_capacity =
  mc_name :: string
  mc_slots :: int
  mc_busy :: int
  mc_healthy :: int

record report =
  rep_node :: string
  rep_api_addr :: string
  rep_received :: time
  rep_rtt :: duration
  rep_models :: "model_capacity list"

record member =
  m_name :: string
  m_local :: bool
  m_state :: string
  m_role :: string

record viiwork =
  member_alive :: string
  role_node :: string
  role_gateway :: string
  cap_fresh :: "report \<Rightarrow> time \<Rightarrow> duration \<Rightarrow> bool"
  cap_model :: "report \<Rightarrow> string \<Rightarrow> model_capacity option"
  mc_free :: "model_capacity \<Rightarrow> int"
  path_power :: string
  path_mesh_power :: string
  path_aliases :: string
  path_chat_completions :: string
  path_completions :: string
  path_embeddings :: string

text \<open>
  What README.md documents of the constants: the denied paths, and which endpoint is
  model-routed. A concrete instance for the witnesses follows.
\<close>

definition documented_paths :: "viiwork \<Rightarrow> bool" where
  "documented_paths V \<longleftrightarrow>
     path_power V = ''/v1/power'' \<and> path_mesh_power V = ''/v1/mesh/power'' \<and>
     path_aliases V = ''/v1/aliases'' \<and> path_chat_completions V = ''/v1/chat/completions''"

definition sample_viiwork :: viiwork where
  "sample_viiwork =
     \<lparr>member_alive = ''alive'', role_node = ''node'', role_gateway = ''gateway'',
      cap_fresh = (\<lambda>rep now stale. time_sub now (rep_received rep) \<le> stale),
      cap_model = (\<lambda>rep name. find (\<lambda>mc. mc_name mc = name) (rep_models rep)),
      mc_free = (\<lambda>mc. mc_slots mc - mc_busy mc),
      path_power = ''/v1/power'', path_mesh_power = ''/v1/mesh/power'', path_aliases = ''/v1/aliases'',
      path_chat_completions = ''/v1/chat/completions'', path_completions = ''/v1/completions'',
      path_embeddings = ''/v1/embeddings''\<rparr>"

text \<open>The state of the mesh a decision reads: the member table and the latest reports.\<close>

record mesh_view =
  mv_members :: "member list"
  mv_report :: "string \<Rightarrow> report option"

end
