(* ===== verification/Picker.thy ===== *)
theory Picker
  imports MeshApi
begin

text \<open>
  internal/fleet/picker.go: which node serves an inference request (\<open>Pick\<close>) and which one
  serves the dashboards (\<open>View\<close>). The mutex makes each operation one atomic step on the
  \<open>picker\<close> record; the member table and the reports are what the step reads.
\<close>

section \<open>State\<close>

record target =
  t_node :: string
  t_api_addr :: string

record reservation =
  rs_node :: string
  rs_model :: string
  rs_at :: time

text \<open>
  \<open>held\<close> is a Go map that is counted over; \<open>rotate\<close> is a Go map only ever read by key, with
  0 for an absent one.
\<close>

record picker =
  stale_after :: duration
  view_nodes :: "string list"
  held :: "(64 word \<times> reservation) list"
  next_id :: "64 word"
  rotate_at :: "string \<Rightarrow> nat"
  view :: string

definition new_picker :: "duration \<Rightarrow> string list \<Rightarrow> picker" where
  "new_picker stale vnodes =
     \<lparr>stale_after = stale, view_nodes = vnodes, held = [], next_id = 0, rotate_at = (\<lambda>_. 0), view = []\<rparr>"

record candidate =
  c_target :: target
  c_free :: int
  c_rtt :: duration

text \<open>The comparator of \<open>sort.Slice\<close>, as a linear order on what it looks at.\<close>

datatype rank = Rank (rk_free: int) (rk_rtt: duration) (rk_node: string)

instantiation rank :: linorder
begin

definition less_rank :: "rank \<Rightarrow> rank \<Rightarrow> bool" where
  "less_rank a b \<longleftrightarrow>
     (if rk_free a \<noteq> rk_free b then rk_free a > rk_free b
      else if rk_rtt a \<noteq> rk_rtt b then rk_rtt a < rk_rtt b
      else rk_node a < rk_node b)"

definition less_eq_rank :: "rank \<Rightarrow> rank \<Rightarrow> bool" where
  "less_eq_rank a b \<longleftrightarrow> a = b \<or> a < b"

instance
proof
  fix x y z :: rank
  show "x < y \<longleftrightarrow> x \<le> y \<and> \<not> y \<le> x"
    by (auto simp: less_eq_rank_def less_rank_def split: if_splits)
  show "x \<le> x" by (simp add: less_eq_rank_def)
  show "x \<le> y \<Longrightarrow> y \<le> z \<Longrightarrow> x \<le> z"
    by (auto simp: less_eq_rank_def less_rank_def split: if_splits)
  show "x \<le> y \<Longrightarrow> y \<le> x \<Longrightarrow> x = y"
    by (auto simp: less_eq_rank_def less_rank_def split: if_splits)
  show "x \<le> y \<or> y \<le> x"
    by (cases x; cases y) (auto simp: less_eq_rank_def less_rank_def)
qed

end

definition rank_of :: "candidate \<Rightarrow> rank" where
  "rank_of c = Rank (c_free c) (c_rtt c) (t_node (c_target c))"

section \<open>Pick\<close>

definition routable :: "viiwork \<Rightarrow> member \<Rightarrow> bool" where
  "routable V m \<longleftrightarrow> m_state m = member_alive V \<and> \<not> m_local m \<and> m_role m = role_node V"

definition reserved_locked :: "picker \<Rightarrow> string \<Rightarrow> string \<Rightarrow> time \<Rightarrow> int" where
  "reserved_locked p node model received =
     int (length (filter (\<lambda>(_, r). rs_node r = node \<and> rs_model r = model \<and> after (rs_at r) received) (held p)))"

text \<open>The body of the loop over members: \<open>None\<close> is \<open>continue\<close>.\<close>

definition candidate_of ::
    "viiwork \<Rightarrow> mesh_view \<Rightarrow> time \<Rightarrow> picker \<Rightarrow> string \<Rightarrow> string list \<Rightarrow> member \<Rightarrow> candidate option" where
  "candidate_of V mv now p model exclude m =
     (if \<not> routable V m \<or> m_name m \<in> set exclude then None
      else case mv_report mv (m_name m) of
        None \<Rightarrow> None
      | Some rep \<Rightarrow>
          if \<not> cap_fresh V rep now (stale_after p) then None
          else (case cap_model V rep model of
                  None \<Rightarrow> None
                | Some mc \<Rightarrow>
                    if mc_healthy mc \<le> 0 then None
                    else (let free = wrap64 (mc_free V mc - reserved_locked p (m_name m) model (rep_received rep));
                              free = (if free < 0 then 0 else free)
                          in Some \<lparr>c_target = \<lparr>t_node = m_name m, t_api_addr = rep_api_addr rep\<rparr>,
                                   c_free = free, c_rtt = rep_rtt rep\<rparr>)))"

definition candidates ::
    "viiwork \<Rightarrow> mesh_view \<Rightarrow> time \<Rightarrow> picker \<Rightarrow> string \<Rightarrow> string list \<Rightarrow> candidate list" where
  "candidates V mv now p model exclude =
     List.map_filter (candidate_of V mv now p model exclude) (mv_members mv)"

text \<open>How many lead the sorted list on both free slots and round-trip time.\<close>

definition tied_count :: "candidate list \<Rightarrow> nat" where
  "tied_count cs =
     1 + length (takeWhile (\<lambda>c. c_free c = c_free (hd cs) \<and> c_rtt c = c_rtt (hd cs)) (tl cs))"

definition pick ::
    "viiwork \<Rightarrow> mesh_view \<Rightarrow> time \<Rightarrow> string \<Rightarrow> string list \<Rightarrow> picker \<Rightarrow> (target \<times> 64 word) option \<times> picker" where
  "pick V mv now model exclude p =
     (let cands = candidates V mv now p model exclude
      in if cands = [] then (None, p)
         else
           (let cands = sort_key rank_of cands;
                tied = tied_count cands;
                i = (if tied > 1 then rotate_at p model mod tied else 0);
                rot = (if tied > 1 then (rotate_at p)(model := (rotate_at p model + 1) mod tied)
                       else rotate_at p);
                chosen = c_target (cands ! i);
                rid = next_id p
            in (Some (chosen, rid),
                p\<lparr>held := AList.update rid \<lparr>rs_node = t_node chosen, rs_model = model, rs_at = now\<rparr> (held p),
                  next_id := rid + 1, rotate_at := rot\<rparr>)))"

text \<open>
  The release function is a closure over the id and a \<open>sync.Once\<close>; its state is whether it has
  run.
\<close>

record release_fn =
  rel_id :: "64 word"
  rel_done :: bool

definition delete_held :: "64 word \<Rightarrow> picker \<Rightarrow> picker" where
  "delete_held rid p = p\<lparr>held := AList.delete rid (held p)\<rparr>"

definition call_release :: "release_fn \<Rightarrow> picker \<Rightarrow> release_fn \<times> picker" where
  "call_release f p = (if rel_done f then (f, p) else (f\<lparr>rel_done := True\<rparr>, delete_held (rel_id f) p))"

section \<open>View\<close>

definition eligible_views :: "viiwork \<Rightarrow> mesh_view \<Rightarrow> time \<Rightarrow> picker \<Rightarrow> (string \<times> target) list" where
  "eligible_views V mv now p =
     foldl (\<lambda>el m.
        if \<not> routable V m then el
        else case mv_report mv (m_name m) of
               None \<Rightarrow> el
             | Some rep \<Rightarrow>
                 if \<not> cap_fresh V rep now (stale_after p) then el
                 else AList.update (m_name m) \<lparr>t_node = m_name m, t_api_addr = rep_api_addr rep\<rparr> el)
       [] (mv_members mv)"

definition view_pick :: "viiwork \<Rightarrow> mesh_view \<Rightarrow> time \<Rightarrow> picker \<Rightarrow> target option \<times> picker" where
  "view_pick V mv now p =
     (let el = eligible_views V mv now p
      in if el = [] then (None, p\<lparr>view := []\<rparr>)
         else if view_nodes p \<noteq> [] then
           (case find (\<lambda>n. map_of el n \<noteq> None) (view_nodes p) of
              Some n \<Rightarrow> (map_of el n, p\<lparr>view := n\<rparr>)
            | None \<Rightarrow> (None, p\<lparr>view := []\<rparr>))
         else
           (case map_of el (view p) of
              Some t \<Rightarrow> (Some t, p)
            | None \<Rightarrow> (let n = hd (sort (map fst el)) in (map_of el n, p\<lparr>view := n\<rparr>))))"

section \<open>Candidates\<close>

lemma candidate_of_Some:
  "candidate_of V mv now p model exclude m = Some c \<longleftrightarrow>
     routable V m \<and> m_name m \<notin> set exclude \<and>
     (\<exists>rep mc. mv_report mv (m_name m) = Some rep \<and> cap_fresh V rep now (stale_after p) \<and>
        cap_model V rep model = Some mc \<and> 0 < mc_healthy mc \<and>
        c = \<lparr>c_target = \<lparr>t_node = m_name m, t_api_addr = rep_api_addr rep\<rparr>,
             c_free = max 0 (wrap64 (mc_free V mc - reserved_locked p (m_name m) model (rep_received rep))),
             c_rtt = rep_rtt rep\<rparr>)"
  by (auto simp: candidate_of_def Let_def not_le not_less max_def split: option.splits if_splits)

lemma candidates_iff:
  "c \<in> set (candidates V mv now p model exclude) \<longleftrightarrow>
     (\<exists>m \<in> set (mv_members mv). candidate_of V mv now p model exclude m = Some c)"
  unfolding candidates_def by (force simp: map_filter_def image_iff)

text \<open>Two candidates the comparator cannot tell apart are the same candidate.\<close>

lemma candidate_target:
  assumes "c \<in> set (candidates V mv now p model ex)"
  shows "\<exists>rep. mv_report mv (t_node (c_target c)) = Some rep \<and>
     c_target c = \<lparr>t_node = t_node (c_target c), t_api_addr = rep_api_addr rep\<rparr>"
  using assms by (auto simp: candidates_iff candidate_of_Some)

lemma rank_inj_candidates:
  assumes "c \<in> set (candidates V mv now p model ex)" "d \<in> set (candidates V mv now p model ex)"
    and "rank_of c = rank_of d"
  shows "c = d"
proof -
  have e: "c_free c = c_free d" "c_rtt c = c_rtt d" "t_node (c_target c) = t_node (c_target d)"
    using assms(3) by (simp_all add: rank_of_def)
  then have "c_target c = c_target d"
    using candidate_target [OF assms(1)] candidate_target [OF assms(2)] by (metis option.inject)
  with e show ?thesis by simp
qed

lemma pick_None: "fst (pick V mv now model ex p) = None \<longleftrightarrow> candidates V mv now p model ex = []"
  by (simp add: pick_def Let_def)

text \<open>The leaders: as many free slots and as short a round trip as any candidate.\<close>

definition leads :: "candidate list \<Rightarrow> candidate \<Rightarrow> bool" where
  "leads cs c \<longleftrightarrow> c \<in> set cs \<and>
     (\<forall>d \<in> set cs. c_free d < c_free c \<or> c_free d = c_free c \<and> c_rtt c \<le> c_rtt d)"

lemma rank_le_lead:
  "rank_of c \<le> rank_of d \<Longrightarrow> c_free d < c_free c \<or> c_free d = c_free c \<and> c_rtt c \<le> c_rtt d"
  by (auto simp: less_eq_rank_def less_rank_def rank_of_def split: if_splits)

lemma takeWhile_sat: "i < length (takeWhile P xs) \<Longrightarrow> P (xs ! i)"
  by (metis nth_mem set_takeWhileD takeWhile_nth)

lemma split_first_failing:
  "c \<in> set t \<Longrightarrow> c \<notin> set (takeWhile P t) \<Longrightarrow> \<exists>w e u. t = w @ e # u \<and> \<not> P e \<and> c \<in> set (e # u)"
proof (induction t)
  case Nil
  then show ?case by simp
next
  case (Cons a t)
  show ?case
  proof (cases "P a")
    case True
    with Cons obtain w e u where "t = w @ e # u" "\<not> P e" "c \<in> set (e # u)" by auto
    then show ?thesis by (intro exI [of _ "a # w"]) auto
  next
    case False
    with Cons.prems(1) show ?thesis by (intro exI [of _ "[]"]) auto
  qed
qed

lemma tied_leads:
  assumes ne: "cs \<noteq> []" and s: "s = sort_key rank_of cs" and i: "i < tied_count s"
  shows "i < length s" and "leads cs (s ! i)"
proof -
  have sne: "s \<noteq> []" using ne s by (metis set_empty set_sort)
  then obtain h t where ht: "s = h # t" by (cases s) auto
  let ?P = "\<lambda>c. c_free c = c_free h \<and> c_rtt c = c_rtt h"
  have tc: "tied_count s = 1 + length (takeWhile ?P t)" by (simp add: tied_count_def ht)
  have "length (takeWhile ?P t) \<le> length t" by (rule length_takeWhile_le)
  with i tc ht show il: "i < length s" by simp
  have same: "?P (s ! i)"
  proof (cases i)
    case (Suc j)
    with i tc have "j < length (takeWhile ?P t)" by simp
    then have "?P (t ! j)" by (rule takeWhile_sat)
    with Suc ht show ?thesis by simp
  qed (simp add: ht)
  have "rank_of h \<le> rank_of d" if "d \<in> set cs" for d
    using hd_sort_key_le [OF that, of rank_of] unfolding s [symmetric] ht by simp
  then have "c_free d < c_free h \<or> c_free d = c_free h \<and> c_rtt h \<le> c_rtt d" if "d \<in> set cs" for d
    using that rank_le_lead by blast
  moreover have "s ! i \<in> set cs" using il s by (metis nth_mem set_sort)
  ultimately show "leads cs (s ! i)" using same by (auto simp: leads_def)
qed

text \<open>Conversely every leader is among the first \<open>tied_count\<close>.\<close>

lemma leads_tied:
  assumes s: "s = sort_key rank_of cs" and c: "leads cs c"
  shows "\<exists>i < tied_count s. s ! i = c"
proof -
  have cin: "c \<in> set s" using c s by (simp add: leads_def)
  then obtain h t where ht: "s = h # t" by (cases s) auto
  let ?P = "\<lambda>c. c_free c = c_free h \<and> c_rtt c = c_rtt h"
  have h: "h \<in> set cs" using s ht by (metis list.set_intros(1) set_sort)
  have hle: "rank_of h \<le> rank_of d" if "d \<in> set cs" for d
    using hd_sort_key_le [OF that, of rank_of] unfolding s [symmetric] ht by simp
  have Pc: "?P c"
    using c h rank_le_lead [OF hle, of c] by (force simp: leads_def)
  show ?thesis
  proof (cases "c \<in> set (takeWhile ?P t)")
    case True
    then obtain j where j: "j < length (takeWhile ?P t)" "takeWhile ?P t ! j = c"
      by (auto simp: in_set_conv_nth)
    then have "s ! Suc j = c" using takeWhile_nth [OF j(1)] by (simp add: ht)
    moreover have "Suc j < tied_count s" using j by (simp add: tied_count_def ht)
    ultimately show ?thesis by blast
  next
    case False
    show ?thesis
    proof (cases "c = h")
      case True
      then show ?thesis by (intro exI [of _ 0]) (simp add: ht tied_count_def)
    next
      case neq: False
      then have "c \<in> set t" using cin ht by simp
      from split_first_failing [OF this False] obtain w e u
        where t: "t = w @ e # u" and "\<not> ?P e" and cu: "c \<in> set (e # u)" by blast
      have "sorted (map rank_of s)" unfolding s by (rule sorted_sort_key)
      then have "sorted (map rank_of (h # w @ e # u))" unfolding ht t .
      then have "rank_of h \<le> rank_of e" "rank_of e \<le> rank_of c"
        using cu by (auto simp: sorted_append)
      then have "rank_of e = rank_of h \<or> (c_free e = c_free h \<and> c_rtt e = c_rtt h)"
        using Pc rank_le_lead [of h e] rank_le_lead [of e c] by linarith
      with \<open>\<not> ?P e\<close> show ?thesis by (auto simp: rank_of_def)
    qed
  qed
qed

lemma pick_Some:
  assumes "pick V mv now model ex p = (Some (t, rid), p')"
  obtains c where "leads (candidates V mv now p model ex) c" "t = c_target c" "rid = next_id p"
    and "held p' = AList.update rid \<lparr>rs_node = t_node t, rs_model = model, rs_at = now\<rparr> (held p)"
    and "next_id p' = rid + 1" and "view p' = view p" and "stale_after p' = stale_after p"
    and "view_nodes p' = view_nodes p"
proof -
  let ?cs = "candidates V mv now p model ex"
  let ?s = "sort_key rank_of ?cs"
  let ?i = "if tied_count ?s > 1 then rotate_at p model mod tied_count ?s else 0"
  have ne: "?cs \<noteq> []" using assms by (auto simp: pick_def Let_def split: if_splits)
  have "?i < tied_count ?s" by (simp add: tied_count_def)
  then have "leads ?cs (?s ! ?i)" by (rule tied_leads(2) [OF ne refl])
  with assms ne show ?thesis by (intro that [of "?s ! ?i"]) (auto simp: pick_def Let_def)
qed

lemma pick_not_excluded:
  assumes "pick V mv now model ex p = (Some (t, rid), p')"
  shows "t_node t \<notin> set ex"
proof -
  obtain c where "leads (candidates V mv now p model ex) c" "t = c_target c"
    by (rule pick_Some [OF assms])
  then show ?thesis by (auto simp: leads_def candidates_iff candidate_of_Some)
qed

section \<open>Reservations\<close>

text \<open>Ids are handed out in order, so those still held are older than the next one.\<close>

definition picker_inv :: "picker \<Rightarrow> bool" where
  "picker_inv p \<longleftrightarrow> distinct (map fst (held p)) \<and> (\<forall>rid \<in> fst ` set (held p). unat rid < unat (next_id p))"

text \<open>Picks left before the 64-bit id counter would wrap.\<close>

definition id_budget :: "picker \<Rightarrow> nat" where
  "id_budget p = 2 ^ 64 - 1 - unat (next_id p)"

definition outstanding :: "picker \<Rightarrow> 64 word multiset" where
  "outstanding p = mset (map fst (held p))"

lemma new_picker_inv: "picker_inv (new_picker s v)"
  by (simp add: picker_inv_def new_picker_def)

lemma next_id_fresh: "picker_inv p \<Longrightarrow> next_id p \<notin> fst ` set (held p)"
  by (auto simp: picker_inv_def)

lemma unat_next_id:
  "0 < id_budget p \<Longrightarrow> unat (next_id p + 1) = unat (next_id p) + 1"
  using unsigned_less [of "next_id p"]
  by (subst unat_add_lem [THEN iffD1]) (simp_all add: id_budget_def)

lemma pick_inv:
  assumes inv: "picker_inv p" and b: "0 < id_budget p"
    and pk: "pick V mv now model ex p = (Some (t, rid), p')"
  shows "picker_inv p'" and "id_budget p' = id_budget p - 1"
    and "outstanding p' = add_mset rid (outstanding p)"
    and "held p' = held p @ [(rid, \<lparr>rs_node = t_node t, rs_model = model, rs_at = now\<rparr>)]"
proof -
  obtain c where c: "rid = next_id p" "next_id p' = rid + 1"
    "held p' = AList.update rid \<lparr>rs_node = t_node t, rs_model = model, rs_at = now\<rparr> (held p)"
    by (rule pick_Some [OF pk])
  note fresh = next_id_fresh [OF inv]
  show h: "held p' = held p @ [(rid, \<lparr>rs_node = t_node t, rs_model = model, rs_at = now\<rparr>)]"
    using c fresh by (simp add: alist_update_absent)
  have u: "unat (next_id p') = unat (next_id p) + 1" using c b by (simp add: unat_next_id)
  show "picker_inv p'" using inv h c u fresh by (auto simp: picker_inv_def)
  show "id_budget p' = id_budget p - 1" using u by (simp add: id_budget_def)
  show "outstanding p' = add_mset rid (outstanding p)" using h by (simp add: outstanding_def)
qed

lemma pick_fail_state: "pick V mv now model ex p = (None, p') \<Longrightarrow> p' = p"
  by (simp add: pick_def Let_def split: if_splits)

lemma release_inv: "picker_inv p \<Longrightarrow> picker_inv (delete_held rid p)"
  by (auto simp: picker_inv_def delete_held_def AList.delete_eq distinct_map_filter)

lemma release_outstanding:
  assumes "picker_inv p"
  shows "outstanding (delete_held rid p) = outstanding p - {#rid#}"
proof -
  have "distinct (map fst (held p))" using assms by (simp add: picker_inv_def)
  then have "removeAll rid (map fst (held p)) = remove1 rid (map fst (held p))"
    by (rule distinct_remove1_removeAll [symmetric])
  then show ?thesis by (simp add: outstanding_def delete_held_def delete_keys del: mset_map)
qed

lemma release_budget: "id_budget (delete_held rid p) = id_budget p"
  by (simp add: id_budget_def delete_held_def)

lemma pick_release_held:
  assumes "picker_inv p" and "pick V mv now model ex p = (Some (t, rid), p')"
  shows "held (delete_held rid p') = held p"
proof -
  obtain c where c: "rid = next_id p"
    "held p' = AList.update rid \<lparr>rs_node = t_node t, rs_model = model, rs_at = now\<rparr> (held p)"
    by (rule pick_Some [OF assms(2)])
  with next_id_fresh [OF assms(1)] show ?thesis
    by (simp add: delete_held_def alist_update_absent alist_delete_last)
qed

lemma call_release_twice:
  "snd (call_release (fst (call_release f p)) q) = q"
  by (simp add: call_release_def)

section \<open>Eligibility for View\<close>

definition can_view :: "viiwork \<Rightarrow> mesh_view \<Rightarrow> time \<Rightarrow> picker \<Rightarrow> string \<Rightarrow> target \<Rightarrow> bool" where
  "can_view V mv now p n t \<longleftrightarrow>
     (\<exists>m \<in> set (mv_members mv). routable V m \<and> m_name m = n) \<and>
     (\<exists>rep. mv_report mv n = Some rep \<and> cap_fresh V rep now (stale_after p) \<and>
        t = \<lparr>t_node = n, t_api_addr = rep_api_addr rep\<rparr>)"

text \<open>The entry one routable member adds, if it adds any.\<close>

definition view_entry :: "viiwork \<Rightarrow> mesh_view \<Rightarrow> time \<Rightarrow> picker \<Rightarrow> string \<Rightarrow> target option" where
  "view_entry V mv now p n =
     (case mv_report mv n of
        None \<Rightarrow> None
      | Some rep \<Rightarrow>
          if cap_fresh V rep now (stale_after p) then Some \<lparr>t_node = n, t_api_addr = rep_api_addr rep\<rparr>
          else None)"

definition view_step ::
    "viiwork \<Rightarrow> mesh_view \<Rightarrow> time \<Rightarrow> picker \<Rightarrow> (string \<times> target) list \<Rightarrow> member \<Rightarrow> (string \<times> target) list" where
  "view_step V mv now p el m =
     (if routable V m then
        (case view_entry V mv now p (m_name m) of None \<Rightarrow> el | Some t \<Rightarrow> AList.update (m_name m) t el)
      else el)"

lemma eligible_step: "eligible_views V mv now p = foldl (view_step V mv now p) [] (mv_members mv)"
proof -
  have step: "(if \<not> routable V m then el
        else case mv_report mv (m_name m) of
               None \<Rightarrow> el
             | Some rep \<Rightarrow>
                 if \<not> cap_fresh V rep now (stale_after p) then el
                 else AList.update (m_name m) \<lparr>t_node = m_name m, t_api_addr = rep_api_addr rep\<rparr> el) =
      view_step V mv now p el m" for el m
    by (simp add: view_step_def view_entry_def split: option.split)
  show ?thesis unfolding eligible_views_def step ..
qed

lemma eligible_fold:
  "map_of (foldl (view_step V mv now p) el ms) n =
     (if \<exists>m \<in> set ms. routable V m \<and> m_name m = n
      then (case view_entry V mv now p n of None \<Rightarrow> map_of el n | Some t \<Rightarrow> Some t) else map_of el n)"
proof (induction ms arbitrary: el)
  case Nil
  then show ?case by simp
next
  case (Cons m ms)
  have "map_of (view_step V mv now p el m) n =
      (if routable V m \<and> m_name m = n
       then (case view_entry V mv now p n of None \<Rightarrow> map_of el n | Some t \<Rightarrow> Some t) else map_of el n)"
    by (auto simp: view_step_def alist_update_map split: option.splits)
  with Cons [of "view_step V mv now p el m"] show ?case
    by (cases "routable V m \<and> m_name m = n"; cases "\<exists>m \<in> set ms. routable V m \<and> m_name m = n";
        cases "view_entry V mv now p n") auto
qed

lemma can_view_iff:
  "can_view V mv now p n t \<longleftrightarrow>
     (\<exists>m \<in> set (mv_members mv). routable V m \<and> m_name m = n) \<and> view_entry V mv now p n = Some t"
  by (auto simp: can_view_def view_entry_def split: option.splits)

lemma eligible_iff:
  "map_of (eligible_views V mv now p) n = Some t \<longleftrightarrow> can_view V mv now p n t"
  by (simp add: eligible_step eligible_fold can_view_iff split: option.split)

lemma eligible_empty: "eligible_views V mv now p = [] \<longleftrightarrow> (\<forall>n t. \<not> can_view V mv now p n t)"
proof -
  have "eligible_views V mv now p = [] \<longleftrightarrow> (\<forall>n. map_of (eligible_views V mv now p) n = None)"
    by (metis list.set_cases map_of.simps(1) map_of_eq_empty_iff ext)
  then show ?thesis by (metis eligible_iff not_None_eq)
qed

lemma view_pick_state:
  "held (snd (view_pick V mv now p)) = held p" "next_id (snd (view_pick V mv now p)) = next_id p"
  "rotate_at (snd (view_pick V mv now p)) = rotate_at p"
  "stale_after (snd (view_pick V mv now p)) = stale_after p"
  "view_nodes (snd (view_pick V mv now p)) = view_nodes p"
  by (auto simp: view_pick_def Let_def split: option.splits)

lemma view_pick_can_view:
  assumes "view_pick V mv now p = (Some t, p')"
  shows "can_view V mv now p (t_node t) t \<and> (view p' = t_node t)"
proof -
  have node: "can_view V mv now p n t \<Longrightarrow> n = t_node t" for n by (auto simp: can_view_def)
  show ?thesis
    using assms node
    by (auto simp: view_pick_def Let_def eligible_iff find_Some_iff split: if_splits option.splits)
qed

end
