(* ===== verification/PickerSpec.thy ===== *)
theory PickerSpec
  imports Picker
begin

text \<open>
  What the routing and view decisions promise: the fleet interface the router relies on with its
  interpretation on the picker, and the properties of \<open>Pick\<close>, \<open>View\<close> and the release
  function.
\<close>

section \<open>The fleet interface\<close>

text \<open>
  The router sees the membership as an interface with two decisions. A successful pick hands out
  one reservation and its release takes exactly that one back; nothing else touches them. The
  budget is the number of picks before the 64-bit id counter would wrap around.
\<close>

locale fleet_iface =
  fixes pick :: "'env \<Rightarrow> string \<Rightarrow> string list \<Rightarrow> 's \<Rightarrow> (target \<times> 'r) option \<times> 's"
    and view :: "'env \<Rightarrow> 's \<Rightarrow> target option \<times> 's"
    and release :: "'r \<Rightarrow> 's \<Rightarrow> 's"
    and outstanding :: "'s \<Rightarrow> 'r multiset"
    and budget :: "'s \<Rightarrow> nat"
    and invar :: "'s \<Rightarrow> bool"
  assumes pick_gives:
      "invar s \<Longrightarrow> 0 < budget s \<Longrightarrow> pick e model ex s = (Some (t, r), s') \<Longrightarrow>
       invar s' \<and> budget s' = budget s - 1 \<and> outstanding s' = add_mset r (outstanding s)"
    and pick_none: "pick e model ex s = (None, s') \<Longrightarrow> s' = s"
    and view_keeps: "invar s \<Longrightarrow> view e s = (v, s') \<Longrightarrow>
       invar s' \<and> budget s' = budget s \<and> outstanding s' = outstanding s"
    and release_takes: "invar s \<Longrightarrow>
       invar (release r s) \<and> budget (release r s) = budget s \<and> outstanding (release r s) = outstanding s - {#r#}"
begin

lemma pick_release:
  assumes "invar s" "0 < budget s" "pick e model ex s = (Some (t, r), s')"
  shows "invar (release r s')" "outstanding (release r s') = outstanding s"
    "budget (release r s') = budget s - 1"
  using pick_gives [OF assms] release_takes [of s' r] by simp_all

lemma release_commutes:
  assumes "invar s"
  shows "outstanding (release a (release b s)) = outstanding (release b (release a s))"
  using assms release_takes [of s a] release_takes [of s b]
    release_takes [of "release a s" b] release_takes [of "release b s" a]
  by (simp add: diff_diff_add add_mset_commute)

end

text \<open>What a call reads from outside the picker.\<close>

record fleet_env =
  fe_view :: mesh_view
  fe_now :: time

definition fleet_pick ::
    "viiwork \<Rightarrow> fleet_env \<Rightarrow> string \<Rightarrow> string list \<Rightarrow> picker \<Rightarrow> (target \<times> 64 word) option \<times> picker" where
  "fleet_pick V e model ex p = pick V (fe_view e) (fe_now e) model ex p"

definition fleet_view :: "viiwork \<Rightarrow> fleet_env \<Rightarrow> picker \<Rightarrow> target option \<times> picker" where
  "fleet_view V e p = view_pick V (fe_view e) (fe_now e) p"

lemma view_pick_inv:
  assumes "view_pick V mv now p = (v, p')"
  shows "picker_inv p' \<longleftrightarrow> picker_inv p" "id_budget p' = id_budget p" "outstanding p' = outstanding p"
  using view_pick_state [of V mv now p] assms
  by (simp_all add: picker_inv_def id_budget_def outstanding_def)

interpretation mesh_fleet: fleet_iface "fleet_pick V" "fleet_view V" delete_held outstanding id_budget picker_inv
  for V
proof unfold_locales
  fix s s' e model ex t r
  assume h: "picker_inv s" "0 < id_budget s" "fleet_pick V e model ex s = (Some (t, r), s')"
  note pick_inv [OF h(1,2) h(3) [unfolded fleet_pick_def]]
  then show "picker_inv s' \<and> id_budget s' = id_budget s - 1 \<and> outstanding s' = add_mset r (outstanding s)"
    by blast
next
  fix s s' e model ex
  assume "fleet_pick V e model ex s = (None, s')"
  then show "s' = s" by (simp add: fleet_pick_def pick_fail_state)
next
  fix s s' e v
  assume "picker_inv s" "fleet_view V e s = (v, s')"
  then show "picker_inv s' \<and> id_budget s' = id_budget s \<and> outstanding s' = outstanding s"
    using view_pick_inv by (simp add: fleet_view_def)
next
  fix s r
  assume "picker_inv s"
  then show "picker_inv (delete_held r s) \<and> id_budget (delete_held r s) = id_budget s \<and>
      outstanding (delete_held r s) = outstanding s - {#r#}"
    by (simp add: release_inv release_budget release_outstanding)
qed

section \<open>A concrete mesh\<close>

text \<open>Two nodes that serve model \<open>m\<close> with two slots each, one gateway, reports one second old.\<close>

definition sample_now :: time where
  "sample_now = 63000000000 * second"

definition sample_report :: "string \<Rightarrow> report" where
  "sample_report n =
     \<lparr>rep_node = n, rep_api_addr = n @ '':8086'', rep_received = sample_now - second,
      rep_rtt = 5000000, rep_models = [\<lparr>mc_name = ''m'', mc_slots = 2, mc_busy = 0, mc_healthy = 1\<rparr>]\<rparr>"

definition sample_member :: "string \<Rightarrow> string \<Rightarrow> bool \<Rightarrow> member" where
  "sample_member n role loc = \<lparr>m_name = n, m_local = loc, m_state = ''alive'', m_role = role\<rparr>"

definition sample_mesh :: mesh_view where
  "sample_mesh =
     \<lparr>mv_members = [sample_member ''a'' ''node'' False, sample_member ''b'' ''node'' False,
                    sample_member ''gw'' ''gateway'' True],
      mv_report = (\<lambda>n. if n = ''a'' \<or> n = ''b'' then Some (sample_report n) else None)\<rparr>"

definition sample_picker :: picker where
  "sample_picker = new_picker (3 * second) []"

definition sample_target :: "string \<Rightarrow> target" where
  "sample_target n = \<lparr>t_node = n, t_api_addr = n @ '':8086''\<rparr>"

lemmas sample_defs = sample_mesh_def sample_member_def sample_report_def sample_picker_def
  sample_viiwork_def sample_target_def sample_now_def new_picker_def second_def

lemma sample_candidate:
  "candidate_of sample_viiwork sample_mesh sample_now sample_picker ''m'' ex (sample_member n role loc) =
     (if role = ''node'' \<and> \<not> loc \<and> (n = ''a'' \<or> n = ''b'') \<and> n \<notin> set ex
      then Some \<lparr>c_target = sample_target n, c_free = 2, c_rtt = 5000000\<rparr> else None)"
  by (auto simp: candidate_of_def routable_def sample_defs reserved_locked_def time_sub_def
      max_int64_def min_int64_def wrap64_def)

lemma sample_candidates:
  "candidates sample_viiwork sample_mesh sample_now sample_picker ''m'' [] =
     [\<lparr>c_target = sample_target ''a'', c_free = 2, c_rtt = 5000000\<rparr>,
      \<lparr>c_target = sample_target ''b'', c_free = 2, c_rtt = 5000000\<rparr>]"
proof -
  have m: "mv_members sample_mesh = [sample_member ''a'' ''node'' False, sample_member ''b'' ''node'' False,
      sample_member ''gw'' ''gateway'' True]" by (simp add: sample_mesh_def)
  show ?thesis by (simp add: candidates_def m map_filter_simps sample_candidate)
qed

lemma sample_candidates_rest:
  "candidates sample_viiwork sample_mesh sample_now sample_picker ''m'' [''a''] =
     [\<lparr>c_target = sample_target ''b'', c_free = 2, c_rtt = 5000000\<rparr>]"
proof -
  have m: "mv_members sample_mesh = [sample_member ''a'' ''node'' False, sample_member ''b'' ''node'' False,
      sample_member ''gw'' ''gateway'' True]" by (simp add: sample_mesh_def)
  show ?thesis by (simp add: candidates_def m map_filter_simps sample_candidate)
qed

lemma sample_sorted:
  "sort_key rank_of (candidates sample_viiwork sample_mesh sample_now sample_picker ''m'' []) =
   candidates sample_viiwork sample_mesh sample_now sample_picker ''m'' []"
  by (simp add: sample_candidates rank_of_def less_eq_rank_def less_rank_def sample_target_def)

lemma sample_picker_fields: "held sample_picker = []" "next_id sample_picker = 0"
  "rotate_at sample_picker = (\<lambda>_. 0)" "stale_after sample_picker = 3 * second"
  by (simp_all add: sample_picker_def new_picker_def)

lemma sample_pick:
  "pick sample_viiwork sample_mesh sample_now ''m'' [] sample_picker =
     (Some (sample_target ''a'', 0),
      sample_picker\<lparr>held := [(0, \<lparr>rs_node = ''a'', rs_model = ''m'', rs_at = sample_now\<rparr>)],
        next_id := 1, rotate_at := (\<lambda>_. 0)(''m'' := 1)\<rparr>)"
  by (simp add: pick_def Let_def sample_sorted)
    (simp add: sample_candidates tied_count_def sample_target_def sample_picker_fields)

lemma sample_picker_inv: "picker_inv sample_picker" "id_budget sample_picker = 2 ^ 64 - 1"
  by (simp_all add: picker_inv_def id_budget_def sample_picker_fields)

section \<open>Properties of Pick\<close>

text \<open>A picked node may serve the request. It is an alive node, not a gateway and not this
  process, not excluded, with a fresh report in which the model has a healthy backend; the address
  is the one that report gives.\<close>

theorem pick_serves:
  assumes "pick V mv now model ex p = (Some (t, rid), p')"
  shows "\<exists>m \<in> set (mv_members mv). routable V m \<and> m_name m = t_node t \<and> t_node t \<notin> set ex \<and>
     (\<exists>rep mc. mv_report mv (t_node t) = Some rep \<and> cap_fresh V rep now (stale_after p) \<and>
        cap_model V rep model = Some mc \<and> 0 < mc_healthy mc \<and> t_api_addr t = rep_api_addr rep)"
proof -
  obtain c where "leads (candidates V mv now p model ex) c" "t = c_target c"
    by (rule pick_Some [OF assms])
  then show ?thesis
    by (fastforce simp: leads_def candidates_iff candidate_of_Some)
qed

theorem pick_serves_witness:
  "\<exists>m \<in> set (mv_members sample_mesh). routable sample_viiwork m \<and> m_name m = ''a''"
  using pick_serves [OF sample_pick] by (auto simp: sample_target_def)

text \<open>A pick is the best candidate. No other candidate has more free slots net of this
  gateway's own reservations, and none with as many has a shorter round trip.\<close>

theorem pick_best:
  assumes "pick V mv now model ex p = (Some (t, rid), p')"
    and "m \<in> set (mv_members mv)" and "candidate_of V mv now p model ex m = Some d"
  shows "\<exists>c. c \<in> set (candidates V mv now p model ex) \<and> c_target c = t \<and>
     (c_free d < c_free c \<or> c_free d = c_free c \<and> c_rtt c \<le> c_rtt d)"
proof -
  obtain c where "leads (candidates V mv now p model ex) c" "t = c_target c"
    by (rule pick_Some [OF assms(1)])
  moreover have "d \<in> set (candidates V mv now p model ex)"
    using assms(2,3) by (auto simp: candidates_iff)
  ultimately show ?thesis by (auto simp: leads_def)
qed

theorem pick_best_witness:
  "\<exists>c \<in> set (candidates sample_viiwork sample_mesh sample_now sample_picker ''m'' []).
     c_target c = sample_target ''a'' \<and> 2 \<le> c_free c"
proof -
  have m: "sample_member ''b'' ''node'' False \<in> set (mv_members sample_mesh)"
    by (simp add: sample_mesh_def)
  have d: "candidate_of sample_viiwork sample_mesh sample_now sample_picker ''m'' []
      (sample_member ''b'' ''node'' False) = Some \<lparr>c_target = sample_target ''b'', c_free = 2, c_rtt = 5000000\<rparr>"
    by (simp add: sample_candidate)
  from pick_best [OF sample_pick m d] show ?thesis by fastforce
qed

text \<open>Pick fails exactly when no member can serve the model at all (a member with no free slot
  still can), and a failed pick changes nothing.\<close>

theorem pick_fails_iff:
  "fst (pick V mv now model ex p) = None \<longleftrightarrow>
     \<not> (\<exists>m \<in> set (mv_members mv). routable V m \<and> m_name m \<notin> set ex \<and>
         (\<exists>rep mc. mv_report mv (m_name m) = Some rep \<and> cap_fresh V rep now (stale_after p) \<and>
            cap_model V rep model = Some mc \<and> 0 < mc_healthy mc))"
proof -
  have "candidates V mv now p model ex = [] \<longleftrightarrow> (\<forall>c. c \<notin> set (candidates V mv now p model ex))"
    by (metis list.set_intros(1) neq_Nil_conv empty_iff list.set(1))
  then show ?thesis
    unfolding pick_None by (simp add: candidates_iff candidate_of_Some) blast
qed

theorem pick_fails_iff_witness: "fst (pick sample_viiwork sample_mesh sample_now ''zz'' [] sample_picker) = None"
  unfolding pick_fails_iff by (auto simp: sample_defs split: if_splits)

text \<open>The unstable \<open>sort.Slice\<close> is harmless. Every rearrangement of the candidates that is
  sorted by the comparator is the list \<open>pick\<close> ranks, so the choice does not depend on the
  sorting algorithm.\<close>

theorem pick_sort_unique:
  assumes "mset ys = mset (candidates V mv now p model ex)" and "sorted (map rank_of ys)"
  shows "ys = sort_key rank_of (candidates V mv now p model ex)"
  using assms by (rule sorted_key_unique) (rule rank_inj_candidates)

theorem pick_sort_unique_witness:
  "candidates sample_viiwork sample_mesh sample_now sample_picker ''m'' [] =
   sort_key rank_of (candidates sample_viiwork sample_mesh sample_now sample_picker ''m'' [])"
  by (rule pick_sort_unique)
    (simp_all add: sample_candidates rank_of_def less_eq_rank_def less_rank_def sample_target_def)

section \<open>Properties of the reservations\<close>

text \<open>A forward that has started counts against its node and model until a report received
  after it accounts for it, and against no other pair.\<close>

theorem pick_reserves:
  assumes "picker_inv p" and "0 < id_budget p" and "pick V mv now model ex p = (Some (t, rid), p')"
  shows "reserved_locked p' n m received =
     reserved_locked p n m received + (if n = t_node t \<and> m = model \<and> received < now then 1 else 0)"
  using pick_inv(4) [OF assms] by (simp add: reserved_locked_def after_def)

theorem pick_reserves_witness:
  "reserved_locked (snd (pick sample_viiwork sample_mesh sample_now ''m'' [] sample_picker)) ''a'' ''m''
     (sample_now - second) = 1"
proof -
  have "0 < id_budget sample_picker" by (simp add: sample_picker_inv)
  from pick_reserves [OF sample_picker_inv(1) this sample_pick, of "''a''" "''m''" "sample_now - second"]
  moreover have "reserved_locked sample_picker ''a'' ''m'' r = 0" for r
    by (simp add: reserved_locked_def sample_picker_fields)
  ultimately show ?thesis unfolding sample_pick
    by (simp add: sample_target_def second_def)
qed

text \<open>Releasing gives back exactly the reservation the pick took, and a second call of the
  same release function is a no-op whatever happened in between.\<close>

theorem release_exact:
  assumes "picker_inv p" and "0 < id_budget p" and "pick V mv now model ex p = (Some (t, rid), p')"
    and "call_release \<lparr>rel_id = rid, rel_done = False\<rparr> p' = (f, q)"
  shows "held q = held p \<and> picker_inv q \<and> snd (call_release f q') = q'"
proof -
  from assms(4) have q: "q = delete_held rid p'" and f: "rel_done f"
    by (auto simp: call_release_def)
  have "held q = held p" unfolding q by (rule pick_release_held [OF assms(1,3)])
  moreover have "picker_inv q" unfolding q by (rule release_inv [OF pick_inv(1) [OF assms(1-3)]])
  ultimately show ?thesis using f by (simp add: call_release_def)
qed

theorem release_exact_witness:
  "held (snd (call_release \<lparr>rel_id = 0, rel_done = False\<rparr>
      (snd (pick sample_viiwork sample_mesh sample_now ''m'' [] sample_picker)))) = held sample_picker"
proof -
  have b: "0 < id_budget sample_picker" by (simp add: sample_picker_inv)
  obtain f q where c: "call_release \<lparr>rel_id = 0, rel_done = False\<rparr>
      (snd (pick sample_viiwork sample_mesh sample_now ''m'' [] sample_picker)) = (f, q)"
    by (cases "call_release \<lparr>rel_id = 0, rel_done = False\<rparr>
      (snd (pick sample_viiwork sample_mesh sample_now ''m'' [] sample_picker))") auto
  from release_exact [OF sample_picker_inv(1) b sample_pick c [unfolded sample_pick snd_conv]] c
  show ?thesis by simp
qed

section \<open>Rotation\<close>

text \<open>Requests served one after the other, each released before the next.\<close>

fun serve_seq :: "viiwork \<Rightarrow> mesh_view \<Rightarrow> time \<Rightarrow> string \<Rightarrow> nat \<Rightarrow> picker \<Rightarrow> target list" where
  "serve_seq V mv now model 0 p = []"
| "serve_seq V mv now model (Suc k) p =
     (case pick V mv now model [] p of
        (Some (t, rid), p') \<Rightarrow> t # serve_seq V mv now model k (delete_held rid p')
      | (None, _) \<Rightarrow> [])"

lemma candidates_cong:
  "held q = held p \<Longrightarrow> stale_after q = stale_after p \<Longrightarrow>
   candidates V mv now q model ex = candidates V mv now p model ex"
proof -
  assume e: "held q = held p" "stale_after q = stale_after p"
  then have "reserved_locked q = reserved_locked p" by (intro ext) (simp add: reserved_locked_def)
  with e have "candidate_of V mv now q model ex = candidate_of V mv now p model ex"
    by (intro ext) (simp only: candidate_of_def)
  then show ?thesis by (simp add: candidates_def)
qed

lemma pick_rotates:
  assumes "pick V mv now model [] p = (Some (t, rid), p')"
    and "s = sort_key rank_of (candidates V mv now p model [])"
  shows "t = c_target (s ! (rotate_at p model mod tied_count s))"
    and "rotate_at p' model mod tied_count s = (rotate_at p model + 1) mod tied_count s"
    and "stale_after p' = stale_after p"
proof -
  have pos: "0 < tied_count s" by (simp add: tied_count_def)
  have ne: "candidates V mv now p model [] \<noteq> []"
    using assms(1) by (auto simp: pick_def Let_def split: if_splits)
  show "stale_after p' = stale_after p" by (rule pick_Some [OF assms(1)])
  consider "tied_count s = 1" | "1 < tied_count s" using pos by linarith
  then have "t = c_target (s ! (rotate_at p model mod tied_count s)) \<and>
      rotate_at p' model mod tied_count s = (rotate_at p model + 1) mod tied_count s"
  proof cases
    case 1
    then show ?thesis using assms ne by (auto simp: pick_def Let_def)
  next
    case 2
    then show ?thesis using assms ne by (auto simp: pick_def Let_def)
  qed
  then show "t = c_target (s ! (rotate_at p model mod tied_count s))"
    and "rotate_at p' model mod tied_count s = (rotate_at p model + 1) mod tied_count s" by simp_all
qed

lemma mod_shift_inj:
  "(r + a) mod n = (r + b) mod n \<Longrightarrow> a < n \<Longrightarrow> b < n \<Longrightarrow> a = (b::nat)"
proof -
  assume h: "(r + a) mod n = (r + b) mod n" "a < n" "b < n"
  then have "int (r + a) mod int n = int (r + b) mod int n" by (metis zmod_int)
  then have "int n dvd int (r + a) - int (r + b)" by (simp only: mod_eq_dvd_iff)
  then have "int n dvd int a - int b" by simp
  with h show ?thesis by (metis mod_eq_dvd_iff mod_less of_nat_eq_iff zmod_int)
qed

lemma serve_seq_nth:
  assumes "picker_inv p" and "k \<le> id_budget p" and "candidates V mv now p model [] = cs" "cs \<noteq> []"
  shows "serve_seq V mv now model k p =
     map (\<lambda>j. c_target (sort_key rank_of cs ! ((rotate_at p model + j) mod tied_count (sort_key rank_of cs)))) [0..<k]"
  using assms
proof (induction k arbitrary: p)
  case 0
  then show ?case by simp
next
  case (Suc k)
  let ?s = "sort_key rank_of cs"
  let ?n = "tied_count ?s"
  have n: "0 < ?n" by (simp add: tied_count_def)
  obtain t rid p' where pk: "pick V mv now model [] p = (Some (t, rid), p')"
    using pick_None [of V mv now model "[]" p] Suc.prems(3,4)
    by (cases "pick V mv now model [] p") (auto simp: prod_eq_iff)
  let ?q = "delete_held rid p'"
  note rots = pick_rotates [OF pk, of ?s, unfolded Suc.prems(3), OF refl]
  have t: "t = c_target (?s ! (rotate_at p model mod ?n))" by (rule rots(1))
  have rot: "rotate_at ?q model mod ?n = (rotate_at p model + 1) mod ?n"
    using rots(2) by (simp add: delete_held_def)
  have b: "0 < id_budget p" using Suc.prems(2) by simp
  have "held ?q = held p" by (rule pick_release_held [OF Suc.prems(1) pk])
  moreover have "stale_after ?q = stale_after p"
    using rots(3) by (simp add: delete_held_def)
  ultimately have "candidates V mv now ?q model [] = cs"
    using candidates_cong [of ?q p] Suc.prems(3) by simp
  moreover have "picker_inv ?q" by (rule release_inv [OF pick_inv(1) [OF Suc.prems(1) b pk]])
  moreover have "k \<le> id_budget ?q"
    using pick_inv(2) [OF Suc.prems(1) b pk] Suc.prems(2) by (simp add: release_budget)
  ultimately have IH: "serve_seq V mv now model k ?q =
      map (\<lambda>j. c_target (?s ! ((rotate_at ?q model + j) mod ?n))) [0..<k]"
    using Suc.IH Suc.prems(4) by blast
  have "(rotate_at ?q model + j) mod ?n = (rotate_at p model + Suc j) mod ?n" for j
    using rot by (metis add.assoc mod_add_left_eq plus_1_eq_Suc)
  with IH pk t show ?case
    by (simp add: map_upt_Suc del: upt_Suc)
qed

text \<open>C21: a full tie is served in rotation. Over as many requests as there are leaders, every node
  tied for the most free slots and the shortest round trip is used, and no other.\<close>

theorem round_robin:
  assumes "picker_inv p" and "tied_count (sort_key rank_of (candidates V mv now p model [])) \<le> id_budget p"
    and "candidates V mv now p model [] \<noteq> []"
  shows "set (serve_seq V mv now model (tied_count (sort_key rank_of (candidates V mv now p model []))) p) =
     c_target ` {c. leads (candidates V mv now p model []) c}"
proof -
  let ?cs = "candidates V mv now p model []"
  let ?s = "sort_key rank_of ?cs"
  let ?n = "tied_count ?s"
  let ?r = "rotate_at p model"
  have n: "0 < ?n" by (simp add: tied_count_def)
  have rot: "(\<lambda>j. (?r + j) mod ?n) ` {0..<?n} = {0..<?n}"
  proof (rule card_subset_eq)
    have "inj_on (\<lambda>j. (?r + j) mod ?n) {0..<?n}"
      by (rule inj_onI) (auto dest: mod_shift_inj)
    then show "card ((\<lambda>j. (?r + j) mod ?n) ` {0..<?n}) = card {0..<?n}" by (rule card_image)
  qed (use n in auto)
  have "set (serve_seq V mv now model ?n p) = (\<lambda>j. c_target (?s ! ((?r + j) mod ?n))) ` {0..<?n}"
    using serve_seq_nth [OF assms(1,2) refl assms(3)] by simp
  also have "\<dots> = (\<lambda>i. c_target (?s ! i)) ` ((\<lambda>j. (?r + j) mod ?n) ` {0..<?n})"
    by (simp add: image_image)
  also have "\<dots> = c_target ` ((!) ?s ` {0..<?n})" unfolding rot by (simp add: image_image)
  also have "(!) ?s ` {0..<?n} = {c. leads ?cs c}"
  proof
    show "(!) ?s ` {0..<?n} \<subseteq> {c. leads ?cs c}" using tied_leads(2) [OF assms(3) refl] by auto
    show "{c. leads ?cs c} \<subseteq> (!) ?s ` {0..<?n}"
    proof
      fix c assume "c \<in> {c. leads ?cs c}"
      then have "leads ?cs c" by simp
      from leads_tied [OF refl this] obtain i where "i < ?n" "?s ! i = c" by blast
      then show "c \<in> (!) ?s ` {0..<?n}" by (intro image_eqI [of _ _ i]) simp_all
    qed
  qed
  finally show ?thesis .
qed

theorem round_robin_witness:
  "set (serve_seq sample_viiwork sample_mesh sample_now ''m'' 2 sample_picker) =
     {sample_target ''a'', sample_target ''b''}"
proof -
  let ?cs = "candidates sample_viiwork sample_mesh sample_now sample_picker ''m'' []"
  have t: "tied_count (sort_key rank_of ?cs) = 2"
    unfolding sample_sorted by (simp add: sample_candidates tied_count_def)
  have ne: "?cs \<noteq> []" by (simp add: sample_candidates)
  have b: "tied_count (sort_key rank_of ?cs) \<le> id_budget sample_picker"
    unfolding t by (simp add: sample_picker_inv)
  have "{c. leads ?cs c} = set ?cs" by (auto simp: leads_def sample_candidates)
  with round_robin [OF sample_picker_inv(1) b ne, unfolded t] show ?thesis
    by (simp add: sample_candidates)
qed

section \<open>Properties of View\<close>

text \<open>The view node is a member that may be one. It is an alive node other than this process
  with a fresh report, at the address that report gives, and an operator's list is authoritative:
  the node is on it.\<close>

theorem view_serves:
  assumes "view_pick V mv now p = (Some t, p')"
  shows "can_view V mv now p (t_node t) t \<and> view p' = t_node t \<and>
     (view_nodes p \<noteq> [] \<longrightarrow> t_node t \<in> set (view_nodes p))"
proof -
  have node: "can_view V mv now p n u \<Longrightarrow> n = t_node u" for n u by (auto simp: can_view_def)
  have "view_nodes p \<noteq> [] \<longrightarrow> t_node t \<in> set (view_nodes p)"
    using assms
    by (auto simp: view_pick_def Let_def eligible_iff find_Some_iff dest!: node split: if_splits option.splits)
      (metis nth_mem)
  with view_pick_can_view [OF assms] show ?thesis by blast
qed

lemma sample_eligible:
  "eligible_views sample_viiwork sample_mesh sample_now sample_picker =
     [(''a'', sample_target ''a''), (''b'', sample_target ''b'')]"
  by (simp add: eligible_views_def routable_def sample_defs time_sub_def max_int64_def min_int64_def)

lemma sample_view:
  "view_pick sample_viiwork sample_mesh sample_now sample_picker =
     (Some (sample_target ''a''), sample_picker\<lparr>view := ''a''\<rparr>)"
  by (simp add: view_pick_def Let_def sample_eligible) (simp add: sample_picker_def new_picker_def)

theorem view_serves_witness:
  "can_view sample_viiwork sample_mesh sample_now sample_picker ''a'' (sample_target ''a'')"
  using view_serves [OF sample_view] by (simp add: sample_target_def)

text \<open>With an operator's list, the first listed name that is eligible wins, whatever was
  chosen before; with none eligible there is no view node.\<close>

theorem view_allowlist_order:
  assumes "view_nodes p = before_ns @ n # after_ns"
    and "\<forall>b \<in> set before_ns. \<forall>t. \<not> can_view V mv now p b t"
    and "can_view V mv now p n t"
  shows "fst (view_pick V mv now p) = Some t"
proof -
  let ?el = "eligible_views V mv now p"
  have ne: "?el \<noteq> []" using assms(3) by (auto simp: eligible_empty)
  have none: "map_of ?el b = None" if "b \<in> set before_ns" for b
    using that assms(2) eligible_iff by (metis not_None_eq)
  have some: "map_of ?el n = Some t" using assms(3) by (simp add: eligible_iff)
  have "find (\<lambda>n. map_of ?el n \<noteq> None) (before_ns @ n # after_ns) = Some n"
    using none some by (induction before_ns) auto
  with ne some assms(1) show ?thesis by (simp add: view_pick_def Let_def)
qed

theorem view_allowlist_order_witness:
  "fst (view_pick sample_viiwork sample_mesh sample_now (sample_picker\<lparr>view_nodes := [''zz'', ''b'']\<rparr>)) =
     Some (sample_target ''b'')"
proof (rule view_allowlist_order [of _ "[''zz'']" "''b''" "[]"])
  show "view_nodes (sample_picker\<lparr>view_nodes := [''zz'', ''b'']\<rparr>) = [''zz''] @ ''b'' # []" by simp
  show "\<forall>b \<in> set [''zz'']. \<forall>t. \<not> can_view sample_viiwork sample_mesh sample_now
      (sample_picker\<lparr>view_nodes := [''zz'', ''b'']\<rparr>) b t"
    by (simp add: can_view_def sample_mesh_def sample_member_def)
  show "can_view sample_viiwork sample_mesh sample_now
      (sample_picker\<lparr>view_nodes := [''zz'', ''b'']\<rparr>) ''b'' (sample_target ''b'')"
    by (simp add: can_view_def routable_def sample_defs time_sub_def max_int64_def min_int64_def)
qed

text \<open>Without a list the choice is sticky. A view node that is still eligible is kept, even
  when a lower name has appeared, so a browser's stream is not moved.\<close>

theorem view_sticky:
  assumes "view_nodes p = []" and "can_view V mv now p (view p) t"
  shows "view_pick V mv now p = (Some t, p)"
  using assms by (auto simp: view_pick_def Let_def eligible_empty eligible_iff [symmetric])

theorem view_sticky_witness:
  "view_pick sample_viiwork sample_mesh sample_now (sample_picker\<lparr>view := ''b''\<rparr>) =
     (Some (sample_target ''b''), sample_picker\<lparr>view := ''b''\<rparr>)"
  by (rule view_sticky)
    (simp_all add: can_view_def routable_def sample_defs time_sub_def max_int64_def min_int64_def)

end
