(* ===== verification/GoFloat.thy ===== *)
theory GoFloat
  imports Complex_Main "HOL-Library.Log_Nat"
begin

text \<open>
  Go's \<open>float64\<close>: IEEE binary64 with rounding to nearest, ties to even. A finite value is its
  rational, so the two zeros are one value; the program never divides by a zero nor prints one.
  The locale \<open>rounding\<close> holds what the limiter's arithmetic needs of the rounding.
\<close>

section \<open>Rounding to nearest, ties to even\<close>

definition rne :: "rat \<Rightarrow> int" where
  "rne m = (let f = \<lfloor>m\<rfloor>; d = m - of_int f
            in if d < 1 / 2 then f else if 1 / 2 < d then f + 1 else if even f then f else f + 1)"

text \<open>The binary exponent of a positive rational.\<close>

definition ilog2 :: "rat \<Rightarrow> int" where
  "ilog2 x = (case quotient_of x of (p, q) \<Rightarrow>
     (let e = bitlen p - bitlen q in if 2 powi e \<le> x then e else e - 1))"

text \<open>The exponent of the last place: 53 significant bits, and no bit below \<open>2 ^ - 1074\<close>.\<close>

definition ulp_exp :: "rat \<Rightarrow> int" where
  "ulp_exp x = max (ilog2 \<bar>x\<bar> - 52) (- 1074)"

definition round_even :: "rat \<Rightarrow> rat" where
  "round_even x = (if x = 0 then 0 else of_int (rne (x / 2 powi ulp_exp x)) * 2 powi ulp_exp x)"

lemma rne_iff: "rne m = n \<longleftrightarrow> \<bar>m - of_int n\<bar> < 1 / 2 \<or> \<bar>m - of_int n\<bar> = 1 / 2 \<and> even n"
proof -
  have fl: "of_int \<lfloor>m\<rfloor> \<le> m" "m < of_int \<lfloor>m\<rfloor> + 1" "\<not> m < of_int \<lfloor>m\<rfloor>" by linarith+
  have sound: "\<bar>m - of_int (rne m)\<bar> < 1 / 2 \<or> \<bar>m - of_int (rne m)\<bar> = 1 / 2 \<and> even (rne m)"
  proof -
    define d where "d = m - of_int \<lfloor>m\<rfloor>"
    have d: "0 \<le> d" "d < 1" "m = of_int \<lfloor>m\<rfloor> + d" using fl by (simp_all add: d_def)
    have "rne m = (if d < 1 / 2 \<or> d = 1 / 2 \<and> even \<lfloor>m\<rfloor> then \<lfloor>m\<rfloor> else \<lfloor>m\<rfloor> + 1)"
      by (auto simp: rne_def Let_def d_def)
    moreover have "\<bar>m - of_int \<lfloor>m\<rfloor>\<bar> = d" "\<bar>m - of_int (\<lfloor>m\<rfloor> + 1)\<bar> = 1 - d"
      using d(1,2) unfolding d_def [symmetric] by (simp_all add: d_def [symmetric] diff_diff_eq [symmetric] abs_if)
    ultimately show ?thesis by auto
  qed
  have uniq: "a = b"
    if a: "\<bar>m - of_int a\<bar> < 1 / 2 \<or> \<bar>m - of_int a\<bar> = 1 / 2 \<and> even a"
      and b: "\<bar>m - of_int b\<bar> < 1 / 2 \<or> \<bar>m - of_int b\<bar> = 1 / 2 \<and> even b" for a b :: int
  proof (rule ccontr)
    assume "a \<noteq> b"
    have "\<bar>rat_of_int a - of_int b\<bar> \<le> 1" using a b by (auto simp: abs_if split: if_splits)
    then have "\<bar>a - b\<bar> \<le> 1" by (metis of_int_abs of_int_diff of_int_le_1_iff)
    with \<open>a \<noteq> b\<close> have "a = b + 1 \<or> b = a + 1" by linarith
    with a b show False by (auto simp: abs_if split: if_splits)
  qed
  show ?thesis using sound uniq by blast
qed

lemma rne_near: "\<bar>m - of_int (rne m)\<bar> \<le> 1 / 2"
  using rne_iff [of m "rne m"] by auto

lemma rne_minus: "rne (- m) = - rne m"
  using rne_iff [of m "rne m"] by (subst rne_iff) (auto simp: abs_if split: if_splits)

lemma rne_int [simp]: "rne (of_int n) = n"
  by (simp add: rne_iff)

lemma rne_mono:
  assumes "a \<le> b"
  shows "rne a \<le> rne b"
proof (rule ccontr)
  assume "\<not> rne a \<le> rne b"
  then have "rne b + 1 \<le> rne a" by simp
  then have "rat_of_int (rne b) + 1 \<le> of_int (rne a)" by (metis of_int_1 of_int_add of_int_le_iff)
  with rne_near [of a] rne_near [of b] assms have e: "a = b" "of_int (rne a) = rat_of_int (rne b) + 1"
    by (auto simp: abs_if split: if_splits)
  then show False using \<open>rne b + 1 \<le> rne a\<close> by simp
qed

lemma rne_le_int: "m \<le> of_int n \<Longrightarrow> rne m \<le> n"
  using rne_mono [of m "of_int n"] by simp

lemma rne_ge_int: "of_int n \<le> m \<Longrightarrow> n \<le> rne m"
  using rne_mono [of "of_int n" m] by simp

section \<open>The exponent\<close>

lemma powi_pos: "0 < (2 :: rat) powi e" by (simp add: zero_less_power_int)

lemma powi_nat: "0 \<le> n \<Longrightarrow> (2 :: rat) powi n = of_int (2 ^ nat n)"
  by (simp add: power_int_def)

lemma bitlen_rat:
  assumes "0 < p"
  shows "2 powi (bitlen p - 1) \<le> rat_of_int p" and "rat_of_int p < 2 powi bitlen p"
proof -
  have l: "1 \<le> bitlen p"
    using assms bitlen_eq_zero_iff [of p] bitlen_nonneg [of p] by linarith
  note b = bitlen_bounds [OF assms]
  show "2 powi (bitlen p - 1) \<le> rat_of_int p"
    using powi_nat [of "bitlen p - 1"] l b by (simp only: of_int_le_iff diff_ge_0_iff_ge)
  show "rat_of_int p < 2 powi bitlen p"
    unfolding powi_nat [OF bitlen_nonneg] using b by (simp only: of_int_less_iff)
qed

lemma ilog2_bounds:
  assumes "0 < x"
  shows "2 powi ilog2 x \<le> x" and "x < 2 powi (ilog2 x + 1)"
proof -
  obtain p q where pq: "quotient_of x = (p, q)" by (cases "quotient_of x")
  then have q: "0 < q" and x: "x = of_int p / of_int q"
    by (simp_all add: quotient_of_denom_pos quotient_of_div)
  then have p: "0 < p" using assms by (simp add: zero_less_divide_iff)
  let ?e = "bitlen p - bitlen q"
  have "x < 2 powi bitlen p / 2 powi (bitlen q - 1)"
    unfolding x using bitlen_rat [OF p] bitlen_rat [OF q] p powi_pos by (intro frac_less) auto
  also have "\<dots> = 2 powi (bitlen p - (bitlen q - 1))" by (rule power_int_diff [symmetric]) simp
  finally have hi: "x < 2 powi (?e + 1)" by (simp add: algebra_simps)
  have "2 powi (?e - 1) = (2 powi (bitlen p - 1) :: rat) / 2 powi bitlen q"
    by (subst power_int_diff [symmetric]) (simp_all add: algebra_simps)
  also have "\<dots> \<le> x"
    unfolding x using bitlen_rat [OF p] bitlen_rat [OF q] p q by (intro frac_le) auto
  finally have lo: "2 powi (?e - 1) \<le> x" .
  show "2 powi ilog2 x \<le> x" "x < 2 powi (ilog2 x + 1)"
    using hi lo by (auto simp: ilog2_def pq Let_def)
qed

lemma powi_le_iff: "(2 :: rat) powi a \<le> 2 powi b \<longleftrightarrow> a \<le> b"
  using power_int_strict_increasing [of b a "2 :: rat"] power_int_increasing [of a b "2 :: rat"]
  by (cases "a \<le> b") auto

lemma powi_less_iff: "(2 :: rat) powi a < 2 powi b \<longleftrightarrow> a < b"
  using powi_le_iff [of b a] by (simp add: not_le [symmetric])

lemma ilog2_mono: "0 < x \<Longrightarrow> x \<le> y \<Longrightarrow> ilog2 x \<le> ilog2 y"
proof -
  assume x: "0 < x" "x \<le> y"
  have "2 powi ilog2 x \<le> x" using ilog2_bounds(1) [OF x(1)] .
  also have "x \<le> y" by fact
  also have "y < 2 powi (ilog2 y + 1)" using ilog2_bounds(2) [of y] x by simp
  finally show ?thesis by (simp add: powi_less_iff)
qed

lemma powi_split: "(2 :: rat) powi a = of_int (2 ^ nat (a - b)) * 2 powi b" if "b \<le> a"
proof -
  have "(2 :: rat) powi a = 2 powi (a - b) * 2 powi b"
    by (subst power_int_add [symmetric]) simp_all
  then show ?thesis using that by (simp add: powi_nat)
qed

section \<open>Rounding laws\<close>

lemma round_even_minus: "round_even (- x) = - round_even x"
  using rne_minus [of "x / 2 powi ulp_exp x"] by (simp add: round_even_def ulp_exp_def)

lemma round_even_nonneg: "0 \<le> x \<Longrightarrow> 0 \<le> round_even x"
  using rne_ge_int [of 0 "x / 2 powi ulp_exp x"] powi_pos [of "ulp_exp x"]
  by (auto simp: round_even_def intro!: mult_nonneg_nonneg)

text \<open>A multiple of a power of two with at most 53 significant bits is kept.\<close>

lemma round_even_exact:
  assumes k: "\<bar>k\<bar> \<le> 2 ^ 53" and t: "- 1074 \<le> t"
  shows "round_even (of_int k * 2 powi t) = of_int k * 2 powi t"
proof (cases "k = 0")
  case True
  then show ?thesis by (simp add: round_even_def)
next
  case False
  let ?v = "rat_of_int k * 2 powi t"
  let ?s = "ulp_exp ?v"
  have v: "0 < \<bar>?v\<bar>" using False powi_pos [of t] by simp
  have "\<exists>j. ?v = of_int j * 2 powi ?s"
  proof (cases "?s \<le> t")
    case True
    from powi_split [OF True] have "?v = of_int (k * 2 ^ nat (t - ?s)) * 2 powi ?s" by (simp only: of_int_mult mult.assoc)
    then show ?thesis by blast
  next
    case False
    then have s: "?s = ilog2 \<bar>?v\<bar> - 52" using t by (auto simp: ulp_exp_def)
    have "2 powi ilog2 \<bar>?v\<bar> \<le> \<bar>?v\<bar>" by (rule ilog2_bounds(1) [OF v])
    also have "\<bar>?v\<bar> \<le> of_int (2 ^ 53) * 2 powi t"
      using k powi_pos [of t] by (simp add: abs_mult) 
    also have "\<dots> = 2 powi (t + 53)" using powi_split [of t "t + 53"] by simp
    finally have "ilog2 \<bar>?v\<bar> \<le> t + 53" by (simp add: powi_le_iff)
    with s False have e: "?s = t + 1" "ilog2 \<bar>?v\<bar> = t + 53" by simp_all
    have "2 powi (t + 53) \<le> \<bar>?v\<bar>" using ilog2_bounds(1) [OF v] e by simp
    then have "of_int (2 ^ 53) * 2 powi t \<le> of_int \<bar>k\<bar> * (2 powi t :: rat)"
      using powi_split [of t "t + 53"] by (simp add: abs_mult)
    then have "(2 ^ 53 :: int) \<le> \<bar>k\<bar>" by (simp only: mult_le_cancel_right_pos [OF powi_pos] of_int_le_iff)
    with k have "k = 2 ^ 53 \<or> k = - (2 ^ 53)" by linarith
    moreover have "(2 :: rat) powi (t + 1) = 2 * 2 powi t" by (simp add: power_int_add)
    ultimately show ?thesis unfolding e(1)
      by (elim disjE; intro exI [of _ "sgn k * 2 ^ 52"]) simp_all
  qed
  then obtain j where j: "?v = of_int j * 2 powi ?s" by blast
  then have "?v / 2 powi ?s = of_int j" using powi_pos [of ?s] by (simp add: field_simps)
  then have "round_even ?v = of_int j * 2 powi ?s" using v by (simp add: round_even_def)
  then show ?thesis using j by simp
qed

lemma round_even_mono_pos:
  assumes "0 < x" "x \<le> y"
  shows "round_even x \<le> round_even y"
proof -
  let ?a = "ulp_exp x" and ?b = "ulp_exp y"
  have y: "0 < y" using assms by simp
  have ab: "?a \<le> ?b" using ilog2_mono [OF assms] assms y by (simp add: ulp_exp_def)
  show ?thesis
  proof (cases "?a = ?b")
    case True
    have "x / 2 powi ?b \<le> y / 2 powi ?b" using assms(2) powi_pos [of ?b] by (simp add: divide_right_mono)
    from rne_mono [OF this] True powi_pos [of ?b] assms y show ?thesis
      by (simp add: round_even_def)
  next
    case False
    let ?e = "ilog2 y"
    have b: "?b = ?e - 52" and ae: "?a < ?e - 52" "ilog2 x < ?e"
      using False ab assms y by (auto simp: ulp_exp_def)
    have "x < 2 powi (ilog2 x + 1)" by (rule ilog2_bounds(2) [OF assms(1)])
    also have "\<dots> \<le> 2 powi ?e" using ae by (simp add: powi_le_iff)
    finally have "x / 2 powi ?a \<le> of_int (2 ^ nat (?e - ?a))"
      using powi_split [of ?a ?e] ae powi_pos [of ?a] by (simp add: field_simps)
    from rne_le_int [OF this] have "of_int (rne (x / 2 powi ?a)) * 2 powi ?a \<le> of_int (2 ^ nat (?e - ?a)) * (2 powi ?a :: rat)"
      by (simp only: mult_le_cancel_right_pos [OF powi_pos] of_int_le_iff)
    also have "\<dots> = 2 powi ?e" using powi_split [of ?a ?e] ae by simp
    finally have lo: "round_even x \<le> 2 powi ?e" using assms by (simp add: round_even_def)
    have s: "(2 :: rat) powi ?e = of_int (2 ^ 52) * 2 powi ?b" using powi_split [of ?b ?e] b by simp
    have "2 powi ?e \<le> y" by (rule ilog2_bounds(1) [OF y])
    then have "of_int (2 ^ 52) \<le> y / 2 powi ?b"
      using s powi_pos [of ?b] by (simp add: field_simps)
    from rne_ge_int [OF this] have "of_int (2 ^ 52) * 2 powi ?b \<le> of_int (rne (y / 2 powi ?b)) * (2 powi ?b :: rat)"
      by (simp only: mult_le_cancel_right_pos [OF powi_pos] of_int_le_iff)
    then have "2 powi ?e \<le> round_even y" using s y by (simp add: round_even_def)
    with lo show ?thesis by simp
  qed
qed

lemma round_even_mono: "x \<le> y \<Longrightarrow> round_even x \<le> round_even y"
proof -
  assume xy: "x \<le> y"
  consider "0 < x" | "x \<le> 0" "0 \<le> y" | "y < 0" by linarith
  then show ?thesis
  proof cases
    case 1
    then show ?thesis using round_even_mono_pos xy by blast
  next
    case 2
    then show ?thesis using round_even_nonneg [of y] round_even_nonneg [of "- x"]
      by (simp add: round_even_minus)
  next
    case 3
    then show ?thesis using round_even_mono_pos [of "- y" "- x"] xy by (simp add: round_even_minus)
  qed
qed

text \<open>Every rounded value has at most 53 significant bits.\<close>

lemma round_even_idem: "round_even (round_even x) = round_even x"
proof (cases "x = 0")
  case True
  then show ?thesis by (simp add: round_even_def)
next
  case False
  let ?s = "ulp_exp x"
  have "\<bar>x\<bar> < 2 powi (ilog2 \<bar>x\<bar> + 1)" using ilog2_bounds(2) [of "\<bar>x\<bar>"] False by simp
  also have "\<dots> \<le> 2 powi (?s + 53)" by (simp add: powi_le_iff ulp_exp_def)
  also have "\<dots> = of_int (2 ^ 53) * 2 powi ?s" using powi_split [of ?s "?s + 53"] by simp
  finally have b: "\<bar>x / 2 powi ?s\<bar> \<le> of_int (2 ^ 53)"
    using powi_pos [of ?s] by (simp add: abs_divide field_simps)
  have h: "x / 2 powi ?s \<le> of_int (2 ^ 53)" "of_int (- (2 ^ 53)) \<le> x / 2 powi ?s"
    using b unfolding abs_le_iff by (simp_all only: of_int_minus, linarith+)
  from rne_le_int [OF h(1)] rne_ge_int [OF h(2)]
  have "rne (x / 2 powi ?s) \<le> 2 ^ 53 \<and> - (2 ^ 53) \<le> rne (x / 2 powi ?s)" ..
  then have "\<bar>rne (x / 2 powi ?s)\<bar> \<le> 2 ^ 53" by linarith
  moreover have "- 1074 \<le> ?s" by (simp add: ulp_exp_def)
  ultimately show ?thesis
    using round_even_exact [of "rne (x / 2 powi ?s)" ?s] False by (simp add: round_even_def)
qed

section \<open>The interface\<close>

text \<open>What proofs about \<open>float64\<close> code use of the rounding.\<close>

locale rounding =
  fixes rnd :: "rat \<Rightarrow> rat"
  assumes mono: "x \<le> y \<Longrightarrow> rnd x \<le> rnd y"
    and int_exact: "\<bar>n\<bar> \<le> 2 ^ 53 \<Longrightarrow> rnd (of_int n) = of_int n"
    and idem: "rnd (rnd x) = rnd x"
begin

lemma zero: "rnd 0 = 0" using int_exact [of 0] by simp

lemma one: "rnd 1 = 1" using int_exact [of 1] by simp

lemma nonneg: "0 \<le> x \<Longrightarrow> 0 \<le> rnd x" using mono [of 0 x] zero by simp

lemma le_fixed: "x \<le> y \<Longrightarrow> rnd y = y \<Longrightarrow> rnd x \<le> y" using mono [of x y] by simp

lemma ge_fixed: "y \<le> x \<Longrightarrow> rnd y = y \<Longrightarrow> y \<le> rnd x" using mono [of y x] by simp

end

interpretation binary64: rounding round_even
proof unfold_locales
  show "round_even (of_int n) = of_int n" if "\<bar>n\<bar> \<le> 2 ^ 53" for n
    using round_even_exact [OF that, of 0] by simp
qed (rule round_even_mono round_even_idem; assumption?)+

section \<open>Values and operations\<close>

datatype float64 = NaN | Inf (neg: bool) | Fin rat

definition fl :: "rat \<Rightarrow> float64" where
  "fl x = (let r = round_even x in if 2 ^ 1024 \<le> \<bar>r\<bar> then Inf (r < 0) else Fin r)"

definition float_of_int :: "int \<Rightarrow> float64" where
  "float_of_int n = fl (of_int n)"

fun fadd :: "float64 \<Rightarrow> float64 \<Rightarrow> float64" where
  "fadd (Fin x) (Fin y) = fl (x + y)"
| "fadd (Inf a) (Fin y) = Inf a"
| "fadd (Fin x) (Inf b) = Inf b"
| "fadd (Inf a) (Inf b) = (if a = b then Inf a else NaN)"
| "fadd _ _ = NaN"

fun fneg :: "float64 \<Rightarrow> float64" where
  "fneg (Fin x) = Fin (- x)"
| "fneg (Inf a) = Inf (\<not> a)"
| "fneg NaN = NaN"

definition fsub :: "float64 \<Rightarrow> float64 \<Rightarrow> float64" where
  "fsub x y = fadd x (fneg y)"

fun fmul :: "float64 \<Rightarrow> float64 \<Rightarrow> float64" where
  "fmul (Fin x) (Fin y) = fl (x * y)"
| "fmul (Inf a) (Fin y) = (if y = 0 then NaN else Inf (a \<noteq> (y < 0)))"
| "fmul (Fin x) (Inf b) = (if x = 0 then NaN else Inf (b \<noteq> (x < 0)))"
| "fmul (Inf a) (Inf b) = Inf (a \<noteq> b)"
| "fmul _ _ = NaN"

fun fdiv :: "float64 \<Rightarrow> float64 \<Rightarrow> float64" where
  "fdiv (Fin x) (Fin y) = (if y = 0 then (if x = 0 then NaN else Inf (x < 0)) else fl (x / y))"
| "fdiv (Inf a) (Fin y) = Inf (a \<noteq> (y < 0))"
| "fdiv (Fin x) (Inf b) = Fin 0"
| "fdiv _ _ = NaN"

text \<open>Comparisons are false as soon as a NaN takes part.\<close>

fun flt :: "float64 \<Rightarrow> float64 \<Rightarrow> bool" where
  "flt (Fin x) (Fin y) = (x < y)"
| "flt (Inf a) (Fin y) = a"
| "flt (Fin x) (Inf b) = (\<not> b)"
| "flt (Inf a) (Inf b) = (a \<and> \<not> b)"
| "flt _ _ = False"

definition fle :: "float64 \<Rightarrow> float64 \<Rightarrow> bool" where
  "fle x y \<longleftrightarrow> flt x y \<or> (x = y \<and> x \<noteq> NaN)"

text \<open>
  The conversion to a 64-bit integer truncates towards zero. For a NaN and out of range the
  language leaves the result to the implementation: \<open>oor\<close>.
\<close>

definition float_to_int64 :: "(float64 \<Rightarrow> int) \<Rightarrow> float64 \<Rightarrow> int" where
  "float_to_int64 oor x =
     (case x of
        Fin r \<Rightarrow> (let n = (if 0 \<le> r then \<lfloor>r\<rfloor> else \<lceil>r\<rceil>)
                  in if - (2 ^ 63) \<le> n \<and> n < 2 ^ 63 then n else oor x)
      | _ \<Rightarrow> oor x)"

text \<open>\<open>Duration.Seconds\<close>: whole seconds and the rest are converted apart.\<close>

definition dur_seconds :: "int \<Rightarrow> float64" where
  "dur_seconds d =
     (let sec = sgn d * (\<bar>d\<bar> div 1000000000); nsec = sgn d * (\<bar>d\<bar> mod 1000000000)
      in fadd (float_of_int sec) (fdiv (float_of_int nsec) (Fin 1000000000)))"

text \<open>A float that the rounding has produced.\<close>

definition is_float :: "float64 \<Rightarrow> bool" where
  "is_float x \<longleftrightarrow> (case x of Fin r \<Rightarrow> round_even r = r \<and> \<bar>r\<bar> < 2 ^ 1024 | _ \<Rightarrow> True)"

lemma is_float_fl: "is_float (fl x)"
  by (simp add: fl_def is_float_def Let_def binary64.idem)

lemma fl_int: "\<bar>n\<bar> \<le> 2 ^ 53 \<Longrightarrow> fl (of_int n) = Fin (of_int n)"
proof -
  assume n: "\<bar>n\<bar> \<le> 2 ^ 53"
  have "\<bar>rat_of_int n\<bar> \<le> 2 ^ 53" using n by (metis of_int_abs of_int_le_iff of_int_numeral of_int_power)
  also have "(2 :: rat) ^ 53 < 2 ^ 1024" by (rule power_strict_increasing) simp_all
  finally show ?thesis using binary64.int_exact [OF n] by (simp add: fl_def Let_def)
qed

end
