(* ===== verification/RateLimit.thy ===== *)
theory RateLimit
  imports GoFloat GoNum
begin

text \<open>
  internal/ratelimit/ratelimit.go: one token bucket per key label, refilled lazily. The mutex
  makes \<open>Allow\<close> one atomic step; the clock is read before it is taken, so the instants of
  successive steps need not be ordered.
\<close>

section \<open>State\<close>

record bucket =
  tokens :: float64
  last_at :: time

text \<open>\<open>buckets\<close> is a Go map read and written by key only.\<close>

record limiter =
  rate_per_sec :: float64
  burst_cap :: float64
  buckets :: "string \<Rightarrow> bucket option"

definition new_limiter :: "float64 \<Rightarrow> int \<Rightarrow> limiter" where
  "new_limiter per_minute burst =
     (if fle per_minute (Fin 0) then \<lparr>rate_per_sec = Fin 0, burst_cap = Fin 0, buckets = (\<lambda>_. None)\<rparr>
      else
        (let b = float_of_int burst
         in \<lparr>rate_per_sec = fdiv per_minute (Fin 60),
             burst_cap = (if flt b (Fin 1) then Fin 1 else b), buckets = (\<lambda>_. None)\<rparr>))"

section \<open>Allow\<close>

text \<open>The tokens after the refill for the time since the bucket was last touched.\<close>

definition refill :: "limiter \<Rightarrow> bucket \<Rightarrow> time \<Rightarrow> float64" where
  "refill l b now =
     (let elapsed = time_sub now (last_at b)
      in if elapsed > 0 then
           (let t = fadd (tokens b) (fmul (dur_seconds elapsed) (rate_per_sec l))
            in if flt (burst_cap l) t then burst_cap l else t)
         else tokens b)"

text \<open>
  A nil receiver is \<open>None\<close>. \<open>oor\<close> is the implementation's float-to-integer conversion for
  values out of range.
\<close>

definition allow ::
    "(float64 \<Rightarrow> int) \<Rightarrow> limiter option \<Rightarrow> string \<Rightarrow> time \<Rightarrow> (bool \<times> duration) \<times> limiter option" where
  "allow oor lopt label now =
     (case lopt of
        None \<Rightarrow> ((True, 0), None)
      | Some l \<Rightarrow>
          if fle (rate_per_sec l) (Fin 0) then ((True, 0), Some l)
          else
            (let b = (case buckets l label of None \<Rightarrow> \<lparr>tokens = burst_cap l, last_at = now\<rparr> | Some b \<Rightarrow> b);
                 t = refill l b now
             in if fle (Fin 1) t then
                  ((True, 0),
                   Some (l\<lparr>buckets := (buckets l)(label \<mapsto> \<lparr>tokens = fsub t (Fin 1), last_at = now\<rparr>)\<rparr>))
                else
                  ((False, float_to_int64 oor
                      (fmul (fdiv (fsub (Fin 1) t) (rate_per_sec l)) (Fin (of_int second)))),
                   Some (l\<lparr>buckets := (buckets l)(label \<mapsto> \<lparr>tokens = t, last_at = now\<rparr>)\<rparr>))))"

section \<open>Non-negative floats\<close>

fun fnn :: "float64 \<Rightarrow> bool" where
  "fnn (Fin r) = (0 \<le> r)"
| "fnn (Inf s) = (\<not> s)"
| "fnn NaN = False"

lemma fnn_fl: "0 \<le> x \<Longrightarrow> fnn (fl x)"
  using binary64.nonneg [of x] by (simp add: fl_def Let_def)

lemma fnn_fadd: "fnn x \<Longrightarrow> fnn y \<Longrightarrow> fnn (fadd x y)"
  by (cases x; cases y) (simp_all add: fnn_fl)

lemma fnn_fmul: "0 < s \<Longrightarrow> fnn y \<Longrightarrow> fnn (fmul (Fin s) y)"
  by (cases y) (simp_all add: fnn_fl)

lemma fle_iff [simp]:
  "fle (Fin x) (Fin y) \<longleftrightarrow> x \<le> y" "fle (Inf a) (Fin y) \<longleftrightarrow> a" "fle (Fin x) (Inf b) \<longleftrightarrow> \<not> b"
  by (auto simp: fle_def)

lemma fle_NaN [simp]: "\<not> fle NaN x" "\<not> fle x NaN"
  by (cases x; simp add: fle_def)+

lemma fl_small: "\<bar>x\<bar> \<le> 2 ^ 53 \<Longrightarrow> fl x = Fin (round_even x)"
proof -
  assume x: "\<bar>x\<bar> \<le> 2 ^ 53"
  have e: "round_even (2 ^ 53) = 2 ^ 53" "round_even (- (2 ^ 53)) = - (2 ^ 53)"
    using binary64.int_exact [of "2 ^ 53"] binary64.int_exact [of "- (2 ^ 53)"] by simp_all
  have "round_even x \<le> 2 ^ 53" "- (2 ^ 53) \<le> round_even x"
    using x binary64.le_fixed [OF _ e(1)] binary64.ge_fixed [OF _ e(2)] by (simp_all add: abs_le_iff)
  then have "\<bar>round_even x\<bar> \<le> 2 ^ 53" by (simp add: abs_le_iff)
  also have "(2 :: rat) ^ 53 < 2 ^ 1024" by (rule power_strict_increasing) simp_all
  finally show ?thesis by (simp add: fl_def Let_def)
qed

text \<open>The sum that \<open>Duration.Seconds\<close> rounds last: the whole seconds and the rounded rest.\<close>

definition second_parts :: "int \<Rightarrow> rat" where
  "second_parts d = of_int (d div 1000000000) + round_even (of_int (d mod 1000000000) / 1000000000)"

lemma dur_seconds_value:
  assumes "0 < d" "in_int64 d"
  shows "dur_seconds d = Fin (round_even (second_parts d))" and "2 powi - 30 \<le> second_parts d"
proof -
  let ?sec = "d div 1000000000" and ?ns = "d mod 1000000000"
  have dd: "d = ?sec * 1000000000 + ?ns" by simp
  have ns: "0 \<le> ?ns" "?ns < 1000000000" by simp_all
  have "0 \<le> ?sec" using assms(1) by simp
  moreover have "?sec \<le> 2 ^ 34" 
  proof -
    have "?sec * 1000000000 \<le> 2 ^ 63 - 1" using assms(2) dd ns unfolding in_int64_def max_int64_def by linarith
    then show ?thesis by simp
  qed
  moreover have "0 < ?sec \<or> 1 \<le> ?ns" using assms(1) dd ns by linarith
  ultimately have s: "0 \<le> ?sec" "?sec \<le> 2 ^ 34" "0 \<le> ?ns" "?ns < 1000000000" "0 < ?sec \<or> 1 \<le> ?ns"
    using ns by blast+
  have f: "float_of_int ?sec = Fin (of_int ?sec)" "float_of_int ?ns = Fin (of_int ?ns)"
    using s by (simp_all add: float_of_int_def fl_int)
  let ?q = "rat_of_int ?ns / 1000000000"
  have q: "0 \<le> ?q" "?q \<le> 1" "1 \<le> ?ns \<Longrightarrow> 1 / 1000000000 \<le> ?q"
    using s by (simp_all add: field_simps)
  have r: "0 \<le> round_even ?q" "round_even ?q \<le> 1"
    using binary64.nonneg [OF q(1)] binary64.le_fixed [OF q(2) binary64.one] .
  have p30: "round_even (2 powi - 30) = 2 powi - 30" using round_even_exact [of 1 "- 30"] by simp
  have p1: "(2 :: rat) powi - 30 \<le> 1" using powi_le_iff [of "- 30" 0] by simp
  have "2 powi - 30 \<le> round_even ?q" if "1 \<le> ?ns"
  proof (rule binary64.ge_fixed [OF _ p30])
    have "(2 :: rat) powi - 30 \<le> 1 / 1000000000" by (simp add: power_int_def power_divide)
    with q(3) [OF that] show "2 powi - 30 \<le> ?q" by simp
  qed
  moreover have "1 \<le> rat_of_int ?sec" if "0 < ?sec" using that by (metis of_int_1_le_iff zless_imp_add1_zle add.commute add_0)
  moreover have "0 \<le> rat_of_int ?sec" using s(1) by simp
  ultimately show "2 powi - 30 \<le> second_parts d" using s(5) r(1) p1 unfolding second_parts_def by fastforce
  have "fdiv (Fin (of_int ?ns)) (Fin 1000000000) = Fin (round_even ?q)"
    using q by (simp add: fl_small)
  moreover have "rat_of_int ?sec \<le> 2 ^ 34" using s(2) by (metis of_int_le_iff of_int_numeral of_int_power)
  then have "\<bar>of_int ?sec + round_even ?q\<bar> \<le> 2 ^ 53" using s(1) r by (simp add: abs_le_iff)
  ultimately show "dur_seconds d = Fin (round_even (second_parts d))"
    using assms f by (simp add: dur_seconds_def Let_def fl_small second_parts_def)
qed

text \<open>A positive duration is a positive number of seconds, even a single nanosecond.\<close>

lemma dur_seconds_pos:
  assumes "0 < d" "in_int64 d"
  shows "\<exists>s > 0. dur_seconds d = Fin s"
proof -
  have "round_even (2 powi - 30) = 2 powi - 30" using round_even_exact [of 1 "- 30"] by simp
  from binary64.ge_fixed [OF dur_seconds_value(2) [OF assms] this] powi_pos [of "- 30"]
  have "0 < round_even (second_parts d)" by (rule less_le_trans [rotated])
  with dur_seconds_value(1) [OF assms] show ?thesis by blast
qed

section \<open>The invariant\<close>

text \<open>
  A capacity of at least one whole token that rounding keeps, a rate that is a number, and buckets
  between empty and full.
\<close>

definition bucket_ok :: "rat \<Rightarrow> bucket \<Rightarrow> bool" where
  "bucket_ok B b \<longleftrightarrow> (\<exists>t. tokens b = Fin t \<and> 0 \<le> t \<and> t \<le> B)"

definition limiter_ok :: "rat \<Rightarrow> limiter \<Rightarrow> bool" where
  "limiter_ok B l \<longleftrightarrow>
     1 \<le> B \<and> B < 2 ^ 1024 \<and> round_even B = B \<and> burst_cap l = Fin B \<and> fnn (rate_per_sec l) \<and>
     (\<forall>label b. buckets l label = Some b \<longrightarrow> bucket_ok B b)"

lemma fl_between:
  assumes "round_even a = a" "round_even b = b" "a \<le> x" "x \<le> b" "0 \<le> a" "b < 2 ^ 1024"
  shows "\<exists>r. fl x = Fin r \<and> a \<le> r \<and> r \<le> b"
proof -
  have "a \<le> round_even x" "round_even x \<le> b"
    using assms binary64.ge_fixed binary64.le_fixed by blast+
  with assms show ?thesis by (auto simp: fl_def Let_def)
qed

lemma float_of_int64:
  assumes "in_int64 n" "1 \<le> n"
  shows "\<exists>r. float_of_int n = Fin r \<and> 1 \<le> r \<and> r < 2 ^ 1024 \<and> round_even r = r"
proof -
  have "round_even (2 powi 63) = 2 powi 63" using round_even_exact [of 1 63] by simp
  moreover have "(2 :: rat) powi 63 = 2 ^ 63" by (simp add: power_int_def)
  ultimately have e: "round_even (2 ^ 63) = 2 ^ 63" by simp
  have "rat_of_int n \<le> of_int (2 ^ 63)" unfolding of_int_le_iff using assms(1) by (simp add: in_int64_def max_int64_def)
  moreover have "1 \<le> rat_of_int n" using assms(2) by simp
  moreover have p: "(2 :: rat) ^ 63 < 2 ^ 1024" by (rule power_strict_increasing) simp_all
  ultimately obtain r where "fl (of_int n) = Fin r" "1 \<le> r" "r \<le> 2 ^ 63"
    using fl_between [OF binary64.one e, of "of_int n"] by auto
  moreover from this have "round_even r = r" using is_float_fl [of "of_int n"] by (simp add: is_float_def)
  ultimately show ?thesis using p by (auto simp: float_of_int_def)
qed

lemma new_limiter_ok:
  assumes "per_minute \<noteq> NaN" "in_int64 burst"
  shows "fle per_minute (Fin 0) \<or> (\<exists>B. limiter_ok B (new_limiter per_minute burst))"
proof (cases "fle per_minute (Fin 0)")
  case False
  then have "fnn per_minute" using assms(1) by (cases per_minute) auto
  then have r: "fnn (fdiv per_minute (Fin 60))"
    by (cases per_minute) (simp_all add: fnn_fl)
  show ?thesis
  proof (cases "1 \<le> burst")
    case True
    from float_of_int64 [OF assms(2) True] obtain B where "float_of_int burst = Fin B" "1 \<le> B"
      "B < 2 ^ 1024" "round_even B = B" by blast
    with False r show ?thesis by (auto simp: new_limiter_def limiter_ok_def Let_def)
  next
    case nb: False
    then have "rat_of_int burst \<le> 0" by simp
    from binary64.mono [OF this] have "round_even (of_int burst) \<le> 0" by (simp add: binary64.zero)
    then have "flt (float_of_int burst) (Fin 1)" by (auto simp: float_of_int_def fl_def Let_def abs_if)
    moreover have "(1 :: rat) < 2 ^ 1024" by simp
    ultimately have "limiter_ok 1 (new_limiter per_minute burst)"
      using False r binary64.one by (simp add: new_limiter_def limiter_ok_def Let_def)
    then show ?thesis by blast
  qed
qed simp

lemma time_sub_int64: "in_int64 (time_sub a b)"
  by (simp add: time_sub_def in_int64_def max_int64_def min_int64_def)

lemma refill_bounds:
  assumes ok: "limiter_ok B l" and b: "bucket_ok B b"
  shows "\<exists>t. refill l b now = Fin t \<and> 0 \<le> t \<and> t \<le> B"
proof (cases "time_sub now (last_at b) > 0")
  case False
  with b show ?thesis by (auto simp: refill_def Let_def bucket_ok_def)
next
  case True
  from dur_seconds_pos [OF True time_sub_int64] obtain s
    where s: "0 < s" "dur_seconds (time_sub now (last_at b)) = Fin s" by blast
  let ?t = "fadd (tokens b) (fmul (Fin s) (rate_per_sec l))"
  have "fnn (tokens b)" using b by (auto simp: bucket_ok_def)
  then have "fnn ?t" using ok s(1) by (intro fnn_fadd fnn_fmul) (auto simp: limiter_ok_def)
  moreover have "refill l b now = (if flt (Fin B) ?t then Fin B else ?t)"
    using True s ok by (simp add: refill_def Let_def limiter_ok_def)
  moreover have "0 \<le> B" using ok by (simp add: limiter_ok_def)
  ultimately show ?thesis by (cases ?t) auto
qed

lemma spend_bounds:
  assumes "limiter_ok B l" "1 \<le> t" "t \<le> m" "m \<le> B" "round_even (m - 1) = m - 1"
  shows "\<exists>r. fsub (Fin t) (Fin 1) = Fin r \<and> 0 \<le> r \<and> r \<le> m - 1"
proof -
  have "fl (t - 1) = fsub (Fin t) (Fin 1)" by (simp add: fsub_def)
  with fl_between [OF binary64.zero assms(5), of "t - 1"] assms show ?thesis
    by (auto simp: limiter_ok_def)
qed

lemma spend_ok:
  assumes "limiter_ok B l" "1 \<le> t" "t \<le> B"
  shows "\<exists>r. fsub (Fin t) (Fin 1) = Fin r \<and> 0 \<le> r \<and> r \<le> B"
proof -
  have "fl (t - 1) = fsub (Fin t) (Fin 1)" by (simp add: fsub_def)
  moreover have "round_even B = B" "B < 2 ^ 1024" using assms(1) by (simp_all add: limiter_ok_def)
  ultimately show ?thesis using fl_between [OF binary64.zero, of B "t - 1"] assms by auto
qed

lemma start_ok:
  "limiter_ok B l \<Longrightarrow>
   bucket_ok B (case buckets l label of None \<Rightarrow> \<lparr>tokens = burst_cap l, last_at = now\<rparr> | Some b \<Rightarrow> b)"
  by (auto simp: limiter_ok_def bucket_ok_def split: option.split)

lemma limiter_ok_update:
  "limiter_ok B l \<Longrightarrow> bucket_ok B b \<Longrightarrow> limiter_ok B (l\<lparr>buckets := (buckets l)(label \<mapsto> b)\<rparr>)"
  by (auto simp: limiter_ok_def)

lemma allow_cases:
  assumes ok: "limiter_ok B l" and "\<not> fle (rate_per_sec l) (Fin 0)"
    and a: "allow oor (Some l) label now = (d, l')"
  obtains t r where "refill l (case buckets l label of None \<Rightarrow> \<lparr>tokens = burst_cap l, last_at = now\<rparr> | Some b \<Rightarrow> b) now = Fin t"
      "0 \<le> t" "t \<le> B" "fst d = (1 \<le> t)" "0 \<le> r" "r \<le> B"
      "l' = Some (l\<lparr>buckets := (buckets l)(label \<mapsto> \<lparr>tokens = Fin r, last_at = now\<rparr>)\<rparr>)"
      "if 1 \<le> t then fsub (Fin t) (Fin 1) = Fin r else r = t"
proof -
  let ?b = "case buckets l label of None \<Rightarrow> \<lparr>tokens = burst_cap l, last_at = now\<rparr> | Some b \<Rightarrow> b"
  obtain t where t: "refill l ?b now = Fin t" "0 \<le> t" "t \<le> B"
    using refill_bounds [OF ok start_ok [OF ok]] by blast
  show ?thesis
  proof (cases "1 \<le> t")
    case True
    with spend_ok [OF ok True t(3)] obtain r where r: "fsub (Fin t) (Fin 1) = Fin r" "0 \<le> r" "r \<le> B" by blast
    have "allow oor (Some l) label now =
        ((True, 0), Some (l\<lparr>buckets := (buckets l)(label \<mapsto> \<lparr>tokens = Fin r, last_at = now\<rparr>)\<rparr>))"
      using assms(2) t(1) True r(1) by (simp add: allow_def Let_def)
    with a have "d = (True, 0)" "l' = Some (l\<lparr>buckets := (buckets l)(label \<mapsto> \<lparr>tokens = Fin r, last_at = now\<rparr>)\<rparr>)"
      by simp_all
    with True t r show ?thesis by (intro that [of t r]) simp_all
  next
    case False
    have "snd (allow oor (Some l) label now) =
        Some (l\<lparr>buckets := (buckets l)(label \<mapsto> \<lparr>tokens = Fin t, last_at = now\<rparr>)\<rparr>)"
      "\<not> fst (fst (allow oor (Some l) label now))"
      using assms(2) t(1) False by (simp_all add: allow_def Let_def)
    with a False t show ?thesis by (intro that [of t t]) simp_all
  qed
qed

lemma allow_ok:
  assumes ok: "limiter_ok B l" and a: "allow oor (Some l) label now = (d, Some l')"
  shows "limiter_ok B l'"
proof (cases "fle (rate_per_sec l) (Fin 0)")
  case True
  with ok a show ?thesis by (auto simp: allow_def)
next
  case False
  obtain r where "0 \<le> r" "r \<le> B"
    "Some l' = Some (l\<lparr>buckets := (buckets l)(label \<mapsto> \<lparr>tokens = Fin r, last_at = now\<rparr>)\<rparr>)"
    by (rule allow_cases [OF ok False a])
  then show ?thesis using limiter_ok_update [OF ok, of "\<lparr>tokens = Fin r, last_at = now\<rparr>" label]
    by (simp add: bucket_ok_def)
qed

section \<open>Sequences of calls\<close>

fun calls :: "(float64 \<Rightarrow> int) \<Rightarrow> limiter option \<Rightarrow> (string \<times> time) list \<Rightarrow> bool list \<times> limiter option" where
  "calls oor lm [] = ([], lm)"
| "calls oor lm ((label, now) # cs) =
     (case allow oor lm label now of
        (d, lm') \<Rightarrow> (case calls oor lm' cs of (ds, lm'') \<Rightarrow> (fst d # ds, lm'')))"

lemma allow_Some: "\<exists>d l'. allow oor (Some l) label now = (d, Some l')"
  by (simp add: allow_def Let_def) blast

lemma allow_config:
  "allow oor (Some l) label now = (d, Some l') \<Longrightarrow>
   rate_per_sec l' = rate_per_sec l \<and> burst_cap l' = burst_cap l \<and>
   (\<forall>other. other \<noteq> label \<longrightarrow> buckets l' other = buckets l other)"
  by (auto simp: allow_def Let_def split: if_splits)

lemma calls_keep:
  assumes "calls oor (Some l) hist = (ds, lm)"
  shows "\<exists>l'. lm = Some l' \<and> rate_per_sec l' = rate_per_sec l \<and> burst_cap l' = burst_cap l \<and>
     (limiter_ok B l \<longrightarrow> limiter_ok B l') \<and> (\<forall>label. label \<notin> fst ` set hist \<longrightarrow> buckets l' label = buckets l label)"
  using assms
proof (induction hist arbitrary: l ds)
  case Nil
  then show ?case by auto
next
  case (Cons c hist)
  obtain label now where c: "c = (label, now)" by (cases c)
  obtain d l1 where a: "allow oor (Some l) label now = (d, Some l1)" using allow_Some by blast
  obtain ds' where "calls oor (Some l1) hist = (ds', lm)"
    using Cons.prems c a by (auto split: prod.splits)
  from Cons.IH [OF this] allow_config [OF a] allow_ok [OF _ a] show ?case by (auto simp: c)
qed

text \<open>At one instant a bucket only loses tokens, one for every request allowed.\<close>

lemma same_instant:
  assumes "limiter_ok B l" and "\<not> fle (rate_per_sec l) (Fin 0)"
    and "buckets l label = Some \<lparr>tokens = Fin t, last_at = now\<rparr>"
    and "t \<le> of_int (int m)" "of_int (int m) \<le> B" "int m \<le> 2 ^ 53"
  shows "length (filter (\<lambda>d. d) (fst (calls oor (Some l) (replicate k (label, now))))) \<le> m"
  using assms
proof (induction k arbitrary: l t m)
  case 0
  then show ?case by simp
next
  case (Suc k)
  obtain d l1 where a: "allow oor (Some l) label now = (d, Some l1)" using allow_Some by blast
  have z: "time_sub now now = 0" by (simp add: time_sub_def max_int64_def min_int64_def)
  from Suc.prems obtain u r where u: "refill l \<lparr>tokens = Fin t, last_at = now\<rparr> now = Fin u" "fst d = (1 \<le> u)"
    and l1: "Some l1 = Some (l\<lparr>buckets := (buckets l)(label \<mapsto> \<lparr>tokens = Fin r, last_at = now\<rparr>)\<rparr>)"
    and r: "if 1 \<le> u then fsub (Fin u) (Fin 1) = Fin r else r = u"
    using allow_cases [OF Suc.prems(1,2) a, of thesis] by auto
  have ut: "u = t" using u(1) z by (simp add: refill_def Let_def)
  have ok1: "limiter_ok B l1" by (rule allow_ok [OF Suc.prems(1) a])
  have nd: "\<not> fle (rate_per_sec l1) (Fin 0)" using l1 Suc.prems(2) by simp
  have b1: "buckets l1 label = Some \<lparr>tokens = Fin r, last_at = now\<rparr>" using l1 by simp
  let ?n = "\<lambda>l. length (filter (\<lambda>d. d) (fst (calls oor (Some l) (replicate k (label, now)))))"
  have step: "fst (calls oor (Some l) (replicate (Suc k) (label, now))) =
      fst d # fst (calls oor (Some l1) (replicate k (label, now)))"
    by (simp add: a split: prod.split)
  show ?case
  proof (cases "1 \<le> t")
    case True
    with Suc.prems(4) have m: "1 \<le> m" by (cases m) auto
    then have m': "int m - 1 = int (m - 1)" by simp
    have e: "round_even (of_int (int m) - 1) = of_int (int m) - 1"
      using binary64.int_exact [of "int m - 1"] Suc.prems(6) m by simp
    have "r \<le> of_int (int m) - 1"
      using spend_bounds [OF Suc.prems(1) True Suc.prems(4,5) e] r ut True by auto
    then have "r \<le> of_int (int (m - 1))" using m' by (metis of_int_1 of_int_diff)
    moreover have "of_int (int (m - 1)) \<le> B" "int (m - 1) \<le> 2 ^ 53" using Suc.prems(5,6) m by auto
    ultimately have "?n l1 \<le> m - 1" using Suc.IH [OF ok1 nd b1] by blast
    with step m u(2) ut True show ?thesis by simp
  next
    case False
    with r ut have "r = t" by simp
    then have "?n l1 \<le> m" using Suc.IH [OF ok1 nd b1] Suc.prems(4-6) by blast
    with step u(2) ut False show ?thesis by simp
  qed
qed

end
