(* ===== verification/RateLimitSpec.thy ===== *)
theory RateLimitSpec
  imports RateLimit
begin

text \<open>
  The properties of the rate limiter over every history of calls: capacity, isolation between
  keys, and the one configured value that locks every key out.
\<close>

lemma limiting_on:
  "\<not> fle (rate_per_sec (new_limiter per_minute n)) (Fin 0) \<Longrightarrow> \<not> fle per_minute (Fin 0)"
  by (auto simp: new_limiter_def)

lemma new_burst:
  assumes "\<not> fle per_minute (Fin 0)" and "1 \<le> n" "n \<le> 2 ^ 53"
  shows "burst_cap (new_limiter per_minute n) = Fin (of_int n)"
proof -
  have "1 \<le> rat_of_int n" using assms(2) by simp
  moreover have "float_of_int n = Fin (of_int n)" using assms by (simp add: float_of_int_def fl_int)
  ultimately show ?thesis using assms(1) by (simp add: new_limiter_def Let_def)
qed

lemma new_ok:
  assumes "per_minute \<noteq> NaN" and "\<not> fle (rate_per_sec (new_limiter per_minute n)) (Fin 0)"
    and "1 \<le> n" "n \<le> 2 ^ 53"
  shows "limiter_ok (of_int n) (new_limiter per_minute n)"
proof -
  note on = limiting_on [OF assms(2)]
  have "in_int64 n" using assms(3,4) by (simp add: in_int64_def min_int64_def max_int64_def)
  from new_limiter_ok [OF assms(1) this] on obtain B where B: "limiter_ok B (new_limiter per_minute n)" by blast
  with new_burst [OF on assms(3,4)] have "B = of_int n" by (simp add: limiter_ok_def)
  with B show ?thesis by simp
qed

lemma new_buckets: "buckets (new_limiter per_minute n) = (\<lambda>_. None)"
  by (simp add: new_limiter_def Let_def)

lemma calls_step:
  "allow oor lm label now = (d, lm') \<Longrightarrow> fst (calls oor lm ((label, now) # cs)) = fst d # fst (calls oor lm' cs)"
  by (simp split: prod.split)

text \<open>The configuration used by the witnesses: sixty a minute, two at once.\<close>

definition sample_limiter :: limiter where
  "sample_limiter = new_limiter (Fin 60) 2"

lemma sample_rate: "rate_per_sec sample_limiter = Fin 1"
  by (simp add: sample_limiter_def new_limiter_def Let_def fl_int [of 1, simplified])

lemma sample_on: "(Fin 60 :: float64) \<noteq> NaN" "\<not> fle (rate_per_sec (new_limiter (Fin 60) 2)) (Fin 0)"
  using sample_rate by (simp_all add: sample_limiter_def)

text \<open>The bucket is never overdrawn nor overfilled. After every history of calls by any labels at
  any instants, even with a clock that steps back, each bucket holds between zero tokens and the
  configured burst.\<close>

theorem tokens_bounded:
  assumes "per_minute \<noteq> NaN" and "\<not> fle (rate_per_sec (new_limiter per_minute n)) (Fin 0)"
    and "1 \<le> n" "n \<le> 2 ^ 53" and "calls oor (Some (new_limiter per_minute n)) hist = (ds, Some l)"
    and "buckets l label = Some b"
  shows "\<exists>t. tokens b = Fin t \<and> 0 \<le> t \<and> t \<le> of_int n"
proof -
  have "limiter_ok (of_int n) l"
    using calls_keep [OF assms(5), of "of_int n"] new_ok [OF assms(1-4)] by auto
  with assms(6) show ?thesis by (auto simp: limiter_ok_def bucket_ok_def)
qed

lemma sample_first:
  "allow oor (Some sample_limiter) ''a'' 0 =
     ((True, 0), Some (sample_limiter\<lparr>buckets := (\<lambda>_. None)(''a'' \<mapsto> \<lparr>tokens = Fin 1, last_at = 0\<rparr>)\<rparr>))"
proof -
  have b: "burst_cap sample_limiter = Fin 2" "buckets sample_limiter = (\<lambda>_. None)"
    using new_burst [of "Fin 60" 2] by (simp add: sample_limiter_def) (simp add: sample_limiter_def new_limiter_def Let_def)
  have "fsub (Fin 2) (Fin 1) = Fin 1" using fl_int [of 1] by (simp add: fsub_def)
  then show ?thesis
    by (simp add: allow_def Let_def sample_rate b refill_def time_sub_def max_int64_def min_int64_def)
qed

theorem tokens_bounded_witness:
  "\<exists>t. tokens \<lparr>tokens = Fin 1, last_at = 0\<rparr> = Fin t \<and> 0 \<le> t \<and> t \<le> of_int 2"
proof (rule tokens_bounded [OF sample_on])
  show "calls (\<lambda>_. 0) (Some (new_limiter (Fin 60) 2)) [(''a'', 0)] =
      ([True], Some (sample_limiter\<lparr>buckets := (\<lambda>_. None)(''a'' \<mapsto> \<lparr>tokens = Fin 1, last_at = 0\<rparr>)\<rparr>))"
    using sample_first [of "\<lambda>_. 0"] by (simp add: sample_limiter_def)
qed simp_all

text \<open>The burst is the most a key can spend at once. Whatever happened before, of any number of
  requests of one label at one instant no more than the configured burst are allowed.\<close>

theorem burst_bound:
  assumes "per_minute \<noteq> NaN" and "\<not> fle (rate_per_sec (new_limiter per_minute n)) (Fin 0)"
    and "1 \<le> n" "n \<le> 2 ^ 53" and "calls oor (Some (new_limiter per_minute n)) hist = (ds, lm)"
  shows "length (filter (\<lambda>d. d) (fst (calls oor lm (replicate k (label, now))))) \<le> nat n"
proof (cases k)
  case 0
  then show ?thesis by simp
next
  case (Suc j)
  obtain l where l: "lm = Some l" "rate_per_sec l = rate_per_sec (new_limiter per_minute n)"
    and ok: "limiter_ok (of_int n) l"
    using calls_keep [OF assms(5), of "of_int n"] new_ok [OF assms(1-4)] by auto
  have nd: "\<not> fle (rate_per_sec l) (Fin 0)" using l assms(2) by simp
  obtain d l1 where a: "allow oor (Some l) label now = (d, Some l1)" using allow_Some by blast
  obtain t r where t: "t \<le> of_int n" "fst d = (1 \<le> t)"
    and l1: "Some l1 = Some (l\<lparr>buckets := (buckets l)(label \<mapsto> \<lparr>tokens = Fin r, last_at = now\<rparr>)\<rparr>)"
    and r: "if 1 \<le> t then fsub (Fin t) (Fin 1) = Fin r else r = t"
    by (rule allow_cases [OF ok nd a])
  have ok1: "limiter_ok (of_int n) l1" by (rule allow_ok [OF ok a])
  have nd1: "\<not> fle (rate_per_sec l1) (Fin 0)" and b1: "buckets l1 label = Some \<lparr>tokens = Fin r, last_at = now\<rparr>"
    using l1 nd by simp_all
  have step: "fst (calls oor lm (replicate k (label, now))) = fst d # fst (calls oor (Some l1) (replicate j (label, now)))"
    using calls_step [OF a, of "replicate j (label, now)"] by (simp add: Suc l(1))
  show ?thesis
  proof (cases "1 \<le> t")
    case True
    have e: "round_even (of_int n - 1) = of_int n - 1"
      using binary64.int_exact [of "n - 1"] assms(3,4) by simp
    have "r \<le> of_int n - 1" using spend_bounds [OF ok True t(1) order_refl e] r True by auto
    then have "r \<le> of_int (int (nat (n - 1)))" using assms(3) by simp
    from same_instant [OF ok1 nd1 b1 this] have
      "length (filter (\<lambda>d. d) (fst (calls oor (Some l1) (replicate j (label, now))))) \<le> nat (n - 1)"
      using assms(3,4) by simp
    with step t(2) True assms(3) show ?thesis by simp
  next
    case False
    with r have "r \<le> of_int (int (nat n))" using t(1) assms(3) by simp
    from same_instant [OF ok1 nd1 b1 this] have
      "length (filter (\<lambda>d. d) (fst (calls oor (Some l1) (replicate j (label, now))))) \<le> nat n"
      using assms(3,4) by simp
    with step t(2) False show ?thesis by simp
  qed
qed

theorem burst_bound_witness:
  "length (filter (\<lambda>d. d) (fst (calls (\<lambda>_. 0) (Some sample_limiter) (replicate 5 (''a'', 0))))) \<le> 2"
  using burst_bound [OF sample_on, of "\<lambda>_. 0" "[]" "[]" "Some sample_limiter" 5 "''a''" 0]
  by (simp add: sample_limiter_def)

lemma allow_agree:
  assumes "rate_per_sec l = rate_per_sec m" "burst_cap l = burst_cap m" "buckets l label = buckets m label"
    and "allow oor (Some l) label now = (d, Some l')"
  shows "\<exists>m'. allow oor (Some m) label now = (d, Some m') \<and> rate_per_sec l' = rate_per_sec m' \<and>
     burst_cap l' = burst_cap m' \<and> buckets l' label = buckets m' label"
proof -
  have r: "refill l = refill m" using assms(1,2) by (intro ext) (simp add: refill_def Let_def)
  have b: "(case buckets l label of None \<Rightarrow> \<lparr>tokens = burst_cap l, last_at = now\<rparr> | Some b \<Rightarrow> b) =
      (case buckets m label of None \<Rightarrow> \<lparr>tokens = burst_cap m, last_at = now\<rparr> | Some b \<Rightarrow> b)"
    by (simp only: assms(2,3))
  show ?thesis
  proof (cases "fle (rate_per_sec m) (Fin 0)")
    case True
    with assms show ?thesis by (auto simp: allow_def)
  next
    case False
    let ?b = "case buckets m label of None \<Rightarrow> \<lparr>tokens = burst_cap m, last_at = now\<rparr> | Some b \<Rightarrow> b"
    show ?thesis
      by (cases "fle (Fin 1) (refill m ?b now)")
        (use False assms(4) in \<open>simp_all add: allow_def Let_def b r assms(1,2)\<close>,
         use assms(1,2) in auto)
  qed
qed

lemma calls_agree:
  assumes "rate_per_sec l = rate_per_sec m" "burst_cap l = burst_cap m" "buckets l label = buckets m label"
  shows "map snd (filter (\<lambda>(c, d). fst c = label) (zip hist (fst (calls oor (Some l) hist)))) =
     fst (calls oor (Some m) (filter (\<lambda>c. fst c = label) hist))"
  using assms
proof (induction hist arbitrary: l m)
  case Nil
  then show ?case by simp
next
  case (Cons c hist)
  obtain lab now where c: "c = (lab, now)" by (cases c)
  obtain d l1 where a: "allow oor (Some l) lab now = (d, Some l1)" using allow_Some by blast
  have f: "fst (calls oor (Some l) (c # hist)) = fst d # fst (calls oor (Some l1) hist)"
    using calls_step [OF a, of hist] by (simp add: c)
  show ?case
  proof (cases "lab = label")
    case True
    with allow_agree [OF Cons.prems, of oor now d l1] a
    obtain m1 where m1: "allow oor (Some m) label now = (d, Some m1)" "rate_per_sec l1 = rate_per_sec m1"
      "burst_cap l1 = burst_cap m1" "buckets l1 label = buckets m1 label" by auto
    with Cons.IH [OF m1(2-4)] f c True show ?thesis
      using calls_step [OF m1(1), of "filter (\<lambda>c. fst c = label) hist"] by simp
  next
    case False
    with allow_config [OF a] Cons.prems have "rate_per_sec l1 = rate_per_sec m" "burst_cap l1 = burst_cap m"
      "buckets l1 label = buckets m label" by auto
    from Cons.IH [OF this] f c False show ?thesis by simp
  qed
qed

text \<open>Keys do not affect each other. In any interleaved history the decisions for one label are
  those it would get if it were alone.\<close>

theorem keys_isolated:
  "map snd (filter (\<lambda>(c, d). fst c = label) (zip hist (fst (calls oor (Some l) hist)))) =
   fst (calls oor (Some l) (filter (\<lambda>c. fst c = label) hist))"
  by (rule calls_agree) (rule refl)+

lemma refill_same_instant: "last_at b = now \<Longrightarrow> refill l b now = tokens b"
  by (simp add: refill_def time_sub_def max_int64_def min_int64_def)

lemma fsub_int: "0 \<le> j \<Longrightarrow> j < 2 ^ 53 \<Longrightarrow> fsub (Fin (of_int (j + 1))) (Fin 1) = Fin (of_int j)"
  using fl_int [of j] by (simp add: fsub_def)

lemma spend_down:
  assumes "\<not> fle (rate_per_sec l) (Fin 0)"
    and "buckets l label = Some \<lparr>tokens = Fin (of_int (int m)), last_at = now\<rparr>" and "int m \<le> 2 ^ 53"
  shows "fst (calls oor (Some l) (replicate k (label, now))) = replicate (min k m) True @ replicate (k - m) False"
  using assms
proof (induction k arbitrary: l m)
  case 0
  then show ?case by simp
next
  case (Suc k)
  note rf = refill_same_instant [of "\<lparr>tokens = Fin (of_int (int m)), last_at = now\<rparr>" now]
  show ?case
  proof (cases m)
    case 0
    let ?l = "l\<lparr>buckets := (buckets l)(label \<mapsto> \<lparr>tokens = Fin 0, last_at = now\<rparr>)\<rparr>"
    have "\<exists>w. allow oor (Some l) label now = ((False, w), Some ?l)"
      using Suc.prems 0 rf by (simp add: allow_def Let_def)
    then obtain w where a: "allow oor (Some l) label now = ((False, w), Some ?l)" by blast
    have "fst (calls oor (Some ?l) (replicate k (label, now))) = replicate (min k 0) True @ replicate (k - 0) False"
      by (rule Suc.IH) (use Suc.prems in simp_all)
    with calls_step [OF a, of "replicate k (label, now)"] show ?thesis by (simp add: 0)
  next
    case (Suc j)
    let ?l = "l\<lparr>buckets := (buckets l)(label \<mapsto> \<lparr>tokens = Fin (of_int (int j)), last_at = now\<rparr>)\<rparr>"
    have "fsub (Fin (of_int (int m))) (Fin 1) = Fin (of_int (int j))"
      using fsub_int [of "int j"] Suc.prems(3) Suc by (simp add: add.commute)
    moreover have "(1 :: rat) \<le> of_int (int m)" using Suc by simp
    ultimately have a: "allow oor (Some l) label now = ((True, 0), Some ?l)"
      using Suc.prems rf by (simp add: allow_def Let_def)
    have "fst (calls oor (Some ?l) (replicate k (label, now))) = replicate (min k j) True @ replicate (k - j) False"
      by (rule Suc.IH) (use Suc.prems Suc in simp_all)
    with calls_step [OF a, of "replicate k (label, now)"] show ?thesis by (simp add: Suc)
  qed
qed

text \<open>A key that has not been seen spends its whole burst. Its first requests at one instant are
  allowed, exactly as many as the configured burst, and the rest are denied.\<close>

theorem burst_exact:
  assumes "per_minute \<noteq> NaN" and "\<not> fle (rate_per_sec (new_limiter per_minute n)) (Fin 0)"
    and "1 \<le> n" "n \<le> 2 ^ 53" and "calls oor (Some (new_limiter per_minute n)) hist = (ds, lm)"
    and "label \<notin> fst ` set hist"
  shows "fst (calls oor lm (replicate k (label, now))) =
     replicate (min k (nat n)) True @ replicate (k - nat n) False"
proof -
  obtain l where l: "lm = Some l" "rate_per_sec l = rate_per_sec (new_limiter per_minute n)"
    "burst_cap l = burst_cap (new_limiter per_minute n)" "buckets l label = None"
    using calls_keep [OF assms(5)] assms(6) unfolding new_buckets by blast
  have cap: "burst_cap l = Fin (of_int (int (nat n)))"
    using l(3) new_burst [OF limiting_on [OF assms(2)] assms(3,4)] assms(3) by simp
  let ?full = "l\<lparr>buckets := (buckets l)(label \<mapsto> \<lparr>tokens = burst_cap l, last_at = now\<rparr>)\<rparr>"
  have same: "allow oor (Some l) label now = allow oor (Some ?full) label now"
    using l(2,4) assms(2) by (simp add: allow_def Let_def refill_def)
  have "fst (calls oor (Some l) (replicate k (label, now))) = fst (calls oor (Some ?full) (replicate k (label, now)))"
  proof (cases k)
    case (Suc j)
    show ?thesis by (simp only: Suc replicate_Suc calls.simps same)
  qed simp
  also have "\<dots> = replicate (min k (nat n)) True @ replicate (k - nat n) False"
    by (rule spend_down) (use l assms cap in simp_all)
  finally show ?thesis unfolding l(1) .
qed

theorem burst_exact_witness:
  "fst (calls (\<lambda>_. 0) (Some sample_limiter) (replicate 4 (''a'', 7))) = [True, True, False, False]"
  using burst_exact [OF sample_on, of "\<lambda>_. 0" "[]" "[]" "Some sample_limiter" "''a''" 4 7]
  by (simp add: sample_limiter_def numeral_2_eq_2 numeral_eq_Suc)

section \<open>A rate that is not a number\<close>

definition spoilt :: "limiter \<Rightarrow> string \<Rightarrow> time \<Rightarrow> bool" where
  "spoilt l label now \<longleftrightarrow> (\<exists>b. buckets l label = Some b \<and> (tokens b = NaN \<or> last_at b < now))"

text \<open>With a rate of NaN the first refill leaves NaN in the bucket, and no comparison with it holds.\<close>

lemma nan_refill:
  assumes "rate_per_sec l = NaN" "tokens b = NaN \<or> last_at b < now"
  shows "refill l b now = NaN"
proof (cases "0 < time_sub now (last_at b)")
  case True
  from dur_seconds_pos [OF True time_sub_int64] obtain s where "dur_seconds (time_sub now (last_at b)) = Fin s" by blast
  then show ?thesis using assms(1) True by (cases "tokens b") (simp_all add: refill_def Let_def)
next
  case False
  then have "\<not> last_at b < now" by (simp add: time_sub_def max_int64_def min_int64_def split: if_splits)
  with assms(2) False show ?thesis by (simp add: refill_def Let_def)
qed

lemma nan_allow:
  assumes "rate_per_sec l = NaN"
  shows "\<exists>d w l' b. allow oor (Some l) label now = ((d, w), Some l') \<and> rate_per_sec l' = NaN \<and>
     (\<forall>x. x \<noteq> label \<longrightarrow> buckets l' x = buckets l x) \<and> buckets l' label = Some b \<and> last_at b = now \<and>
     (spoilt l label now \<longrightarrow> \<not> d \<and> tokens b = NaN)"
  using assms nan_refill [OF assms] by (auto simp: allow_def Let_def spoilt_def)

lemma nan_spoilt:
  assumes "rate_per_sec l = NaN" "sorted (map snd cs)" "buckets l label = Some b"
    "\<forall>c \<in> set cs. last_at b \<le> snd c" "j < length cs" "fst (cs ! j) = label" "tokens b = NaN \<or> last_at b < snd (cs ! j)"
  shows "\<not> fst (calls oor (Some l) cs) ! j"
  using assms
proof (induction cs arbitrary: l b j)
  case (Cons c cs)
  obtain lab now where c: "c = (lab, now)" by (cases c)
  obtain d w l' b' where a: "allow oor (Some l) lab now = ((d, w), Some l')" "rate_per_sec l' = NaN"
      "\<forall>x. x \<noteq> lab \<longrightarrow> buckets l' x = buckets l x" "buckets l' lab = Some b'" "last_at b' = now"
      "spoilt l lab now \<longrightarrow> \<not> d \<and> tokens b' = NaN"
    using nan_allow [OF Cons.prems(1), of oor lab now] by blast
  note r = calls_step [OF a(1), of cs]
  have s: "sorted (map snd cs)" "\<forall>c \<in> set cs. now \<le> snd c" using Cons.prems(2) by (auto simp: c)
  show ?case
  proof (cases j)
    case 0
    then have "spoilt l lab now" using Cons.prems(3,6,7) by (auto simp: spoilt_def c)
    with a(6) show ?thesis by (simp add: c r 0 del: calls.simps)
  next
    case (Suc k)
    then have k: "k < length cs" "fst (cs ! k) = label" "now \<le> snd (cs ! k)"
      using Cons.prems(5,6) s(2) by simp_all
    show ?thesis
    proof (cases "lab = label")
      case False
      then have "buckets l' label = Some b" using a(3) Cons.prems(3) by simp
      from Cons.IH [OF a(2) s(1) this _ k(1,2)] Cons.prems(4,7) show ?thesis by (simp add: c r Suc del: calls.simps)
    next
      case True
      have "tokens b' = NaN \<or> now < snd (cs ! k)"
      proof (cases "spoilt l lab now")
        case False
        then have "tokens b \<noteq> NaN" "\<not> last_at b < now" using Cons.prems(3) True by (auto simp: spoilt_def)
        then show ?thesis using Cons.prems(4,7) by (auto simp: c Suc)
      qed (use a(6) in simp)
      with Cons.IH [OF a(2) s(1) _ _ k(1,2), of b'] a(4,5) s(2) True have "\<not> fst (calls oor (Some l') cs) ! k" by simp
      then show ?thesis by (simp only: c r Suc nth_Cons_Suc not_False_eq_True)
    qed
  qed
qed simp

lemma nan_locks_out:
  assumes "rate_per_sec l = NaN" "sorted (map snd cs)" "i < j" "j < length cs"
    "fst (cs ! i) = fst (cs ! j)" "snd (cs ! i) < snd (cs ! j)"
  shows "\<not> fst (calls oor (Some l) cs) ! j"
  using assms
proof (induction cs arbitrary: l i j)
  case (Cons c cs)
  obtain lab now where c: "c = (lab, now)" by (cases c)
  obtain d w l' b' where a: "allow oor (Some l) lab now = ((d, w), Some l')" "rate_per_sec l' = NaN"
      "buckets l' lab = Some b'" "last_at b' = now"
    using nan_allow [OF Cons.prems(1), of oor lab now] by blast
  note r = calls_step [OF a(1), of cs]
  obtain k where j: "j = Suc k" using Cons.prems(3) by (cases j) auto
  have s: "sorted (map snd cs)" "\<forall>c \<in> set cs. now \<le> snd c" using Cons.prems(2) by (auto simp: c)
  show ?case
  proof (cases i)
    case 0
    with nan_spoilt [OF a(2) s(1) a(3), of k oor] Cons.prems(4-6) s(2) a(4) have "\<not> fst (calls oor (Some l') cs) ! k"
      by (simp add: c j)
    then show ?thesis by (simp only: c r j nth_Cons_Suc not_False_eq_True)
  next
    case (Suc h)
    with Cons.IH [OF a(2) s(1), of h k] Cons.prems(3-6) show ?thesis by (simp add: c r j del: calls.simps)
  qed
qed simp

end
