(* ===== verification/Forward.thy ===== *)
theory Forward
  imports Http NetAddr
begin

text \<open>
  internal/proxy/forward.go and headers.go: one forward to a mesh node through
  \<open>httputil.ReverseProxy\<close>. The round trip itself is a parameter, the function from the outbound
  request to what the transport reports.
\<close>

section \<open>Security headers\<close>

definition content_security_policy :: string where
  "content_security_policy =
     ''default-src '' @ [CHR 0x27] @ ''self'' @ [CHR 0x27] @ ''; '' @
     ''script-src '' @ [CHR 0x27] @ ''self'' @ [CHR 0x27, CHR '' '', CHR 0x27] @ ''unsafe-inline'' @ [CHR 0x27] @ ''; '' @
     ''style-src '' @ [CHR 0x27] @ ''self'' @ [CHR 0x27, CHR '' '', CHR 0x27] @ ''unsafe-inline'' @ [CHR 0x27] @ ''; '' @
     ''img-src '' @ [CHR 0x27] @ ''self'' @ [CHR 0x27] @ '' data:; '' @
     ''connect-src '' @ [CHR 0x27] @ ''self'' @ [CHR 0x27] @ ''; '' @
     ''frame-ancestors '' @ [CHR 0x27] @ ''none'' @ [CHR 0x27] @ ''; '' @
     ''base-uri '' @ [CHR 0x27] @ ''none'' @ [CHR 0x27] @ ''; '' @
     ''form-action '' @ [CHR 0x27] @ ''self'' @ [CHR 0x27] @ ''; '' @
     ''object-src '' @ [CHR 0x27] @ ''none'' @ [CHR 0x27]"

definition set_security_headers :: "header \<Rightarrow> header" where
  "set_security_headers h =
     hdr_set (hdr_set (hdr_set h ''X-Content-Type-Options'' ''nosniff'') ''X-Frame-Options'' ''DENY'')
       ''Content-Security-Policy'' content_security_policy"

definition secure_error :: "header \<Rightarrow> int \<Rightarrow> string \<Rightarrow> string \<Rightarrow> response" where
  "secure_error h st msg code = write_error (set_security_headers h) st msg code"

section \<open>The reverse proxy's own header handling\<close>

definition trim_ows :: "string \<Rightarrow> string" where
  "trim_ows s =
     (let ws = (\<lambda>c. c = CHR '' '' \<or> c = CHR 0x09) in rev (dropWhile ws (rev (dropWhile ws s))))"

text \<open>\<open>httpguts.HeaderValuesContainsToken\<close>.\<close>

definition has_token :: "string list \<Rightarrow> string \<Rightarrow> bool" where
  "has_token vs tok \<longleftrightarrow>
     (\<exists>v \<in> set vs. \<exists>p \<in> set (split_on CHR '','' v). is_ascii (trim_ows p) \<and> to_lower (trim_ows p) = to_lower tok)"

definition upgrade_type :: "header \<Rightarrow> string" where
  "upgrade_type h = (if has_token (hdr_values h ''Connection'') ''Upgrade'' then hdr_get h ''Upgrade'' else [])"

definition hop_headers :: "string list" where
  "hop_headers = [''Connection'', ''Proxy-Connection'', ''Keep-Alive'', ''Proxy-Authenticate'',
     ''Proxy-Authorization'', ''Te'', ''Trailer'', ''Transfer-Encoding'', ''Upgrade'']"

definition connection_options :: "header \<Rightarrow> string list" where
  "connection_options h =
     filter (\<lambda>s. s \<noteq> []) (map trim_string (concat (map (split_on CHR '','') (hdr_values h ''Connection''))))"

definition remove_hop_by_hop :: "header \<Rightarrow> header" where
  "remove_hop_by_hop h = foldl hdr_del h (connection_options h @ hop_headers)"

text \<open>\<open>cleanQueryParams\<close>: a query a parser could read in more than one way is written anew.\<close>

definition clean_query :: "string \<Rightarrow> string" where
  "clean_query q =
     (if CHR '';'' \<in> set q \<or> unescape EncodePath q = None then values_encode (parse_query q) else q)"

definition set_x_forwarded :: "request \<Rightarrow> header \<Rightarrow> header" where
  "set_x_forwarded r h =
     (let h = (case split_host_port (remote_addr r) of
                 Some (host, _) \<Rightarrow> hdr_set h ''X-Forwarded-For'' host
               | None \<Rightarrow> hdr_del h ''X-Forwarded-For'')
      in hdr_set (hdr_set h ''X-Forwarded-Host'' (req_host r)) ''X-Forwarded-Proto'' ''http'')"

text \<open>What is sent: where to, and the request with its Host replaced.\<close>

record outbound =
  ob_addr :: string
  ob_request :: request

text \<open>
  \<open>ReverseProxy.ServeHTTP\<close> up to the round trip with the gateway's \<open>Rewrite\<close>; \<open>None\<close> when
  the client asks to switch to a protocol whose name is not printable.
\<close>

definition printable :: "char \<Rightarrow> bool" where
  "printable c \<longleftrightarrow> CHR '' '' \<le> c \<and> c \<le> CHR ''~''"

definition base_header :: "request \<Rightarrow> string \<Rightarrow> header" where
  "base_header r up =
     (let h = remove_hop_by_hop (req_header r);
          h = (if has_token (hdr_values (req_header r) ''Te'') ''trailers'' then hdr_set h ''Te'' ''trailers'' else h)
      in if up \<noteq> [] then hdr_set (hdr_set h ''Connection'' ''Upgrade'') ''Upgrade'' up else h)"

definition sent_header :: "request \<Rightarrow> string \<Rightarrow> header" where
  "sent_header r up =
     (let h = foldl hdr_del (base_header r up)
                [''Forwarded'', ''X-Forwarded-For'', ''X-Forwarded-Host'', ''X-Forwarded-Proto''];
          h = set_x_forwarded r h
      in if map_of h ''User-Agent'' = None then hdr_set h ''User-Agent'' [] else h)"

definition outbound_of :: "request \<Rightarrow> string \<Rightarrow> outbound option" where
  "outbound_of r addr =
     (let up = upgrade_type (req_header r)
      in if \<not> list_all printable up then None
         else Some \<lparr>ob_addr = addr,
                    ob_request = r\<lparr>req_url := (req_url r)\<lparr>scheme := ''http'', raw_query := clean_query (raw_query (req_url r))\<rparr>,
                      req_header := sent_header r up, req_host := addr,
                      req_body := (if content_length r = 0 then None else req_body r)\<rparr>\<rparr>)"

section \<open>What comes back\<close>

type_synonym interim = "(int \<times> header) list"

text \<open>
  A Go error with what it wraps: \<open>context.Canceled\<close>, a \<open>*net.OpError\<close> with its operation, or any
  other. \<open>chain\<close> lists an error and what it wraps in the order \<open>errors.Is\<close> and \<open>errors.As\<close> look.
\<close>

datatype go_error =
    Canceled
  | OpError string "go_error list"
  | OtherError "go_error list"

fun chain :: "go_error \<Rightarrow> go_error list" where
  "chain Canceled = [Canceled]"
| "chain (OpError op es) = OpError op es # concat (map chain es)"
| "chain (OtherError es) = OtherError es # concat (map chain es)"

definition is_canceled :: "go_error \<Rightarrow> bool" where
  "is_canceled e \<longleftrightarrow> Canceled \<in> set (chain e)"

fun op_name :: "go_error \<Rightarrow> string option" where
  "op_name (OpError op _) = Some op"
| "op_name _ = None"

text \<open>The first \<open>OpError\<close> of the chain decides, not any.\<close>

definition is_dial_error :: "go_error \<Rightarrow> bool" where
  "is_dial_error e \<longleftrightarrow> (case List.map_filter op_name (chain e) of [] \<Rightarrow> False | op # _ \<Rightarrow> op = ''dial'')"

text \<open>
  The transport's report: the round trip failed, with whether the client's context was cancelled by
  then, or the node answered. Informational responses may come first; the last field of an answer
  says whether its body arrived in full.
\<close>

datatype upstream =
    RoundTripError interim go_error bool
  | Answered interim int header string bool

definition dial_failed :: upstream where
  "dial_failed = RoundTripError [] (OpError ''dial'' []) False"

text \<open>
  What is written to the client: a complete reply, one whose connection is aborted after part of the
  body (the \<open>ErrAbortHandler\<close> panic), or nothing after the interim responses. The last is a
  switched protocol: the connection is taken over, the 101 goes out on it directly, and the body is
  what the node sends until either side closes.
\<close>

datatype reply =
    Reply interim response
  | Aborted interim response
  | Silent interim
  | Upgraded interim response

text \<open>
  The final response on the wire. Where the handler wrote none, \<open>net/http\<close> ends the request with an
  implicit 200 that has no header and no body of the handler's.
\<close>

definition final_response :: "reply \<Rightarrow> response" where
  "final_response rp =
     (case rp of
        Reply _ res \<Rightarrow> res
      | Aborted _ res \<Rightarrow> res
      | Upgraded _ res \<Rightarrow> res
      | Silent _ \<Rightarrow> \<lparr>status = status_ok, r_header = [], set_cookies = [], r_body = EmptyBody\<rparr>)"

text \<open>\<open>ErrUpstreamUnreachable\<close>, with nothing written, or nil.\<close>

datatype forwarded = Unreachable | Wrote reply

definition cors_prefix :: string where
  "cors_prefix = ''access-control-''"

definition modify_response :: "header \<Rightarrow> header" where
  "modify_response h =
     (let h' = foldl (\<lambda>a k. if has_prefix (to_lower k) cors_prefix then hdr_del a k else a) h (map fst h);
          h' = hdr_del h' ''Set-Cookie''
      in set_security_headers h')"

definition unreachable_error :: "string \<Rightarrow> response" where
  "unreachable_error node =
     secure_error [] status_bad_gateway (''mesh node '' @ node @ '' is not reachable'') ''upstream_unavailable''"

text \<open>The holder \<open>To\<close> puts into the request's context, empty for each forward.\<close>

record unreachable_holder =
  uh_err :: "go_error option"

definition holder_set :: "go_error \<Rightarrow> unreachable_holder \<Rightarrow> unreachable_holder" where
  "holder_set e h = h\<lparr>uh_err := Some e\<rparr>"

definition holder_get :: "unreachable_holder \<Rightarrow> go_error option" where
  "holder_get h = uh_err h"

text \<open>
  The \<open>ErrorHandler\<close>: what it leaves in the holder and what it writes. A client that went away gets
  neither.
\<close>

definition error_handler ::
    "string \<Rightarrow> go_error \<Rightarrow> bool \<Rightarrow> unreachable_holder \<Rightarrow> unreachable_holder \<times> response option" where
  "error_handler addr e gone h =
     (if is_canceled e \<or> gone then (h, None)
      else if is_dial_error e then (holder_set e h, None)
      else (h, Some (unreachable_error addr)))"

text \<open>What \<open>To\<close> makes of a failed round trip: the holder decides, and then what was written.\<close>

definition failed_forward :: "string \<Rightarrow> interim \<Rightarrow> go_error \<Rightarrow> bool \<Rightarrow> forwarded" where
  "failed_forward addr im e gone =
     (case error_handler addr e gone \<lparr>uh_err = None\<rparr> of
        (h, written) \<Rightarrow>
          (case holder_get h of
             Some _ \<Rightarrow> Unreachable
           | None \<Rightarrow>
               (case written of
                  Some res \<Rightarrow> Wrote (Reply im res)
                | None \<Rightarrow> Wrote (Silent im))))"

text \<open>
  \<open>handleUpgradeResponse\<close>: the answer must switch to the protocol that was asked for. It comes
  before the hop-by-hop headers of the answer are removed, and after the response hook. A failed
  switch goes through the \<open>ErrorHandler\<close> with an error of its own, no dial error.
\<close>

definition switches :: "header \<Rightarrow> header \<Rightarrow> bool" where
  "switches sent back \<longleftrightarrow>
     (let up = upgrade_type back
      in up \<noteq> [] \<and> list_all printable up \<and> to_lower up = to_lower (upgrade_type sent))"

definition switch_protocols :: "outbound \<Rightarrow> string \<Rightarrow> interim \<Rightarrow> header \<Rightarrow> string \<Rightarrow> forwarded" where
  "switch_protocols ob addr im h b =
     (if switches (req_header (ob_request ob)) h
      then Wrote (Upgraded im
             \<lparr>status = status_switching, r_header = modify_response h, set_cookies = [], r_body = NodeBytes b\<rparr>)
      else failed_forward addr im (OtherError []) (ctx_gone (ob_request ob)))"

definition pass_answer :: "interim \<Rightarrow> int \<Rightarrow> header \<Rightarrow> string \<Rightarrow> bool \<Rightarrow> reply" where
  "pass_answer im st h b complete =
     (let res = \<lparr>status = st, r_header = modify_response (remove_hop_by_hop h), set_cookies = [],
                 r_body = NodeBytes b\<rparr>
      in if complete then Reply im res else Aborted im res)"

definition forward_to :: "(outbound \<Rightarrow> upstream) \<Rightarrow> request \<Rightarrow> string \<Rightarrow> forwarded" where
  "forward_to tr r addr =
     (case outbound_of r addr of
        None \<Rightarrow> failed_forward addr [] (OtherError []) (ctx_gone r)
      | Some ob \<Rightarrow>
          (case tr ob of
             RoundTripError im e gone \<Rightarrow> failed_forward addr im e gone
           | Answered im st h b complete \<Rightarrow>
               (if st = status_switching then switch_protocols ob addr im h b
                else Wrote (pass_answer im st h b complete))))"

lemma failed_forward_simp:
  "failed_forward addr im e gone =
     (if is_canceled e \<or> gone then Wrote (Silent im)
      else if is_dial_error e then Unreachable
      else Wrote (Reply im (unreachable_error addr)))"
  by (simp add: failed_forward_def error_handler_def holder_set_def holder_get_def)

lemma own_error [simp]: "\<not> is_canceled (OtherError [])" "\<not> is_dial_error (OtherError [])"
  by (simp_all add: is_canceled_def is_dial_error_def map_filter_simps)

lemma own_failure:
  "failed_forward addr im (OtherError []) gone =
     Wrote (if gone then Silent im else Reply im (unreachable_error addr))"
  by (simp add: failed_forward_simp)

lemma dial_failed_unreachable:
  "outbound_of r addr = Some ob \<Longrightarrow> tr ob = dial_failed \<Longrightarrow> forward_to tr r addr = Unreachable"
  by (simp add: forward_to_def dial_failed_def failed_forward_simp is_canceled_def is_dial_error_def map_filter_simps)

section \<open>Header facts\<close>

lemma security_headers_values:
  "hdr_values (set_security_headers h) ''X-Content-Type-Options'' = [''nosniff'']"
  "hdr_values (set_security_headers h) ''X-Frame-Options'' = [''DENY'']"
  "hdr_values (set_security_headers h) ''Content-Security-Policy'' = [content_security_policy]"
proof -
  have c: "canon ''X-Content-Type-Options'' = ''X-Content-Type-Options''" "canon ''X-Frame-Options'' = ''X-Frame-Options''"
    "canon ''Content-Security-Policy'' = ''Content-Security-Policy''" by code_simp+
  show "hdr_values (set_security_headers h) ''X-Content-Type-Options'' = [''nosniff'']"
    "hdr_values (set_security_headers h) ''X-Frame-Options'' = [''DENY'']"
    "hdr_values (set_security_headers h) ''Content-Security-Policy'' = [content_security_policy]"
    by (simp_all add: set_security_headers_def hdr_values_set c)
qed

lemma hdr_values_fold_del:
  "hdr_values (foldl hdr_del h ks) k = (if canon k \<in> canon ` set ks then [] else hdr_values h k)"
  by (induction ks arbitrary: h) (auto simp: hdr_values_del)

lemma header_ok_fold_del: "header_ok h \<Longrightarrow> header_ok (foldl hdr_del h ks)"
  by (induction ks arbitrary: h) (auto simp: header_ok_del)

lemma header_ok_hop: "header_ok h \<Longrightarrow> header_ok (remove_hop_by_hop h)"
  unfolding remove_hop_by_hop_def by (rule header_ok_fold_del)

lemma header_ok_values: "header_ok h \<Longrightarrow> hdr_values h k \<noteq> [] \<Longrightarrow> canon k \<in> fst ` set h"
  by (auto simp: hdr_values_def dest: map_of_SomeD split: option.splits) (force dest: map_of_SomeD)

text \<open>The loop deletes every key with the prefix and no other.\<close>

lemma cors_fold:
  "hdr_values (foldl (\<lambda>a k. if has_prefix (to_lower k) cors_prefix then hdr_del a k else a) h ks) k =
     (if \<exists>k' \<in> set ks. canon k' = canon k \<and> has_prefix (to_lower k') cors_prefix then [] else hdr_values h k)"
proof (induction ks arbitrary: h)
  case Nil
  then show ?case by simp
next
  case (Cons k' ks)
  show ?case
    by (cases "has_prefix (to_lower k') cors_prefix"; cases "canon k' = canon k")
      (auto simp add: Cons hdr_values_del)
qed

lemma cors_stripped:
  assumes "header_ok h"
  shows "hdr_values (foldl (\<lambda>a k. if has_prefix (to_lower k) cors_prefix then hdr_del a k else a) h (map fst h)) k =
     (if has_prefix (to_lower k) cors_prefix then [] else hdr_values h k)"
proof (cases "hdr_values h k = []")
  case True
  then show ?thesis by (simp add: cors_fold)
next
  case False
  then have m: "canon k \<in> fst ` set h" using assms by (intro header_ok_values)
  have low: "to_lower k' = to_lower k" if "canon k' = canon k" for k'
    using that to_lower_canon by metis
  have "(\<exists>k' \<in> set (map fst h). canon k' = canon k \<and> has_prefix (to_lower k') cors_prefix) \<longleftrightarrow>
      has_prefix (to_lower k) cors_prefix" (is "?E \<longleftrightarrow> ?P")
  proof
    assume ?E
    then obtain k' where k': "canon k' = canon k" "has_prefix (to_lower k') cors_prefix" by blast
    from k'(2) show ?P unfolding low [OF k'(1)] .
  next
    assume ?P
    then have "has_prefix (to_lower (canon k)) cors_prefix" by (simp only: to_lower_canon)
    with m show ?E by (intro bexI [of _ "canon k"]) simp_all
  qed
  then show ?thesis by (simp only: cors_fold)
qed

end
