(* ===== verification/ForwardSpec.thy ===== *)
theory ForwardSpec
  imports Forward
begin

text \<open>
  The properties of a forward: what a node's answer can still do once it has passed the gateway,
  what passes unchanged, when the router may retry, and what a node gets to see.
\<close>

definition reply_response :: "reply \<Rightarrow> response option" where
  "reply_response rp = (case rp of Reply im res \<Rightarrow> Some res | Aborted im res \<Rightarrow> Some res | Silent im \<Rightarrow> None | Upgraded im res \<Rightarrow> Some res)"

definition hardened :: "header \<Rightarrow> bool" where
  "hardened h \<longleftrightarrow>
     hdr_values h ''X-Content-Type-Options'' = [''nosniff''] \<and> hdr_values h ''X-Frame-Options'' = [''DENY''] \<and>
     hdr_values h ''Content-Security-Policy'' = [content_security_policy] \<and>
     hdr_values h ''Set-Cookie'' = [] \<and> (\<forall>k. has_prefix (to_lower k) cors_prefix \<longrightarrow> hdr_values h k = [])"

lemma set_security_others:
  assumes "canon k \<notin> {''X-Content-Type-Options'', ''X-Frame-Options'', ''Content-Security-Policy''}"
  shows "hdr_values (set_security_headers h) k = hdr_values h k"
proof -
  have c: "canon ''X-Content-Type-Options'' = ''X-Content-Type-Options''" "canon ''X-Frame-Options'' = ''X-Frame-Options''"
    "canon ''Content-Security-Policy'' = ''Content-Security-Policy''" by code_simp+
  from assms show ?thesis by (simp add: set_security_headers_def hdr_values_set c)
qed

lemma cors_not_security:
  assumes "has_prefix (to_lower k) cors_prefix"
  shows "canon k \<notin> {''X-Content-Type-Options'', ''X-Frame-Options'', ''Content-Security-Policy'', ''Content-Type'', ''Set-Cookie''}"
proof
  assume "canon k \<in> {''X-Content-Type-Options'', ''X-Frame-Options'', ''Content-Security-Policy'', ''Content-Type'', ''Set-Cookie''}"
  moreover have "to_lower (canon k) = to_lower k" by (rule to_lower_canon)
  ultimately have "has_prefix (to_lower ''X-Content-Type-Options'') cors_prefix \<or>
      has_prefix (to_lower ''X-Frame-Options'') cors_prefix \<or> has_prefix (to_lower ''Content-Security-Policy'') cors_prefix \<or>
      has_prefix (to_lower ''Content-Type'') cors_prefix \<or> has_prefix (to_lower ''Set-Cookie'') cors_prefix"
    using assms by auto
  moreover have "\<not> (has_prefix (to_lower ''X-Content-Type-Options'') cors_prefix \<or>
      has_prefix (to_lower ''X-Frame-Options'') cors_prefix \<or> has_prefix (to_lower ''Content-Security-Policy'') cors_prefix \<or>
      has_prefix (to_lower ''Content-Type'') cors_prefix \<or> has_prefix (to_lower ''Set-Cookie'') cors_prefix)"
    by code_simp
  ultimately show False by blast
qed

lemma canon_names:
  "canon ''Set-Cookie'' = ''Set-Cookie''" "canon ''Content-Type'' = ''Content-Type''"
  "canon ''Retry-After'' = ''Retry-After''"
  by code_simp+

lemma modify_response_hardened:
  assumes "header_ok h"
  shows "hardened (modify_response h)"
proof -
  let ?c = "foldl (\<lambda>a k. if has_prefix (to_lower k) cors_prefix then hdr_del a k else a) h (map fst h)"
  have m: "modify_response h = set_security_headers (hdr_del ?c ''Set-Cookie'')"
    by (simp add: modify_response_def Let_def)
  have "hdr_values (modify_response h) ''Set-Cookie'' = []"
    unfolding m by (subst set_security_others) (simp_all add: canon_names hdr_values_del)
  moreover have "hdr_values (modify_response h) k = []" if "has_prefix (to_lower k) cors_prefix" for k
  proof -
    have "hdr_values (modify_response h) k = hdr_values (hdr_del ?c ''Set-Cookie'') k"
      unfolding m by (rule set_security_others) (use cors_not_security [OF that] in blast)
    also have "\<dots> = []" using that by (simp add: hdr_values_del cors_stripped [OF assms])
    finally show ?thesis .
  qed
  ultimately show ?thesis by (simp add: hardened_def m security_headers_values)
qed

lemma secure_error_hardened:
  assumes "header_ok h" "hdr_values h ''Set-Cookie'' = []"
    "\<And>k. has_prefix (to_lower k) cors_prefix \<Longrightarrow> hdr_values h k = []"
  shows "hardened (r_header (secure_error h st msg code))"
proof -
  have r: "r_header (secure_error h st msg code) = hdr_set (set_security_headers h) ''Content-Type'' ''application/json''"
    by (simp add: secure_error_def write_error_def)
  have n: "canon ''X-Content-Type-Options'' \<noteq> canon ''Content-Type''" "canon ''X-Frame-Options'' \<noteq> canon ''Content-Type''"
    "canon ''Content-Security-Policy'' \<noteq> canon ''Content-Type''" by code_simp+
  have "hdr_values (r_header (secure_error h st msg code)) k = []" if "has_prefix (to_lower k) cors_prefix" for k
  proof -
    note c = cors_not_security [OF that]
    have "hdr_values (r_header (secure_error h st msg code)) k = hdr_values (set_security_headers h) k"
      unfolding r hdr_values_set canon_names using c by simp
    also have "\<dots> = hdr_values h k" by (rule set_security_others) (use c in blast)
    finally show ?thesis using assms(3) [OF that] by simp
  qed
  moreover have "hdr_values (r_header (secure_error h st msg code)) ''Set-Cookie'' = []"
    unfolding r hdr_values_set canon_names
    using set_security_others [of "''Set-Cookie''" h] assms(2) by (simp add: canon_names)
  ultimately show ?thesis
    using n by (simp add: hardened_def r hdr_values_set security_headers_values)
qed

lemma plain_error_hardened: "hardened (r_header (secure_error [] st msg code))"
  by (rule secure_error_hardened) (simp_all add: header_ok_def hdr_values_def)

text \<open>The transport's response reader yields canonical keys, each once.\<close>

definition headers_parsed :: "(outbound \<Rightarrow> upstream) \<Rightarrow> bool" where
  "headers_parsed tr \<longleftrightarrow> (\<forall>ob im st h b c. tr ob = Answered im st h b c \<longrightarrow> header_ok h)"

text \<open>No node's answer reaches the browser with powers over the gateway's origin. Whatever a node
  sends, the final response carries the gateway's own framing, sniffing and content policies and
  none of the node's, no cookie and no CORS permission; the gateway's own errors are the same.\<close>

theorem response_hardened:
  assumes "headers_parsed tr"
    and "forward_to tr r addr = Wrote rp" and "reply_response rp = Some res"
  shows "hardened (r_header res) \<and> set_cookies res = []"
proof (cases "outbound_of r addr")
  case None
  with assms(2,3) show ?thesis
    by (auto simp: forward_to_def own_failure reply_response_def unreachable_error_def plain_error_hardened
        split: if_splits) (simp add: secure_error_def write_error_def)
next
  case (Some ob)
  show ?thesis
  proof (cases "tr ob")
    case (Answered im st h b c)
    then have ok: "header_ok h" using assms(1) unfolding headers_parsed_def by blast
    have "res = unreachable_error addr \<or>
        r_header res \<in> {modify_response h, modify_response (remove_hop_by_hop h)} \<and> set_cookies res = []"
      using assms(2,3) Some Answered
      by (auto simp: forward_to_def own_failure reply_response_def pass_answer_def switch_protocols_def Let_def
          split: if_splits)
    then show ?thesis
      using modify_response_hardened [OF ok] modify_response_hardened [OF header_ok_hop [OF ok]]
      by (auto simp: unreachable_error_def plain_error_hardened) (simp add: secure_error_def write_error_def)
  next
    case (RoundTripError im e gone)
    with assms(2,3) Some show ?thesis
      by (auto simp: forward_to_def failed_forward_simp reply_response_def unreachable_error_def plain_error_hardened
          split: if_splits) (simp add: secure_error_def write_error_def)
  qed
qed

definition sample_wire :: request where
  "sample_wire = \<lparr>req_method = ''GET'',
     req_url = \<lparr>scheme = [], opaque = [], path = ''/chat'', raw_path = [], force_query = False, raw_query = ''a=1''\<rparr>,
     req_header = [(''X-Forwarded-For'', [''10.0.0.1''])], req_host = ''gw.example'',
     remote_addr = ''127.0.0.1:5000'', req_body = None, content_length = 0, ctx_label = ''laptop'', ctx_info = False, ctx_gone = False\<rparr>"

definition sample_node :: "outbound \<Rightarrow> upstream" where
  "sample_node ob = Answered [] 200 [(''X-Frame-Options'', [''ALLOWALL'']), (''Set-Cookie'', [''viiwork_gw=x'']),
     (''Access-Control-Allow-Origin'', [''*'']), (''Server'', [''n''])] ''hi'' True"

lemma sample_node_ok: "headers_parsed sample_node"
proof -
  have "header_ok [(''X-Frame-Options'', [''ALLOWALL'']), (''Set-Cookie'', [''viiwork_gw=x'']),
     (''Access-Control-Allow-Origin'', [''*'']), (''Server'', [''n''])]" by code_simp
  then show ?thesis by (simp add: headers_parsed_def sample_node_def)
qed

lemma sample_wire_out: "\<exists>ob. outbound_of sample_wire ''n1:8086'' = Some ob"
proof -
  have "upgrade_type (req_header sample_wire) = []" unfolding sample_wire_def by code_simp
  then show ?thesis by (simp add: outbound_of_def Let_def)
qed

lemma sample_forward:
  "\<exists>res. forward_to sample_node sample_wire ''n1:8086'' = Wrote (Reply [] res)"
  using sample_wire_out by (auto simp: forward_to_def sample_node_def pass_answer_def status_defs)

theorem response_hardened_witness:
  "\<exists>res. forward_to sample_node sample_wire ''n1:8086'' = Wrote (Reply [] res) \<and> hardened (r_header res)"
proof -
  obtain res where f: "forward_to sample_node sample_wire ''n1:8086'' = Wrote (Reply [] res)"
    using sample_forward by blast
  have "reply_response (Reply [] res) = Some res" by (simp add: reply_response_def)
  from response_hardened [OF sample_node_ok f this] f show ?thesis by blast
qed

section \<open>What passes through\<close>

definition gateway_owned :: "header \<Rightarrow> string \<Rightarrow> bool" where
  "gateway_owned h k \<longleftrightarrow>
     canon k \<in> canon ` set (connection_options h @ hop_headers) \<or> has_prefix (to_lower k) cors_prefix \<or>
     canon k \<in> {''X-Content-Type-Options'', ''X-Frame-Options'', ''Content-Security-Policy'', ''Set-Cookie''}"

text \<open>Everything else of an answer passes unchanged. Status, body and every header that is neither
  hop-by-hop nor one of those the gateway owns are the node's, a node's own 429 or 503 included.\<close>

theorem answer_passes:
  assumes "outbound_of r addr = Some ob" and "tr ob = Answered im st h b True" and "header_ok h" and "st \<noteq> status_switching"
  shows "\<exists>res. forward_to tr r addr = Wrote (Reply im res) \<and> status res = st \<and> r_body res = NodeBytes b \<and>
     (\<forall>k. \<not> gateway_owned h k \<longrightarrow> hdr_values (r_header res) k = hdr_values h k)"
proof -
  let ?h = "remove_hop_by_hop h"
  let ?res = "\<lparr>status = st, r_header = modify_response ?h, set_cookies = [], r_body = NodeBytes b\<rparr>"
  have "hdr_values (modify_response ?h) k = hdr_values h k" if k: "\<not> gateway_owned h k" for k
  proof -
    let ?c = "foldl (\<lambda>a k. if has_prefix (to_lower k) cors_prefix then hdr_del a k else a) ?h (map fst ?h)"
    have "hdr_values (modify_response ?h) k = hdr_values (hdr_del ?c ''Set-Cookie'') k"
      unfolding modify_response_def Let_def by (rule set_security_others) (use k in \<open>auto simp: gateway_owned_def\<close>)
    also have "\<dots> = hdr_values ?h k"
      using k by (simp add: hdr_values_del canon_names cors_stripped [OF header_ok_hop [OF assms(3)]] gateway_owned_def)
    also have "\<dots> = hdr_values h k"
      using k unfolding remove_hop_by_hop_def hdr_values_fold_del gateway_owned_def by argo
    finally show ?thesis .
  qed
  moreover have "forward_to tr r addr = Wrote (Reply im ?res)"
    using assms(1,2,4) by (simp add: forward_to_def pass_answer_def)
  ultimately show ?thesis by (intro exI [of _ ?res]) simp
qed

theorem answer_passes_witness:
  "\<exists>res. forward_to sample_node sample_wire ''n1:8086'' = Wrote (Reply [] res) \<and>
     hdr_values (r_header res) ''Server'' = [''n'']"
proof -
  let ?h = "[(''X-Frame-Options'', [''ALLOWALL'']), (''Set-Cookie'', [''viiwork_gw=x'']),
     (''Access-Control-Allow-Origin'', [''*'']), (''Server'', [''n''])]"
  obtain ob where ob: "outbound_of sample_wire ''n1:8086'' = Some ob" using sample_wire_out by blast
  have tr: "sample_node ob = Answered [] 200 ?h ''hi'' True" by (simp add: sample_node_def)
  have ok: "header_ok ?h" by code_simp
  have sw: "(200 :: int) \<noteq> status_switching" by (simp add: status_switching_def)
  have v: "\<not> gateway_owned ?h ''Server''" "hdr_values ?h ''Server'' = [''n'']" by code_simp+
  from answer_passes [of sample_wire _ _ sample_node, OF ob tr ok] v sw show ?thesis by metis
qed

text \<open>Only a node that could not be dialled is reported as unreachable, and then nothing has been
  written. Every other failure, a connection lost after the request was sent included, is
  answered, so that no generation is started twice; a client that went away is not answered, and
  its request not retried, even if it went away while the node was being dialled.\<close>

theorem unreachable_iff:
  "forward_to tr r addr = Unreachable \<longleftrightarrow> (\<exists>ob im e. outbound_of r addr = Some ob \<and>
     tr ob = RoundTripError im e False \<and> \<not> is_canceled e \<and> is_dial_error e)"
  by (auto simp: forward_to_def own_failure switch_protocols_def failed_forward_simp
      split: option.splits upstream.splits if_splits)

text \<open>A protocol is switched only to what the client asked for: a 101 the client did not ask for, or
  for another protocol, is the gateway's 502, and the 101 that passes is hardened like any answer.\<close>

theorem switch_asked:
  "forward_to tr r addr = Wrote (Upgraded im res) \<longleftrightarrow>
     (\<exists>ob h b c. outbound_of r addr = Some ob \<and> tr ob = Answered im status_switching h b c \<and>
        upgrade_type h \<noteq> [] \<and> list_all printable (upgrade_type h) \<and>
        to_lower (upgrade_type h) = to_lower (upgrade_type (req_header (ob_request ob))) \<and>
        res = \<lparr>status = status_switching, r_header = modify_response h, set_cookies = [], r_body = NodeBytes b\<rparr>)"
  by (auto simp: forward_to_def own_failure failed_forward_simp switch_protocols_def pass_answer_def switches_def Let_def
      split: option.splits upstream.splits if_splits)

section \<open>What a node gets to see\<close>

lemma vals_clean_query: "vals (parse_query (clean_query q)) k = vals (parse_query q) k"
  by (simp add: clean_query_def vals_parse_encode parse_query_distinct)

lemma fold_del_absent: "canon k \<in> canon ` set ks \<Longrightarrow> hdr_values (foldl hdr_del h ks) k = []"
  by (simp add: hdr_values_fold_del)

text \<open>C30: a node sees the peer of the connection and nothing the client claimed about forwarding.
  Its X-Forwarded-For is the connection's own address alone, whatever lines the client sent, its
  X-Forwarded-Host and -Proto are the gateway's, Forwarded is gone, the Host is the node, and method, path, body and every query parameter are
  those of the request; a query two parsers could read differently is written anew.\<close>

theorem outbound_view:
  assumes "outbound_of r addr = Some ob" and "split_host_port (remote_addr r) = Some (peer, port)"
  shows "ob_addr ob = addr \<and> req_host (ob_request ob) = addr \<and>
     hdr_values (req_header (ob_request ob)) ''X-Forwarded-For'' = [peer] \<and>
     hdr_values (req_header (ob_request ob)) ''X-Forwarded-Host'' = [req_host r] \<and>
     hdr_values (req_header (ob_request ob)) ''X-Forwarded-Proto'' = [''http''] \<and>
     hdr_values (req_header (ob_request ob)) ''Forwarded'' = [] \<and>
     req_method (ob_request ob) = req_method r \<and> path (req_url (ob_request ob)) = path (req_url r) \<and>
     (content_length r \<noteq> 0 \<longrightarrow> req_body (ob_request ob) = req_body r) \<and>
     (\<forall>k. vals (parse_query (raw_query (req_url (ob_request ob)))) k = vals (parse_query (raw_query (req_url r))) k)"
proof -
  have n: "canon ''X-Forwarded-For'' = ''X-Forwarded-For''" "canon ''X-Forwarded-Host'' = ''X-Forwarded-Host''"
    "canon ''X-Forwarded-Proto'' = ''X-Forwarded-Proto''" "canon ''Forwarded'' = ''Forwarded''"
    "canon ''User-Agent'' = ''User-Agent''"
    by code_simp+
  have h: "req_header (ob_request ob) = sent_header r (upgrade_type (req_header r))"
    using assms(1) by (auto simp: outbound_of_def Let_def split: if_splits)
  have "hdr_values (req_header (ob_request ob)) ''X-Forwarded-For'' = [peer]"
    "hdr_values (req_header (ob_request ob)) ''X-Forwarded-Host'' = [req_host r]"
    "hdr_values (req_header (ob_request ob)) ''X-Forwarded-Proto'' = [''http'']"
    "hdr_values (req_header (ob_request ob)) ''Forwarded'' = []"
    unfolding h sent_header_def Let_def using assms(2)
    by (simp_all add: set_x_forwarded_def Let_def hdr_values_set hdr_values_del n)
  moreover have "ob_addr ob = addr" "req_host (ob_request ob) = addr" "req_method (ob_request ob) = req_method r"
    "path (req_url (ob_request ob)) = path (req_url r)" "content_length r \<noteq> 0 \<longrightarrow> req_body (ob_request ob) = req_body r"
    "raw_query (req_url (ob_request ob)) = clean_query (raw_query (req_url r))"
    using assms(1) by (auto simp: outbound_of_def Let_def split: if_splits)
  ultimately show ?thesis by (simp add: vals_clean_query)
qed

theorem outbound_view_witness:
  "\<exists>ob. outbound_of sample_wire ''n1:8086'' = Some ob \<and>
     hdr_values (req_header (ob_request ob)) ''X-Forwarded-For'' = [''127.0.0.1'']"
proof -
  obtain ob where ob: "outbound_of sample_wire ''n1:8086'' = Some ob" using sample_wire_out by blast
  have "split_host_port (remote_addr sample_wire) = Some (''127.0.0.1'', ''5000'')"
    unfolding sample_wire_def by code_simp
  from outbound_view [OF ob this] ob show ?thesis by blast
qed

text \<open>Informational responses are the exception to the hardening. The reverse proxy hands a node's
  1xx responses to the client as they come, before and outside the response hook, so a node can
  send one with headers of its choosing although the security headers are documented to be on
  every response the gateway emits.\<close>

theorem interim_unfiltered:
  "\<exists>tr im res h. forward_to tr sample_wire ''n1:8086'' = Wrote (Reply [(103, h)] res) \<and> im = [(103, h)] \<and>
     hdr_values h ''X-Frame-Options'' \<noteq> [''DENY''] \<and> hdr_values h ''Access-Control-Allow-Origin'' = [''*'']"
proof -
  let ?h = "[(''Access-Control-Allow-Origin'', [''*''])]"
  have "hdr_values ?h ''X-Frame-Options'' \<noteq> [''DENY'']" "hdr_values ?h ''Access-Control-Allow-Origin'' = [''*'']"
    by code_simp+
  moreover have "\<exists>res. forward_to (\<lambda>_. Answered [(103, ?h)] 200 [] [] True) sample_wire ''n1:8086'' =
      Wrote (Reply [(103, ?h)] res)"
    using sample_wire_out by (auto simp: forward_to_def pass_answer_def status_defs)
  ultimately show ?thesis by blast
qed

end
