(* ===== verification/GoJson.thy ===== *)
theory GoJson
  imports GoStrings
begin

text \<open>
  The part of \<open>encoding/json\<close> the router's probe uses: \<open>json.Unmarshal\<close> of a body into
  a struct with the one field \<open>model\<close>. The input is cut into tokens by a scanner and the
  tokens are checked by an automaton with a stack of open objects and arrays; \<open>Unmarshal\<close>
  checks the whole text first, so a text that is not valid JSON leaves the field empty.
\<close>

section \<open>Tokens\<close>

datatype jtok =
    JBeginObject | JEndObject | JBeginArray | JEndArray | JColon | JComma
  | JStr string
  | JScalar

datatype jnum = NumNeg | NumZero | NumInt | NumDot | NumFrac | NumExp | NumExpSign | NumExpInt

text \<open>A string is collected in reverse, still escaped. \<open>InHex n\<close> awaits \<open>n\<close> hex digits.\<close>

datatype scan =
    Between
  | InStr string
  | InEsc string
  | InHex nat string
  | InNum jnum
  | InWord string
  | ScanBad

definition json_space :: "char \<Rightarrow> bool" where
  "json_space c \<longleftrightarrow> c = CHR '' '' \<or> c = CHR 0x09 \<or> c = CHR 0x0A \<or> c = CHR 0x0D"

definition digit09 :: "char \<Rightarrow> bool" where
  "digit09 c \<longleftrightarrow> in_range (CHR ''0'') (CHR ''9'') c"

definition hex_digit :: "char \<Rightarrow> bool" where
  "hex_digit c \<longleftrightarrow> digit09 c \<or> in_range (CHR ''a'') (CHR ''f'') c \<or> in_range (CHR ''A'') (CHR ''F'') c"

definition scan_begin :: "char \<Rightarrow> scan \<times> jtok list" where
  "scan_begin c =
     (if json_space c then (Between, [])
      else if c = CHR ''{'' then (Between, [JBeginObject])
      else if c = CHR ''}'' then (Between, [JEndObject])
      else if c = CHR ''['' then (Between, [JBeginArray])
      else if c = CHR '']'' then (Between, [JEndArray])
      else if c = CHR '':'' then (Between, [JColon])
      else if c = CHR '','' then (Between, [JComma])
      else if c = CHR 0x22 then (InStr [], [])
      else if c = CHR ''-'' then (InNum NumNeg, [])
      else if c = CHR ''0'' then (InNum NumZero, [])
      else if digit09 c then (InNum NumInt, [])
      else if c = CHR ''t'' then (InWord ''rue'', [])
      else if c = CHR ''f'' then (InWord ''alse'', [])
      else if c = CHR ''n'' then (InWord ''ull'', [])
      else (ScanBad, []))"

text \<open>The next state inside a number, or \<open>None\<close> when the character is not part of it.\<close>

definition num_step :: "jnum \<Rightarrow> char \<Rightarrow> jnum option" where
  "num_step n c =
     (let dot = (if c = CHR ''.'' then Some NumDot else None);
          ex = (if c = CHR ''e'' \<or> c = CHR ''E'' then Some NumExp else None)
      in case n of
           NumNeg \<Rightarrow> if c = CHR ''0'' then Some NumZero else if digit09 c then Some NumInt else None
         | NumZero \<Rightarrow> if dot = None then ex else dot
         | NumInt \<Rightarrow> if digit09 c then Some NumInt else if dot = None then ex else dot
         | NumDot \<Rightarrow> if digit09 c then Some NumFrac else None
         | NumFrac \<Rightarrow> if digit09 c then Some NumFrac else ex
         | NumExp \<Rightarrow> if c = CHR ''+'' \<or> c = CHR ''-'' then Some NumExpSign
                     else if digit09 c then Some NumExpInt else None
         | NumExpSign \<Rightarrow> if digit09 c then Some NumExpInt else None
         | NumExpInt \<Rightarrow> if digit09 c then Some NumExpInt else None)"

definition num_done :: "jnum \<Rightarrow> bool" where
  "num_done n \<longleftrightarrow> n \<in> {NumZero, NumInt, NumFrac, NumExpInt}"

fun scan_step :: "scan \<Rightarrow> char \<Rightarrow> scan \<times> jtok list" where
  "scan_step Between c = scan_begin c"
| "scan_step (InStr acc) c =
     (if c = CHR 0x22 then (Between, [JStr (rev acc)])
      else if c = CHR 0x5C then (InEsc (c # acc), [])
      else if c < CHR '' '' then (ScanBad, [])
      else (InStr (c # acc), []))"
| "scan_step (InEsc acc) c =
     (if c \<in> set ''bfnrt/'' \<or> c = CHR 0x5C \<or> c = CHR 0x22 then (InStr (c # acc), [])
      else if c = CHR ''u'' then (InHex 4 (c # acc), [])
      else (ScanBad, []))"
| "scan_step (InHex n acc) c =
     (if \<not> hex_digit c then (ScanBad, [])
      else if n \<le> 1 then (InStr (c # acc), [])
      else (InHex (n - 1) (c # acc), []))"
| "scan_step (InNum n) c =
     (case num_step n c of
        Some n' \<Rightarrow> (InNum n', [])
      | None \<Rightarrow>
          if num_done n then (case scan_begin c of (s, ts) \<Rightarrow> (s, JScalar # ts))
          else (ScanBad, []))"
| "scan_step (InWord w) c =
     (if w = [] then (ScanBad, [])
      else if c \<noteq> hd w then (ScanBad, [])
      else if tl w = [] then (Between, [JScalar])
      else (InWord (tl w), []))"
| "scan_step ScanBad c = (ScanBad, [])"

fun scan_all :: "scan \<Rightarrow> string \<Rightarrow> jtok list option" where
  "scan_all s [] =
     (case s of
        Between \<Rightarrow> Some []
      | InNum n \<Rightarrow> if num_done n then Some [JScalar] else None
      | _ \<Rightarrow> None)"
| "scan_all s (c # cs) =
     (case scan_step s c of (s', ts) \<Rightarrow> map_option (\<lambda>r. ts @ r) (scan_all s' cs))"

section \<open>Structure\<close>

datatype jexpect = ExpValue | ExpValueOrEnd | ExpKey | ExpKeyOrEnd | ExpColon | ExpCommaOrEnd | ExpNothing

text \<open>
  The stack holds, innermost first, whether each open container is an object. \<open>cur_key\<close> is the
  last key of the outermost object and \<open>model\<close> the field decoded so far.
\<close>

record jstate =
  stack :: "bool list"
  expect :: jexpect
  cur_key :: string
  model_field :: string

definition max_depth :: nat where "max_depth = 10000"

definition after_value :: "jstate \<Rightarrow> jstate" where
  "after_value st = st\<lparr>expect := (if stack st = [] then ExpNothing else ExpCommaOrEnd)\<rparr>"

definition open_container :: "bool \<Rightarrow> jstate \<Rightarrow> jstate option" where
  "open_container obj st =
     (if max_depth < length (stack st) + 1 then None
      else Some (st\<lparr>stack := obj # stack st, expect := (if obj then ExpKeyOrEnd else ExpValueOrEnd)\<rparr>))"

definition close_container :: "bool \<Rightarrow> jstate \<Rightarrow> jstate option" where
  "close_container obj st =
     (if stack st = [] \<or> hd (stack st) \<noteq> obj then None
      else Some (after_value (st\<lparr>stack := tl (stack st)\<rparr>)))"

section \<open>Strings\<close>

text \<open>
  \<open>unquote\<close>: escapes are replaced, a lone surrogate and every byte that is not part of valid
  UTF-8 become U+FFFD.
\<close>

definition utf8_encode :: "nat \<Rightarrow> string" where
  "utf8_encode r =
     (if r < 0x80 then [char_of r]
      else if r < 0x800 then [char_of (0xC0 + r div 64), char_of (0x80 + r mod 64)]
      else if r < 0x10000 then
        [char_of (0xE0 + r div 4096), char_of (0x80 + r div 64 mod 64), char_of (0x80 + r mod 64)]
      else [char_of (0xF0 + r div 262144), char_of (0x80 + r div 4096 mod 64),
            char_of (0x80 + r div 64 mod 64), char_of (0x80 + r mod 64)])"

definition replacement :: string where
  "replacement = [CHR 0xEF, CHR 0xBF, CHR 0xBD]"

definition between :: "nat \<Rightarrow> nat \<Rightarrow> char \<Rightarrow> bool" where
  "between lo hi c \<longleftrightarrow> lo \<le> of_char c \<and> of_char c \<le> hi"

text \<open>The length of the valid UTF-8 sequence a byte string starts with, 0 for none.\<close>

definition utf8_len :: "string \<Rightarrow> nat" where
  "utf8_len s =
     (case s of
        [] \<Rightarrow> 0
      | a # t \<Rightarrow>
          if between 0 0x7F a then 1
          else
            (let cont = between 0x80 0xBF;
                 b = (1 \<le> length t); c = (2 \<le> length t \<and> cont (t ! 1)); d = (3 \<le> length t \<and> cont (t ! 2))
             in if between 0xC2 0xDF a \<and> b \<and> cont (t ! 0) then 2
                else if b \<and> c \<and>
                  (a = CHR 0xE0 \<and> between 0xA0 0xBF (t ! 0) \<or> between 0xE1 0xEC a \<and> cont (t ! 0) \<or>
                   a = CHR 0xED \<and> between 0x80 0x9F (t ! 0) \<or> between 0xEE 0xEF a \<and> cont (t ! 0)) then 3
                else if b \<and> c \<and> d \<and>
                  (a = CHR 0xF0 \<and> between 0x90 0xBF (t ! 0) \<or> between 0xF1 0xF3 a \<and> cont (t ! 0) \<or>
                   a = CHR 0xF4 \<and> between 0x80 0x8F (t ! 0)) then 4
                else 0))"

definition hex_val :: "char \<Rightarrow> nat" where
  "hex_val c =
     (if digit09 c then of_char c - 48
      else if CHR ''a'' \<le> c then of_char c - 87 else of_char c - 55)"

text \<open>\<open>getu4\<close>: the code unit of a leading \<open>\\uXXXX\<close>.\<close>

definition getu4 :: "string \<Rightarrow> nat option" where
  "getu4 s =
     (if length s < 6 \<or> s ! 0 \<noteq> CHR 0x5C \<or> s ! 1 \<noteq> CHR ''u'' \<or> \<not> list_all hex_digit (take 4 (drop 2 s)) then None
      else Some (foldl (\<lambda>n c. 16 * n + hex_val c) 0 (take 4 (drop 2 s))))"

definition simple_escape :: "char \<Rightarrow> char" where
  "simple_escape c =
     (if c = CHR ''b'' then CHR 0x08 else if c = CHR ''f'' then CHR 0x0C
      else if c = CHR ''n'' then CHR 0x0A else if c = CHR ''r'' then CHR 0x0D
      else if c = CHR ''t'' then CHR 0x09 else c)"

function unquote :: "string \<Rightarrow> string" where
  "unquote s =
     (case s of
        [] \<Rightarrow> []
      | c # t \<Rightarrow>
          if c = CHR 0x5C then
            (case getu4 s of
               Some u \<Rightarrow>
                 if 0xD800 \<le> u \<and> u < 0xE000 then
                   (case getu4 (drop 6 s) of
                      Some v \<Rightarrow>
                        if u < 0xDC00 \<and> 0xDC00 \<le> v \<and> v < 0xE000
                        then utf8_encode ((u - 0xD800) * 1024 + (v - 0xDC00) + 0x10000) @ unquote (drop 12 s)
                        else replacement @ unquote (drop 6 s)
                    | None \<Rightarrow> replacement @ unquote (drop 6 s))
                 else utf8_encode u @ unquote (drop 6 s)
             | None \<Rightarrow> (case t of [] \<Rightarrow> [] | e # r \<Rightarrow> simple_escape e # unquote r))
          else if utf8_len s = 0 then replacement @ unquote t
          else take (utf8_len s) s @ unquote (drop (utf8_len s) s))"
  by pat_completeness auto

termination unquote
  by (relation "measure length") auto

declare unquote.simps [simp del]

section \<open>The probe\<close>

text \<open>
  One token. The field is set by a string value of the outermost object under a key that folds
  to \<open>model\<close>; a value of another type is an error \<open>Unmarshal\<close> only remembers.
\<close>

definition outermost_value :: "jstate \<Rightarrow> bool" where
  "outermost_value st \<longleftrightarrow> stack st = [True] \<and> expect st = ExpValue"

definition set_field :: "string \<Rightarrow> jstate \<Rightarrow> jstate" where
  "set_field raw st =
     (if outermost_value st \<and> equal_fold (cur_key st) ''model'' then st\<lparr>model_field := unquote raw\<rparr> else st)"

definition tok_step :: "jtok \<Rightarrow> jstate \<Rightarrow> jstate option" where
  "tok_step tk st =
     (let value = (expect st = ExpValue \<or> expect st = ExpValueOrEnd);
          key = (expect st = ExpKey \<or> expect st = ExpKeyOrEnd)
      in case tk of
           JBeginObject \<Rightarrow> if value then open_container True st else None
         | JBeginArray \<Rightarrow> if value then open_container False st else None
         | JEndObject \<Rightarrow>
             if expect st = ExpKeyOrEnd \<or> expect st = ExpCommaOrEnd then close_container True st else None
         | JEndArray \<Rightarrow>
             if expect st = ExpValueOrEnd \<or> expect st = ExpCommaOrEnd then close_container False st else None
         | JColon \<Rightarrow> if expect st = ExpColon then Some (st\<lparr>expect := ExpValue\<rparr>) else None
         | JComma \<Rightarrow>
             if expect st = ExpCommaOrEnd
             then Some (st\<lparr>expect := (if hd (stack st) then ExpKey else ExpValue)\<rparr>) else None
         | JStr raw \<Rightarrow>
             if key then
               Some (st\<lparr>expect := ExpColon,
                       cur_key := (if stack st = [True] then unquote raw else cur_key st)\<rparr>)
             else if value then Some (after_value (set_field raw st)) else None
         | JScalar \<Rightarrow> if value then Some (after_value st) else None)"

fun tok_run :: "jtok list \<Rightarrow> jstate \<Rightarrow> jstate option" where
  "tok_run [] st = Some st"
| "tok_run (tk # tks) st = (case tok_step tk st of None \<Rightarrow> None | Some st' \<Rightarrow> tok_run tks st')"

text \<open>\<open>probe.Model\<close> after \<open>json.Unmarshal(body, &probe)\<close>.\<close>

definition json_model :: "string \<Rightarrow> string" where
  "json_model body =
     (case scan_all Between body of
        None \<Rightarrow> []
      | Some tks \<Rightarrow>
          (case tok_run tks \<lparr>stack = [], expect = ExpValue, cur_key = [], model_field = []\<rparr> of
             None \<Rightarrow> []
           | Some st \<Rightarrow> if expect st = ExpNothing then model_field st else []))"

section \<open>A plain field is read back\<close>

definition plain :: "char \<Rightarrow> bool" where
  "plain c \<longleftrightarrow> CHR '' '' \<le> c \<and> of_char c < (128 :: nat) \<and> c \<noteq> CHR 0x22 \<and> c \<noteq> CHR 0x5C"

lemma scan_plain:
  assumes "list_all plain v"
  shows "scan_all (InStr acc) (v @ CHR 0x22 # r) = map_option (\<lambda>ts. JStr (rev acc @ v) # ts) (scan_all Between r)"
  using assms
proof (induction v arbitrary: acc)
  case Nil
  then show ?case by (cases "scan_all Between r") simp_all
next
  case (Cons c v)
  then have "\<not> c < CHR '' ''" "c \<noteq> CHR 0x22" "c \<noteq> CHR 0x5C" by (auto simp: plain_def)
  with Cons show ?case by (cases "scan_all Between r") simp_all
qed

lemma unquote_plain: "list_all plain v \<Longrightarrow> unquote v = v"
proof (induction v)
  case Nil
  then show ?case by (simp add: unquote.simps)
next
  case (Cons c v)
  then have "c \<noteq> CHR 0x5C" "utf8_len (c # v) = 1"
    by (auto simp: plain_def utf8_len_def between_def)
  with Cons show ?case by (simp add: unquote.simps [of "c # v"])
qed

end
