(* ===== verification/Router.thy ===== *)
theory Router
  imports PickerSpec RateLimit Forward GoJson GoPath Auth
begin

text \<open>
  internal/proxy/router.go and requestinfo.go: which node answers a request. One call of
  \<open>ServeHTTP\<close> is a function from the shared state (the membership, the in-flight count, the
  limiter) and the per-request state to the reply and both states afterwards. What happens outside,
  clocks, the state of the mesh at each call, each round trip and how much of the body a forward
  that failed has read, is the \<open>route_env\<close> argument.
\<close>

section \<open>State\<close>

definition default_max_in_flight :: nat where "default_max_in_flight = 256"

definition default_body_read_timeout :: duration where "default_body_read_timeout = 30 * second"

definition landing_path :: string where "landing_path = ''/''"

definition mesh_page_path :: string where "mesh_page_path = ''/mesh''"

record router =
  rt_max_body :: int
  rt_capacity :: nat
  rt_body_timeout :: duration

definition new_router :: "int \<Rightarrow> int \<Rightarrow> duration \<Rightarrow> router" where
  "new_router max_body max_in_flight body_read_timeout =
     \<lparr>rt_max_body = max_body,
      rt_capacity = (if max_in_flight \<le> 0 then default_max_in_flight else nat max_in_flight),
      rt_body_timeout = (if body_read_timeout \<le> 0 then default_body_read_timeout else body_read_timeout)\<rparr>"

record gw_state =
  fleet :: picker
  in_flight :: nat
  limits :: "limiter option"

text \<open>
  The \<open>RequestInfo\<close> holder, written only when the context has one, and the read deadlines set on
  the connection so far, \<open>None\<close> for clearing.
\<close>

record side =
  info_model :: string
  info_node :: string
  deadlines :: "time option list"

text \<open>The holder itself is the \<open>side\<close> of the request; the context says whether there is one.\<close>

definition context_with_request_info :: "request \<Rightarrow> request" where
  [simp]: "context_with_request_info r = r\<lparr>ctx_info := True\<rparr>"

definition request_info_from_context :: "request \<Rightarrow> bool" where
  [simp]: "request_info_from_context r \<longleftrightarrow> ctx_info r"

definition set_model :: "request \<Rightarrow> string \<Rightarrow> side \<Rightarrow> side" where
  "set_model r model sd = (if request_info_from_context r then sd\<lparr>info_model := model\<rparr> else sd)"

definition set_node :: "request \<Rightarrow> string \<Rightarrow> side \<Rightarrow> side" where
  "set_node r node sd = (if request_info_from_context r then sd\<lparr>info_node := node\<rparr> else sd)"

record route_env =
  re_oor :: "float64 \<Rightarrow> int"
  re_limit_now :: time
  re_body_now :: time
  re_pick :: fleet_env
  re_view :: fleet_env
  re_retry :: fleet_env
  re_first :: "outbound \<Rightarrow> upstream"
  re_second :: "outbound \<Rightarrow> upstream"
  re_consumed :: nat

section \<open>The concurrency tokens\<close>

text \<open>The buffered channel: how many tokens are taken, and the non-blocking send.\<close>

definition try_acquire :: "router \<Rightarrow> gw_state \<Rightarrow> gw_state option" where
  "try_acquire rt st = (if in_flight st < rt_capacity rt then Some (st\<lparr>in_flight := in_flight st + 1\<rparr>) else None)"

definition release_token :: "gw_state \<Rightarrow> gw_state" where
  "release_token st = st\<lparr>in_flight := in_flight st - 1\<rparr>"

section \<open>Local answers\<close>

definition over_capacity :: response where
  "over_capacity =
     secure_error (hdr_set [] ''Retry-After'' ''1'') status_unavailable
       ''gateway is at its concurrent in-flight request limit; retry shortly'' ''too_many_inflight_requests''"

definition retry_seconds :: "(float64 \<Rightarrow> int) \<Rightarrow> duration \<Rightarrow> int" where
  "retry_seconds oor retry_after =
     (let s = (case dur_seconds retry_after of Fin r \<Rightarrow> \<lceil>r\<rceil> | x \<Rightarrow> oor x)
      in if s < 1 then 1 else s)"

definition rate_limited :: "(float64 \<Rightarrow> int) \<Rightarrow> duration \<Rightarrow> response" where
  "rate_limited oor retry_after =
     secure_error (hdr_set [] ''Retry-After'' (format_int (retry_seconds oor retry_after)))
       status_too_many_requests
       ''rate limit exceeded for this API key; retry after the interval in the Retry-After header''
       ''rate_limit_exceeded''"

definition no_healthy_node :: response where
  "no_healthy_node = secure_error [] status_unavailable ''no mesh node is currently reachable'' ''no_healthy_node''"

section \<open>Paths\<close>

definition trimmed_clean :: "string \<Rightarrow> string" where
  "trimmed_clean p = (let cleaned = path_clean p in if cleaned \<noteq> ''/'' then trim_suffix cleaned ''/'' else cleaned)"

definition is_power_path :: "viiwork \<Rightarrow> string \<Rightarrow> bool" where
  "is_power_path V p \<longleftrightarrow>
     equal_fold (trimmed_clean p) (path_power V) \<or> equal_fold (trimmed_clean p) (path_mesh_power V)"

definition has_prefix_fold :: "string \<Rightarrow> string \<Rightarrow> bool" where
  "has_prefix_fold s pre \<longleftrightarrow> length pre \<le> length s \<and> equal_fold (take (length pre) s) pre"

definition is_alias_write :: "viiwork \<Rightarrow> string \<Rightarrow> string \<Rightarrow> bool" where
  "is_alias_write V mthd p \<longleftrightarrow>
     mthd \<noteq> ''GET'' \<and> mthd \<noteq> ''HEAD'' \<and>
     (equal_fold (trimmed_clean p) (path_aliases V) \<or> has_prefix_fold (trimmed_clean p) (path_aliases V @ ''/''))"

definition is_inference_path :: "viiwork \<Rightarrow> string \<Rightarrow> bool" where
  "is_inference_path V p \<longleftrightarrow> p = path_chat_completions V \<or> p = path_completions V \<or> p = path_embeddings V"

definition rewrite_path :: "request \<Rightarrow> string \<Rightarrow> request" where
  "rewrite_path r p = r\<lparr>req_url := (req_url r)\<lparr>path := p, raw_path := []\<rparr>\<rparr>"

section \<open>The body\<close>

datatype body_error = BodyTooLarge | ReadTimeout | ReadBroken

text \<open>
  \<open>io.ReadAll\<close> of an \<open>io.LimitReader\<close>: nothing is read below a limit of one byte, and an error
  after the last admitted byte is not seen. An error comes on a read of its own.
\<close>

definition read_limited :: "body_stream \<Rightarrow> int \<Rightarrow> (body_error, string) result" where
  "read_limited s n =
     (if n \<le> int (length (arriving s)) then Inr (take (nat n) (arriving s))
      else case ending s of
             Eof \<Rightarrow> Inr (arriving s)
           | DeadlineExceeded \<Rightarrow> Inl ReadTimeout
           | ReadFailed \<Rightarrow> Inl ReadBroken)"

definition with_body :: "request \<Rightarrow> string \<Rightarrow> request" where
  "with_body r body = r\<lparr>req_body := Some \<lparr>arriving = body, ending = Eof\<rparr>, content_length := int (length body)\<rparr>"

text \<open>
  \<open>readBody\<close>: the deadline is set before the read and cleared on every way out. \<open>maxBody+1\<close> is
  an \<open>int64\<close> addition.
\<close>

definition read_body ::
    "router \<Rightarrow> time \<Rightarrow> request \<Rightarrow> side \<Rightarrow> (body_error, string \<times> request) result \<times> side" where
  "read_body rt now r sd =
     (case req_body r of
        None \<Rightarrow> (Inr ([], r), sd)
      | Some s \<Rightarrow>
          (rbind (read_limited s (wrap64 (rt_max_body rt + 1))) (\<lambda>body.
             if int (length body) > rt_max_body rt then Inl BodyTooLarge
             else Inr (body, with_body r body)),
           sd\<lparr>deadlines := deadlines sd @ [Some (now + rt_body_timeout rt), None]\<rparr>))"

definition body_error_reply :: "body_error \<Rightarrow> response" where
  "body_error_reply e =
     (case e of
        BodyTooLarge \<Rightarrow>
          secure_error [] status_too_large ''request body exceeds the configured limit'' ''body_too_large''
      | ReadTimeout \<Rightarrow>
          secure_error [] status_request_timeout ''request body did not arrive within the allotted time'' ''body_read_timeout''
      | ReadBroken \<Rightarrow>
          secure_error [] status_bad_request ''request body could not be read in full'' ''invalid_request_body'')"

text \<open>What a forward leaves of the request: its body is read from, by as much as the transport sent.\<close>

definition consume :: "nat \<Rightarrow> request \<Rightarrow> request" where
  "consume n r = r\<lparr>req_body := map_option (\<lambda>s. s\<lparr>arriving := drop n (arriving s)\<rparr>) (req_body r)\<rparr>"

definition reset_body :: "request \<Rightarrow> string \<Rightarrow> request" where
  "reset_body r body = with_body r body"

section \<open>Routing\<close>

type_synonym handled = "reply \<times> side \<times> gw_state"

text \<open>
  A forward that holds a reservation gives it back however it ends, by a return or by the panic
  of an aborted stream.
\<close>

definition forward_holding ::
    "(outbound \<Rightarrow> upstream) \<Rightarrow> request \<Rightarrow> string \<Rightarrow> 64 word \<Rightarrow> gw_state \<Rightarrow> forwarded \<times> gw_state" where
  "forward_holding tr r addr rid st = (forward_to tr r addr, st\<lparr>fleet := delete_held rid (fleet st)\<rparr>)"

text \<open>What \<open>forward_to\<close> left to answer: the 502 of a node that was not reached.\<close>

definition settle :: "forwarded \<Rightarrow> string \<Rightarrow> reply" where
  "settle f node = (case f of Unreachable \<Rightarrow> Reply [] (unreachable_error node) | Wrote rp \<Rightarrow> rp)"

definition to_view :: "(outbound \<Rightarrow> upstream) \<Rightarrow> request \<Rightarrow> target \<Rightarrow> side \<Rightarrow> gw_state \<Rightarrow> handled" where
  "to_view tr r t sd st = (settle (forward_to tr r (t_api_addr t)) (t_node t), set_node r (t_node t) sd, st)"

text \<open>The second attempt, after the first node could not be dialled; \<open>r\<close> is what that forward left.\<close>

definition retry_elsewhere ::
    "viiwork \<Rightarrow> route_env \<Rightarrow> request \<Rightarrow> string \<Rightarrow> string \<Rightarrow> target \<Rightarrow> side \<Rightarrow> gw_state \<Rightarrow> handled" where
  "retry_elsewhere V env r body model failed sd st =
     (let r = reset_body r body
      in case fleet_pick V (re_retry env) model [t_node failed] (fleet st) of
           (None, p) \<Rightarrow> (Reply [] (unreachable_error (t_node failed)), sd, st\<lparr>fleet := p\<rparr>)
         | (Some (second_t, rid), p) \<Rightarrow>
             (case forward_holding (re_second env) r (t_api_addr second_t) rid (st\<lparr>fleet := p\<rparr>) of
                (f, st) \<Rightarrow> (settle f (t_node second_t), set_node r (t_node second_t) sd, st)))"

text \<open>From the body on, with a concurrency token held.\<close>

definition model_forward ::
    "viiwork \<Rightarrow> route_env \<Rightarrow> request \<Rightarrow> string \<Rightarrow> side \<Rightarrow> gw_state \<Rightarrow> handled" where
  "model_forward V env r body sd st =
     (let model = json_model body; sd = set_model r model sd
      in case fleet_pick V (re_pick env) model [] (fleet st) of
           (None, p) \<Rightarrow>
             (case fleet_view V (re_view env) p of
                (None, p) \<Rightarrow> (Reply [] no_healthy_node, sd, st\<lparr>fleet := p\<rparr>)
              | (Some t, p) \<Rightarrow> to_view (re_first env) r t sd (st\<lparr>fleet := p\<rparr>))
         | (Some (t, rid), p) \<Rightarrow>
             (let sd = set_node r (t_node t) sd
              in case forward_holding (re_first env) r (t_api_addr t) rid (st\<lparr>fleet := p\<rparr>) of
                   (Wrote rp, st) \<Rightarrow> (rp, sd, st)
                 | (Unreachable, st) \<Rightarrow> 
                     retry_elsewhere V env (consume (re_consumed env) r) body model t sd st))"

text \<open>A handler run with a token, which is given back on every way out.\<close>

definition with_token :: "router \<Rightarrow> side \<Rightarrow> gw_state \<Rightarrow> (gw_state \<Rightarrow> handled) \<Rightarrow> handled" where
  "with_token rt sd st f =
     (case try_acquire rt st of
        None \<Rightarrow> (Reply [] over_capacity, sd, st)
      | Some st \<Rightarrow> (case f st of (rp, sd, st) \<Rightarrow> (rp, sd, release_token st)))"

definition route_by_model :: "viiwork \<Rightarrow> router \<Rightarrow> route_env \<Rightarrow> request \<Rightarrow> side \<Rightarrow> gw_state \<Rightarrow> handled" where
  "route_by_model V rt env r sd st =
     (case allow (re_oor env) (limits st) (label_from_context r) (re_limit_now env) of
        ((allowed, retry_after), lm) \<Rightarrow>
          (let st = st\<lparr>limits := lm\<rparr>
           in if \<not> allowed then (Reply [] (rate_limited (re_oor env) retry_after), sd, st)
              else with_token rt sd st (\<lambda>st.
                     case read_body rt (re_body_now env) r sd of
                       (Inl e, sd) \<Rightarrow> (Reply [] (body_error_reply e), sd, st)
                     | (Inr (body, r), sd) \<Rightarrow> model_forward V env r body sd st)))"

definition route_to_view :: "viiwork \<Rightarrow> router \<Rightarrow> route_env \<Rightarrow> request \<Rightarrow> side \<Rightarrow> gw_state \<Rightarrow> handled" where
  "route_to_view V rt env r sd st =
     with_token rt sd st (\<lambda>st.
       case fleet_view V (re_view env) (fleet st) of
         (None, p) \<Rightarrow> (Reply [] no_healthy_node, sd, st\<lparr>fleet := p\<rparr>)
       | (Some t, p) \<Rightarrow>
           (case read_body rt (re_body_now env) r sd of
              (Inl e, sd) \<Rightarrow> (Reply [] (body_error_reply e), sd, st\<lparr>fleet := p\<rparr>)
            | (Inr (_, r), sd) \<Rightarrow> to_view (re_first env) r t sd (st\<lparr>fleet := p\<rparr>)))"

definition serve_http :: "viiwork \<Rightarrow> router \<Rightarrow> route_env \<Rightarrow> request \<Rightarrow> side \<Rightarrow> gw_state \<Rightarrow> handled" where
  "serve_http V rt env r sd st =
     (let p = path (req_url r)
      in if is_power_path V p then
           (Reply [] (secure_error [] status_forbidden
              ''chassis power control is not available through the gateway; use the tailnet'' ''forbidden_path''), sd, st)
         else if is_alias_write V (req_method r) p then
           (Reply [] (secure_error [] status_forbidden
              ''alias writes are not available through the gateway; use viiwork alias on the tailnet'' ''forbidden_path''), sd, st)
         else if req_method r = ''POST'' \<and> is_inference_path V p then route_by_model V rt env r sd st
         else if req_method r = ''GET'' \<and> p = landing_path then
           route_to_view V rt env (rewrite_path r mesh_page_path) sd st
         else route_to_view V rt env r sd st)"

end
