(* ===== verification/RouterSpec.thy ===== *)
theory RouterSpec
  imports Router ForwardSpec RateLimitSpec
begin

text \<open>
  The properties of the router: what it refuses, what it gives back, how it retries, how it bounds
  a body and what it answers by itself.
\<close>

text \<open>Whatever the first forward has read of the body, the second starts with all of it.\<close>

lemma reset_consumed [simp]: "reset_body (consume n r) b = reset_body r b"
  by (simp add: reset_body_def with_body_def consume_def)

lemma retry_consumed [simp]:
  "retry_elsewhere V env (consume n r) b model t sd st = retry_elsewhere V env r b model t sd st"
  by (simp add: retry_elsewhere_def)

section \<open>Resources\<close>

text \<open>What one request may leave behind: nothing but used-up reservation ids, at most two.\<close>

definition balanced :: "gw_state \<Rightarrow> gw_state \<Rightarrow> bool" where
  "balanced st st' \<longleftrightarrow> in_flight st' = in_flight st \<and> picker_inv (fleet st') \<and>
     outstanding (fleet st') = outstanding (fleet st) \<and> id_budget (fleet st) \<le> id_budget (fleet st') + 2"

lemma balanced_refl: "picker_inv (fleet st) \<Longrightarrow> balanced st st"
  by (simp add: balanced_def)

lemma forward_holding_back:
  assumes "picker_inv (fleet st)" "0 < id_budget (fleet st)"
    and "fleet_pick V e model ex (fleet st) = (Some (t, rid), p)"
    and "forward_holding tr r addr rid (st\<lparr>fleet := p\<rparr>) = (f, st')"
  shows "picker_inv (fleet st')" "outstanding (fleet st') = outstanding (fleet st)"
    "id_budget (fleet st') = id_budget (fleet st) - 1" "in_flight st' = in_flight st" "limits st' = limits st"
proof -
  have st': "st' = st\<lparr>fleet := delete_held rid p\<rparr>" using assms(4) by (auto simp: forward_holding_def)
  note bk = mesh_fleet.pick_release [OF assms(1-3)]
  show "picker_inv (fleet st')" "outstanding (fleet st') = outstanding (fleet st)"
    "id_budget (fleet st') = id_budget (fleet st) - 1"
    using bk by (simp_all add: st')
  show "in_flight st' = in_flight st" "limits st' = limits st" by (simp_all add: st')
qed

lemma retry_balanced:
  assumes "picker_inv (fleet st)" "0 < id_budget (fleet st)"
    and "retry_elsewhere V env r body model t sd st = (rp, sd', st')"
  shows "in_flight st' = in_flight st \<and> limits st' = limits st \<and> picker_inv (fleet st') \<and>
     outstanding (fleet st') = outstanding (fleet st) \<and> id_budget (fleet st) \<le> id_budget (fleet st') + 1"
proof -
  let ?pk = "fleet_pick V (re_retry env) model [t_node t] (fleet st)"
  show ?thesis
  proof (cases "fst ?pk")
    case None
    then obtain p where p: "?pk = (None, p)" by (cases ?pk) auto
    with mesh_fleet.pick_none [OF p] assms show ?thesis by (auto simp: retry_elsewhere_def Let_def)
  next
    case (Some tr)
    then obtain t2 rid p where p: "?pk = (Some (t2, rid), p)" by (cases ?pk; cases tr) auto
    obtain f q where f: "forward_holding (re_second env) (reset_body r body) (t_api_addr t2) rid (st\<lparr>fleet := p\<rparr>) = (f, q)"
      by (cases "forward_holding (re_second env) (reset_body r body) (t_api_addr t2) rid (st\<lparr>fleet := p\<rparr>)") auto
    have "st' = q" using assms(3) p f by (auto simp: retry_elsewhere_def Let_def)
    then show ?thesis using forward_holding_back [OF assms(1,2) p f] assms(2) by simp
  qed
qed

lemma view_balanced:
  assumes "picker_inv (fleet st)" "fleet_view V e (fleet st) = (v, p)"
  shows "picker_inv p" "outstanding p = outstanding (fleet st)" "id_budget p = id_budget (fleet st)"
  using mesh_fleet.view_keeps [OF assms] by simp_all

lemma model_forward_balanced:
  assumes inv: "picker_inv (fleet st)" and b: "2 \<le> id_budget (fleet st)"
    and m: "model_forward V env r body sd st = (rp, sd', st')"
  shows "balanced st st' \<and> limits st' = limits st"
proof -
  let ?model = "json_model body"
  let ?pk = "fleet_pick V (re_pick env) ?model [] (fleet st)"
  show ?thesis
  proof (cases "fst ?pk")
    case None
    then obtain p0 where p0: "?pk = (None, p0)" by (cases ?pk) auto
    have p: "p0 = fleet st" by (rule mesh_fleet.pick_none [OF p0])
    obtain v q where v: "fleet_view V (re_view env) (fleet st) = (v, q)"
      by (cases "fleet_view V (re_view env) (fleet st)") auto
    have "st' = st\<lparr>fleet := q\<rparr>"
      using m p0 v p by (cases v) (auto simp: model_forward_def Let_def to_view_def)
    with view_balanced [OF inv v] show ?thesis by (simp add: balanced_def)
  next
    case (Some tr)
    then obtain t rid p where p: "?pk = (Some (t, rid), p)" by (cases ?pk; cases tr) auto
    obtain f q where f: "forward_holding (re_first env) r (t_api_addr t) rid (st\<lparr>fleet := p\<rparr>) = (f, q)"
      by (cases "forward_holding (re_first env) r (t_api_addr t) rid (st\<lparr>fleet := p\<rparr>)") auto
    have b0: "0 < id_budget (fleet st)" using b by simp
    note bk = forward_holding_back [OF inv b0 p f]
    show ?thesis
    proof (cases f)
      case (Wrote rp')
      then have "st' = q" using m p f by (auto simp: model_forward_def Let_def)
      with bk b show ?thesis by (simp add: balanced_def)
    next
      case Unreachable
      then have "retry_elsewhere V env r body ?model t (set_node r (t_node t) (set_model r ?model sd)) q = (rp, sd', st')"
        using m p f by (simp add: model_forward_def Let_def)
      from retry_balanced [OF _ _ this] bk b show ?thesis by (auto simp: balanced_def)
    qed
  qed
qed

lemma with_token_balanced:
  assumes "with_token rt sd st f = (rp, sd', st')" and "picker_inv (fleet st)" and "2 \<le> id_budget (fleet st)"
    and "\<And>s rp sd' s'. f s = (rp, sd', s') \<Longrightarrow> picker_inv (fleet s) \<Longrightarrow> 2 \<le> id_budget (fleet s) \<Longrightarrow> balanced s s'"
  shows "balanced st st'"
proof (cases "in_flight st < rt_capacity rt")
  case False
  with assms(1,2) show ?thesis by (auto simp: with_token_def try_acquire_def balanced_refl)
next
  case True
  let ?s = "st\<lparr>in_flight := in_flight st + 1\<rparr>"
  obtain rp1 sd1 s1 where f: "f ?s = (rp1, sd1, s1)" by (cases "f ?s") auto
  with True assms(1) have "st' = release_token s1" by (simp add: with_token_def try_acquire_def)
  moreover have "balanced ?s s1" using assms(4) [OF f] assms(2,3) by simp
  ultimately show ?thesis by (simp add: balanced_def release_token_def)
qed

lemma route_to_view_balanced:
  assumes "route_to_view V rt env r sd st = (rp, sd', st')" and "picker_inv (fleet st)" and "2 \<le> id_budget (fleet st)"
  shows "balanced st st'"
  using assms unfolding route_to_view_def
proof (rule with_token_balanced)
  fix s rp sd' s'
  assume h: "(case fleet_view V (re_view env) (fleet s) of
         (None, p) \<Rightarrow> (Reply [] no_healthy_node, sd, s\<lparr>fleet := p\<rparr>)
       | (Some t, p) \<Rightarrow>
           (case read_body rt (re_body_now env) r sd of
              (Inl e, sd) \<Rightarrow> (Reply [] (body_error_reply e), sd, s\<lparr>fleet := p\<rparr>)
            | (Inr (_, r), sd) \<Rightarrow> to_view (re_first env) r t sd (s\<lparr>fleet := p\<rparr>))) = (rp, sd', s')"
    and i: "picker_inv (fleet s)" and "2 \<le> id_budget (fleet s)"
  obtain v p where v: "fleet_view V (re_view env) (fleet s) = (v, p)"
    by (cases "fleet_view V (re_view env) (fleet s)") auto
  have "s' = s\<lparr>fleet := p\<rparr>"
    using h v by (auto simp: to_view_def split: option.splits prod.splits sum.splits)
  with view_balanced [OF i v] show "balanced s s'" by (simp add: balanced_def)
qed

lemma route_by_model_balanced:
  assumes "route_by_model V rt env r sd st = (rp, sd', st')" and "picker_inv (fleet st)" and "2 \<le> id_budget (fleet st)"
  shows "balanced st st'"
proof -
  obtain ok wait lm where a: "allow (re_oor env) (limits st) (label_from_context r) (re_limit_now env) = ((ok, wait), lm)"
    by (cases "allow (re_oor env) (limits st) (label_from_context r) (re_limit_now env)") auto
  let ?st = "st\<lparr>limits := lm\<rparr>"
  show ?thesis
  proof (cases ok)
    case False
    with a assms show ?thesis by (auto simp: route_by_model_def balanced_def)
  next
    case True
    let ?f = "\<lambda>st. case read_body rt (re_body_now env) r sd of
        (Inl e, sd) \<Rightarrow> (Reply [] (body_error_reply e), sd, st)
      | (Inr (body, r), sd) \<Rightarrow> model_forward V env r body sd st"
    have w: "with_token rt sd ?st ?f = (rp, sd', st')"
      using assms(1) a True by (simp add: route_by_model_def)
    have "balanced ?st st'"
    proof (rule with_token_balanced [OF w])
      fix s rp sd' s'
      assume "?f s = (rp, sd', s')" "picker_inv (fleet s)" "2 \<le> id_budget (fleet s)"
      then show "balanced s s'"
        by (auto simp: balanced_refl dest: model_forward_balanced split: prod.splits sum.splits)
    qed (use assms in simp_all)
    then show ?thesis by (simp add: balanced_def)
  qed
qed

text \<open>No request leaks a resource. Whatever its path, body and outcome, an aborted stream and a
  failed retry included, when it is over the count of requests in flight and the reservations
  held are what they were before it.\<close>

theorem serve_balanced:
  assumes "serve_http V rt env r sd st = (rp, sd', st')" and "picker_inv (fleet st)" and "2 \<le> id_budget (fleet st)"
  shows "in_flight st' = in_flight st \<and> outstanding (fleet st') = outstanding (fleet st) \<and> picker_inv (fleet st')"
proof -
  have "balanced st st'"
    using assms route_by_model_balanced route_to_view_balanced
    by (auto simp: serve_http_def Let_def balanced_refl split: if_splits)
  then show ?thesis by (simp add: balanced_def)
qed

section \<open>What is refused\<close>

lemma trimmed_rooted: "trimmed_clean (CHR ''/'' # p) = CHR ''/'' # join ''/'' (resolve (CHR ''/'' # p))"
  using path_clean_no_trailing [of p]
  by (auto simp: trimmed_clean_def Let_def trim_suffix_def path_clean_rooted)

lemma to_lower_join: "to_lower (join ''/'' es) = join ''/'' (map to_lower es)"
proof (induction "''/''" es rule: join.induct)
  case (3 x y es)
  then show ?case by (simp add: to_lower_def to_lower_char_def)
qed (simp_all add: to_lower_def)

lemma to_lower_slash: "CHR ''/'' \<in> set (to_lower s) \<longleftrightarrow> CHR ''/'' \<in> set s"
proof -
  have d: "x = CHR ''/'' \<longleftrightarrow> byte x = 47" for x
    using of_char_eq_iff [of x "CHR ''/''", where ?'a = nat] by simp
  have "to_lower_char c = CHR ''/'' \<longleftrightarrow> c = CHR ''/''" for c
    unfolding d of_char_case by auto
  then have "(\<exists>x \<in> set s. CHR ''/'' = to_lower_char x) \<longleftrightarrow> CHR ''/'' \<in> set s" by metis
  then show ?thesis by (simp only: to_lower_def set_map image_iff)
qed

text \<open>A cleaned path and a documented one agree without regard to case as their elements do.\<close>

lemma lower_elems:
  assumes "list_all elem_ok es" "fs \<noteq> []" "\<forall>f \<in> set fs. CHR ''/'' \<notin> set f \<and> f \<noteq> []"
  shows "to_lower (CHR ''/'' # join ''/'' es) = CHR ''/'' # join ''/'' fs \<longleftrightarrow> map to_lower es = fs"
proof
  assume "map to_lower es = fs"
  then show "to_lower (CHR ''/'' # join ''/'' es) = CHR ''/'' # join ''/'' fs"
    using to_lower_join [of es] by (simp add: to_lower_def to_lower_char_def)
next
  assume "to_lower (CHR ''/'' # join ''/'' es) = CHR ''/'' # join ''/'' fs"
  then have j: "join ''/'' (map to_lower es) = join ''/'' fs"
    using to_lower_join [of es] by (simp add: to_lower_def)
  have sf: "split_on CHR ''/'' (join ''/'' fs) = fs" using assms(2,3) by (intro split_join) auto
  show "map to_lower es = fs"
  proof (cases "es = []")
    case True
    with j sf have "fs = [[]]" by simp
    with assms(3) show ?thesis by simp
  next
    case False
    then have "split_on CHR ''/'' (join ''/'' (map to_lower es)) = map to_lower es"
      using assms(1) by (intro split_join) (auto simp: list_all_iff elem_ok_def to_lower_slash)
    with j sf show ?thesis by simp
  qed
qed

lemma ascii_lower: "is_ascii (to_lower s) \<longleftrightarrow> is_ascii s"
proof -
  have "byte (to_lower_char c) < 128 \<longleftrightarrow> byte c < 128" for c by (simp add: of_char_case)
  then show ?thesis by (auto simp: is_ascii_def to_lower_def)
qed

lemma fold_lower_ascii: "is_ascii t \<Longrightarrow> to_lower s = to_lower t \<Longrightarrow> equal_fold s t"
  using ascii_lower [of s] ascii_lower [of t] by (intro equal_fold_lower) simp_all

definition power_elems :: "string list set" where
  "power_elems = {[''v1'', ''power''], [''v1'', ''mesh'', ''power'']}"

lemma power_path_denied:
  assumes "documented_paths V" "map to_lower (resolve (CHR ''/'' # p)) \<in> power_elems"
  shows "is_power_path V (CHR ''/'' # p)"
proof -
  let ?es = "resolve (CHR ''/'' # p)"
  have c: "to_lower ''/v1/power'' = ''/v1/power''" "to_lower ''/v1/mesh/power'' = ''/v1/mesh/power''"
    "is_ascii ''/v1/power''" "is_ascii ''/v1/mesh/power''" by code_simp+
  from assms(2) consider "map to_lower ?es = [''v1'', ''power'']" | "map to_lower ?es = [''v1'', ''mesh'', ''power'']"
    by (auto simp: power_elems_def)
  then show ?thesis
  proof cases
    case 1
    then have "to_lower (CHR ''/'' # join ''/'' ?es) = ''/v1/power''"
      using lower_elems [OF resolve_ok, of "[''v1'', ''power'']" "CHR ''/'' # p"] by simp
    with c have "equal_fold (CHR ''/'' # join ''/'' ?es) ''/v1/power''" by (intro fold_lower_ascii) simp_all
    then show ?thesis using assms(1) by (simp add: is_power_path_def trimmed_rooted documented_paths_def)
  next
    case 2
    then have "to_lower (CHR ''/'' # join ''/'' ?es) = ''/v1/mesh/power''"
      using lower_elems [OF resolve_ok, of "[''v1'', ''mesh'', ''power'']" "CHR ''/'' # p"] by simp
    with c have "equal_fold (CHR ''/'' # join ''/'' ?es) ''/v1/mesh/power''" by (intro fold_lower_ascii) simp_all
    then show ?thesis using assms(1) by (simp add: is_power_path_def trimmed_rooted documented_paths_def)
  qed
qed

lemma has_prefix_fold_lower:
  assumes "to_lower s = t @ u" "is_ascii t" "to_lower t = t"
  shows "has_prefix_fold s t"
proof -
  have "to_lower (take (length t) s) = take (length t) (to_lower s)" by (simp add: to_lower_def take_map)
  then have "to_lower (take (length t) s) = to_lower t" using assms(1,3) by simp
  moreover have "length t \<le> length (to_lower s)" using assms(1) by simp
  ultimately show ?thesis using assms(2) fold_lower_ascii by (simp add: has_prefix_fold_def)
qed

lemma alias_path_denied:
  assumes "documented_paths V" "map to_lower (resolve (CHR ''/'' # p)) = [''v1'', ''aliases''] @ fs"
    and "mthd \<notin> {''GET'', ''HEAD''}"
  shows "is_alias_write V mthd (CHR ''/'' # p)"
proof -
  let ?es = "resolve (CHR ''/'' # p)"
  define c where "c = CHR ''/'' # join ''/'' ?es"
  have k: "to_lower ''/v1/aliases'' = ''/v1/aliases''" "to_lower ''/v1/aliases/'' = ''/v1/aliases/''"
    "is_ascii ''/v1/aliases''" "is_ascii ''/v1/aliases/''" by code_simp+
  have "equal_fold c ''/v1/aliases'' \<or> has_prefix_fold c ''/v1/aliases/''"
  proof (cases "fs = []")
    case True
    then have "to_lower c = ''/v1/aliases''"
      using assms(2) lower_elems [OF resolve_ok, of "[''v1'', ''aliases'']" "CHR ''/'' # p"] by (simp add: c_def)
    then have "to_lower c = to_lower ''/v1/aliases''" by (simp only: k(1))
    from fold_lower_ascii [OF k(3) this] show ?thesis ..
  next
    case False
    have "to_lower c = ''/v1/aliases/'' @ join ''/'' fs"
      using assms(2) False to_lower_join [of ?es]
      by (cases fs) (simp_all add: c_def to_lower_def to_lower_char_def)
    from has_prefix_fold_lower [OF this k(4,2)] show ?thesis ..
  qed
  then show ?thesis using assms(1,3) by (simp add: is_alias_write_def trimmed_rooted documented_paths_def c_def)
qed

lemma documented_sample: "documented_paths sample_viiwork"
  by (simp add: documented_paths_def sample_viiwork_def)

definition sample_env :: route_env where
  "sample_env = \<lparr>re_oor = (\<lambda>_. 0), re_limit_now = sample_now, re_body_now = sample_now,
     re_pick = \<lparr>fe_view = sample_mesh, fe_now = sample_now\<rparr>, re_view = \<lparr>fe_view = sample_mesh, fe_now = sample_now\<rparr>,
     re_retry = \<lparr>fe_view = sample_mesh, fe_now = sample_now\<rparr>, re_first = sample_node, re_second = sample_node, re_consumed = 3\<rparr>"

definition sample_side :: side where
  "sample_side = \<lparr>info_model = [], info_node = [], deadlines = []\<rparr>"

definition sample_state :: gw_state where
  "sample_state = \<lparr>fleet = sample_picker, in_flight = 0, limits = None\<rparr>"

definition sample_router :: router where
  "sample_router = new_router 100 2 0"

definition get_of :: "string \<Rightarrow> string \<Rightarrow> request" where
  "get_of mthd p = sample_wire\<lparr>req_method := mthd, req_url := (req_url sample_wire)\<lparr>path := p\<rparr>\<rparr>"

theorem serve_balanced_witness:
  "in_flight (snd (snd (serve_http sample_viiwork sample_router sample_env sample_wire sample_side sample_state))) = 0 \<and>
   outstanding (fleet (snd (snd (serve_http sample_viiwork sample_router sample_env sample_wire sample_side sample_state)))) = {#}"
proof -
  obtain rp sd st where h: "serve_http sample_viiwork sample_router sample_env sample_wire sample_side sample_state = (rp, sd, st)"
    by (cases "serve_http sample_viiwork sample_router sample_env sample_wire sample_side sample_state") auto
  have "picker_inv (fleet sample_state)" "2 \<le> id_budget (fleet sample_state)"
    by (simp_all add: sample_state_def sample_picker_inv)
  from serve_balanced [OF h this] h show ?thesis
    by (simp add: sample_state_def outstanding_def sample_picker_fields)
qed

section \<open>Limits\<close>

text \<open>A throttled request costs nothing else. When the key's bucket is empty an inference request is
  answered with 429 before a concurrency token is taken, the body read, a node picked or a forward
  started: only the limiter changes. Its Retry-After is a whole number of seconds, at least one.\<close>

theorem throttled_first:
  assumes "\<not> is_power_path V (path (req_url r))" and "is_inference_path V (path (req_url r))"
    and "\<not> is_alias_write V ''POST'' (path (req_url r))" and "req_method r = ''POST''"
    and "allow (re_oor env) (limits st) (ctx_label r) (re_limit_now env) = ((False, wait), lm)"
  shows "\<exists>res. serve_http V rt env r sd st = (Reply [] res, sd, st\<lparr>limits := lm\<rparr>) \<and>
     status res = status_too_many_requests \<and>
     hdr_values (r_header res) ''Retry-After'' = [format_int (retry_seconds (re_oor env) wait)] \<and>
     1 \<le> retry_seconds (re_oor env) wait"
proof -
  have n: "canon ''Retry-After'' = ''Retry-After''" "canon ''Content-Type'' = ''Content-Type''"
    "canon ''X-Content-Type-Options'' = ''X-Content-Type-Options''" "canon ''X-Frame-Options'' = ''X-Frame-Options''"
    "canon ''Content-Security-Policy'' = ''Content-Security-Policy''" by code_simp+
  have "hdr_values (r_header (rate_limited (re_oor env) wait)) ''Retry-After'' = [format_int (retry_seconds (re_oor env) wait)]"
    by (simp add: rate_limited_def secure_error_def write_error_def set_security_headers_def hdr_values_set n)
  moreover have "status (rate_limited (re_oor env) wait) = status_too_many_requests"
    by (simp add: rate_limited_def secure_error_def write_error_def)
  moreover have "1 \<le> retry_seconds (re_oor env) wait" by (simp add: retry_seconds_def Let_def)
  moreover have "serve_http V rt env r sd st = (Reply [] (rate_limited (re_oor env) wait), sd, st\<lparr>limits := lm\<rparr>)"
    using assms by (simp add: serve_http_def Let_def route_by_model_def label_from_context_def)
  ultimately show ?thesis by blast
qed

definition drained :: limiter where
  "drained = sample_limiter\<lparr>buckets := (\<lambda>_. None)(''laptop'' \<mapsto> \<lparr>tokens = Fin 0, last_at = sample_now\<rparr>)\<rparr>"

lemma drained_denies: "\<exists>w. allow oor (Some drained) ''laptop'' sample_now = ((False, w), Some drained)"
  by (simp add: allow_def Let_def drained_def sample_rate refill_same_instant fun_upd_idem)

theorem throttled_first_witness:
  "\<exists>res. fst (serve_http sample_viiwork sample_router sample_env (get_of ''POST'' ''/v1/completions'') sample_side
     (sample_state\<lparr>limits := Some drained\<rparr>)) = Reply [] res \<and> status res = status_too_many_requests"
proof -
  let ?r = "get_of ''POST'' ''/v1/completions''"
  have p: "path (req_url ?r) = ''/v1/completions''" "req_method ?r = ''POST''" "ctx_label ?r = ''laptop''"
    by (simp_all add: get_of_def sample_wire_def)
  have d: "\<not> is_power_path sample_viiwork ''/v1/completions''" "\<not> is_alias_write sample_viiwork ''POST'' ''/v1/completions''"
    unfolding is_power_path_def is_alias_write_def sample_viiwork_def by code_simp+
  have i: "is_inference_path sample_viiwork ''/v1/completions''" by (simp add: is_inference_path_def sample_viiwork_def)
  obtain w where w: "allow (\<lambda>_. 0) (Some drained) ''laptop'' sample_now = ((False, w), Some drained)"
    using drained_denies by blast
  have a: "allow (re_oor sample_env) (limits (sample_state\<lparr>limits := Some drained\<rparr>)) (ctx_label ?r) (re_limit_now sample_env) =
      ((False, w), Some drained)" using w p by (simp add: sample_env_def)
  from throttled_first [of sample_viiwork ?r sample_env, OF _ _ _ _ a, unfolded p, OF d(1) i d(2) refl,
      where rt = sample_router and sd = sample_side]
  show ?thesis by (elim exE conjE) simp
qed

text \<open>The in-flight cap holds at every entry. With all tokens taken an inference request the limiter
  lets through and every other request is answered with 503 and nothing but the limiter changes;
  no body is read and no node is asked.\<close>

theorem over_cap_refused:
  assumes "rt_capacity rt \<le> in_flight st"
  shows "route_to_view V rt env r sd st = (Reply [] over_capacity, sd, st) \<and>
     (\<exists>res lm. route_by_model V rt env r sd st = (Reply [] res, sd, st\<lparr>limits := lm\<rparr>) \<and>
        status res \<in> {status_unavailable, status_too_many_requests})"
proof -
  have w: "with_token rt sd s f = (Reply [] over_capacity, sd, s)" if "in_flight s = in_flight st" for s f
    using assms that by (simp add: with_token_def try_acquire_def)
  have s: "status over_capacity = status_unavailable" "status (rate_limited oor x) = status_too_many_requests" for oor x
    by (simp_all add: over_capacity_def rate_limited_def secure_error_def write_error_def)
  show ?thesis
    using w [of st] w [of "st\<lparr>limits := lm\<rparr>" for lm] s
    by (auto simp: route_to_view_def route_by_model_def Let_def split: prod.split)
qed

theorem over_cap_refused_witness:
  "route_to_view sample_viiwork sample_router sample_env sample_wire sample_side (sample_state\<lparr>in_flight := 2\<rparr>) =
     (Reply [] over_capacity, sample_side, sample_state\<lparr>in_flight := 2\<rparr>)"
  using over_cap_refused [of sample_router "sample_state\<lparr>in_flight := 2\<rparr>"]
  by (simp add: sample_router_def new_router_def)

section \<open>Bodies\<close>

text \<open>C29: the body limit is exact and a body is all or nothing. Below the largest configurable limit, a
  body longer than the limit is refused however it ends, one that does not arrive in full is refused
  by how it failed, and any other is forwarded byte for byte. The read deadline set before the read
  is cleared on every one of these ways.\<close>

theorem read_body_spec:
  assumes "0 \<le> rt_max_body rt" and "rt_max_body rt < max_int64" and "req_body r = Some s"
  shows "read_body rt now r sd =
     (if rt_max_body rt < int (length (arriving s)) then Inl BodyTooLarge
      else (case ending s of
              Eof \<Rightarrow> Inr (arriving s, with_body r (arriving s))
            | DeadlineExceeded \<Rightarrow> Inl ReadTimeout
            | ReadFailed \<Rightarrow> Inl ReadBroken),
      sd\<lparr>deadlines := deadlines sd @ [Some (now + rt_body_timeout rt), None]\<rparr>)"
proof -
  have w: "wrap64 (rt_max_body rt + 1) = rt_max_body rt + 1"
    using assms(1,2) by (intro wrap64_id) (simp add: in_int64_def max_int64_def min_int64_def)
  show ?thesis
    using assms by (auto simp: read_body_def read_limited_def w split: read_end.split)
qed

theorem read_body_spec_witness:
  "fst (read_body sample_router 0 (sample_wire\<lparr>req_body := Some \<lparr>arriving = ''hi'', ending = Eof\<rparr>\<rparr>) sample_side) =
     Inr (''hi'', with_body (sample_wire\<lparr>req_body := Some \<lparr>arriving = ''hi'', ending = Eof\<rparr>\<rparr>) ''hi'')"
  by (subst read_body_spec [where s = "\<lparr>arriving = ''hi'', ending = Eof\<rparr>"])
    (simp_all add: sample_router_def new_router_def max_int64_def)

text \<open>C37: The largest limit drops every body. With the limit at the top of int64, which the configuration
  accepts, the limit plus one wraps around, nothing is read, and every request is forwarded with an
  empty body as if the client had sent none.\<close>

theorem max_limit_drops_body:
  assumes "rt_max_body rt = max_int64" and "req_body r = Some s"
  shows "fst (read_body rt now r sd) = Inr ([], with_body r [])"
proof -
  have "wrap64 (max_int64 + 1) = min_int64" by (simp add: wrap64_def max_int64_def min_int64_def)
  then show ?thesis
    using assms by (simp add: read_body_def read_limited_def min_int64_def max_int64_def)
qed

theorem max_limit_drops_body_witness:
  "fst (read_body (new_router max_int64 2 0) 0 (sample_wire\<lparr>req_body := Some \<lparr>arriving = ''hi'', ending = Eof\<rparr>\<rparr>) sample_side) =
     Inr ([], with_body (sample_wire\<lparr>req_body := Some \<lparr>arriving = ''hi'', ending = Eof\<rparr>\<rparr>) [])"
  by (rule max_limit_drops_body) (simp_all add: new_router_def)

section \<open>The retry\<close>

text \<open>C4: a node that cannot be dialled is retried once, elsewhere, with the same request. Its reservation
  is back before the second pick, the second node is another one and is sent the request with the
  body the client posted, all of it, however much of it the first forward has read; its outcome is
  the reply. With no other node, or if that one cannot be dialled either, the reply is the gateway's
  own 502.\<close>

theorem retry_once:
  assumes "fleet_pick V (re_pick env) (json_model body) [] (fleet st) = (Some (t, rid), p)"
    and "forward_to (re_first env) r (t_api_addr t) = Unreachable" and "r = with_body r0 body"
  shows "case fleet_pick V (re_retry env) (json_model body) [t_node t] (delete_held rid p) of
     (None, p2) \<Rightarrow> fst (model_forward V env r body sd st) = Reply [] (unreachable_error (t_node t))
   | (Some (t2, rid2), p2) \<Rightarrow> t_node t2 \<noteq> t_node t \<and>
       fst (model_forward V env r body sd st) = settle (forward_to (re_second env) r (t_api_addr t2)) (t_node t2)"
proof -
  have r: "reset_body r body = r" by (simp add: reset_body_def with_body_def assms(3))
  let ?pk = "fleet_pick V (re_retry env) (json_model body) [t_node t] (delete_held rid p)"
  have m: "model_forward V env r body sd st =
      retry_elsewhere V env r body (json_model body) t (set_node r (t_node t) (set_model r (json_model body) sd))
        (st\<lparr>fleet := delete_held rid p\<rparr>)"
    using assms(1,2) by (simp add: model_forward_def Let_def forward_holding_def)
  show ?thesis
  proof (cases "fst ?pk")
    case None
    then obtain q where "?pk = (None, q)" by (cases ?pk) auto
    then show ?thesis by (simp add: m retry_elsewhere_def Let_def)
  next
    case (Some tr)
    then obtain t2 rid2 q where q: "?pk = (Some (t2, rid2), q)" by (cases ?pk; cases tr) auto
    have "t_node t2 \<noteq> t_node t" using pick_not_excluded [OF q [unfolded fleet_pick_def]] by simp
    with q show ?thesis by (simp add: m retry_elsewhere_def Let_def r forward_holding_def)
  qed
qed

definition sample_body :: string where
  "sample_body = ''{'' @ [CHR 0x22] @ ''model'' @ [CHR 0x22] @ '':'' @ [CHR 0x22] @ ''m'' @ [CHR 0x22] @ ''}''"

lemma sample_body_model: "json_model sample_body = ''m''"
  unfolding sample_body_def by code_simp

definition failing_env :: route_env where
  "failing_env = sample_env\<lparr>re_first := \<lambda>_. dial_failed\<rparr>"

lemma sample_retry_pick:
  assumes "held q = held sample_picker" "stale_after q = stale_after sample_picker"
  shows "\<exists>rid q'. fleet_pick sample_viiwork (re_retry failing_env) ''m'' [''a''] q = (Some (sample_target ''b'', rid), q')"
proof -
  have "candidates sample_viiwork sample_mesh sample_now q ''m'' [''a''] =
      [\<lparr>c_target = sample_target ''b'', c_free = 2, c_rtt = 5000000\<rparr>]"
    using candidates_cong [OF assms] sample_candidates_rest by simp
  then show ?thesis
    by (simp add: fleet_pick_def failing_env_def sample_env_def pick_def Let_def tied_count_def)
qed

theorem retry_once_witness:
  "\<exists>ob. fst (model_forward sample_viiwork failing_env (with_body sample_wire sample_body) sample_body sample_side sample_state) =
     settle (forward_to sample_node (with_body sample_wire sample_body) ''b:8086'') ''b'' \<and>
     outbound_of (with_body sample_wire sample_body) ''b:8086'' = Some ob"
proof -
  let ?r = "with_body sample_wire sample_body"
  obtain p where p: "fleet_pick sample_viiwork (re_pick failing_env) (json_model sample_body) [] (fleet sample_state) =
      (Some (sample_target ''a'', 0), p)"
    and h: "held p = [(0, \<lparr>rs_node = ''a'', rs_model = ''m'', rs_at = sample_now\<rparr>)]" "stale_after p = stale_after sample_picker"
    using sample_pick by (simp add: sample_body_model fleet_pick_def failing_env_def sample_env_def sample_state_def)
  have u: "upgrade_type (req_header ?r) = []" unfolding with_body_def sample_wire_def by code_simp
  then have ob: "\<exists>ob. outbound_of ?r addr = Some ob" for addr by (simp add: outbound_of_def Let_def)
  then have f: "forward_to (re_first failing_env) ?r (t_api_addr (sample_target ''a'')) = Unreachable"
    using ob [of "t_api_addr (sample_target ''a'')"] by (auto simp: failing_env_def intro: dial_failed_unreachable)
  have "held (delete_held 0 p) = held sample_picker" "stale_after (delete_held 0 p) = stale_after sample_picker"
    using h by (simp_all add: delete_held_def sample_picker_fields)
  from sample_retry_pick [OF this] obtain rid q' where
    q: "fleet_pick sample_viiwork (re_retry failing_env) ''m'' [''a''] (delete_held 0 p) = (Some (sample_target ''b'', rid), q')"
    by blast
  have t: "t_node (sample_target n) = n" "t_api_addr (sample_target n) = n @ '':8086''" for n
    by (simp_all add: sample_target_def)
  have "fst (model_forward sample_viiwork failing_env ?r sample_body sample_side sample_state) =
      settle (forward_to (re_second failing_env) ?r ''b:8086'') ''b''"
    using retry_once [OF p f refl, where sd = sample_side] q by (simp add: sample_body_model t)
  moreover have "re_second failing_env = sample_node" by (simp add: failing_env_def sample_env_def)
  ultimately show ?thesis using ob by simp
qed

text \<open>C11: a request that may have reached a node is not sent again. Unless the transport says that the
  node could not be dialled, what came of the first forward, be it a connection lost half way, the
  node's own refusal or a stream cut off in the middle, is the end of it: whatever the mesh and the
  transport are then, there is no second pick and no second forward.\<close>

theorem no_second_run:
  assumes "fleet_pick V (re_pick env) (json_model body) [] (fleet st) = (Some (t, rid), p)"
    and "outbound_of r (t_api_addr t) = Some ob"
    and "\<forall>im e. re_first env ob = RoundTripError im e False \<longrightarrow> is_canceled e \<or> \<not> is_dial_error e"
  shows "\<exists>rp. \<forall>e tr. model_forward V (env\<lparr>re_retry := e, re_second := tr\<rparr>) r body sd st =
     (rp, set_node r (t_node t) (set_model r (json_model body) sd), st\<lparr>fleet := delete_held rid p\<rparr>)"
proof -
  have "forward_to (re_first env) r (t_api_addr t) \<noteq> Unreachable"
    using assms(2,3) by (auto simp: unreachable_iff)
  then obtain rp where "forward_to (re_first env) r (t_api_addr t) = Wrote rp"
    by (cases "forward_to (re_first env) r (t_api_addr t)") auto
  with assms(1) show ?thesis by (simp add: model_forward_def Let_def forward_holding_def)
qed

lemma sample_upgrade: "upgrade_type (req_header sample_wire) = []"
  unfolding sample_wire_def by code_simp

lemma sample_reply:
  "upgrade_type (req_header r) = [] \<Longrightarrow> \<exists>res. forward_to sample_node r addr = Wrote (Reply [] res) \<and> status res = 200"
  by (simp add: forward_to_def outbound_of_def Let_def sample_node_def pass_answer_def status_defs)

text \<open>A connection that was reset after the request was written.\<close>

theorem no_second_run_witness:
  "\<exists>rp. \<forall>e tr. fst (model_forward sample_viiwork
     (sample_env\<lparr>re_first := \<lambda>_. RoundTripError [] (OpError ''read'' [OtherError []]) False, re_retry := e, re_second := tr\<rparr>)
     (with_body sample_wire sample_body) sample_body sample_side sample_state) = rp"
proof -
  let ?r = "with_body sample_wire sample_body"
  let ?env = "sample_env\<lparr>re_first := \<lambda>_. RoundTripError [] (OpError ''read'' [OtherError []]) False\<rparr>"
  obtain p where p: "fleet_pick sample_viiwork (re_pick ?env) (json_model sample_body) [] (fleet sample_state) =
      (Some (sample_target ''a'', 0), p)"
    using sample_pick by (simp add: sample_body_model fleet_pick_def sample_env_def sample_state_def)
  have "upgrade_type (req_header ?r) = []" using sample_upgrade by (simp add: with_body_def)
  then obtain ob where ob: "outbound_of ?r (t_api_addr (sample_target ''a'')) = Some ob"
    by (simp add: outbound_of_def Let_def)
  have "\<not> is_dial_error (OpError ''read'' [OtherError []])" by (simp add: is_dial_error_def map_filter_simps)
  then have "\<forall>im e. re_first ?env ob = RoundTripError im e False \<longrightarrow> is_canceled e \<or> \<not> is_dial_error e" by simp
  from no_second_run [OF p ob this, of sample_side] show ?thesis by auto
qed

section \<open>Answers\<close>

lemma local_hardened: "hardened (r_header (secure_error (hdr_set [] ''Retry-After'' v) st msg code))"
proof (rule secure_error_hardened)
  show "header_ok (hdr_set [] ''Retry-After'' v)" by (rule header_ok_set) (simp add: header_ok_def)
  show "hdr_values (hdr_set [] ''Retry-After'' v) ''Set-Cookie'' = []"
    by (simp add: hdr_values_set canon_names) (simp add: hdr_values_def)
  fix k assume k: "has_prefix (to_lower k) cors_prefix"
  have "canon k \<noteq> canon ''Retry-After''"
  proof
    assume "canon k = canon ''Retry-After''"
    then have "to_lower k = to_lower ''Retry-After''" by (metis to_lower_canon)
    with k have "has_prefix (to_lower ''Retry-After'') cors_prefix" by simp
    moreover have "\<not> has_prefix (to_lower ''Retry-After'') cors_prefix" by code_simp
    ultimately show False by blast
  qed
  then show "hdr_values (hdr_set [] ''Retry-After'' v) k = []"
    by (simp only: hdr_values_set if_False) (simp add: hdr_values_def)
qed

text \<open>
  Where a reply of the router comes from: an error of its own, with at most a Retry-After, or a
  forward by one of the two transports for the request's client.
\<close>

definition routed :: "route_env \<Rightarrow> bool \<Rightarrow> reply \<Rightarrow> bool" where
  "routed env gone rp \<longleftrightarrow>
     (\<exists>st msg code. rp = Reply [] (secure_error [] st msg code)) \<or>
     (\<exists>v st msg code. rp = Reply [] (secure_error (hdr_set [] ''Retry-After'' v) st msg code)) \<or>
     (\<exists>tr r addr. tr \<in> {re_first env, re_second env} \<and> ctx_gone r = gone \<and> forward_to tr r addr = Wrote rp)"

lemma routed_own:
  "routed env g (Reply [] (secure_error [] st msg code))"
  "routed env g (Reply [] (secure_error (hdr_set [] ''Retry-After'' v) st msg code))"
  unfolding routed_def by blast+

lemmas routed_answers = routed_own over_capacity_def rate_limited_def no_healthy_node_def
  unreachable_error_def

lemma routed_body_error: "routed env g (Reply [] (body_error_reply e))"
  by (cases e) (simp_all add: routed_answers body_error_reply_def)

lemma routed_forward:
  "tr \<in> {re_first env, re_second env} \<Longrightarrow> forward_to tr r addr = Wrote rp \<Longrightarrow> routed env (ctx_gone r) rp"
  unfolding routed_def by blast

lemma routed_settle:
  assumes "tr \<in> {re_first env, re_second env}"
  shows "routed env (ctx_gone r) (settle (forward_to tr r addr) node)"
  using routed_forward [OF assms, of r addr]
  by (cases "forward_to tr r addr") (auto simp: settle_def routed_answers)

lemma gone_updates [simp]:
  "ctx_gone (with_body r b) = ctx_gone r" "ctx_gone (reset_body r b) = ctx_gone r"
  "ctx_gone (rewrite_path r p) = ctx_gone r"
  by (simp_all add: with_body_def reset_body_def rewrite_path_def)

lemma gone_read_body: "read_body rt now r sd = (Inr (b, r'), sd') \<Longrightarrow> ctx_gone r' = ctx_gone r"
  by (auto simp: read_body_def result_iff split: option.splits if_splits)

lemma routed_retry: "routed env (ctx_gone r) (fst (retry_elsewhere V env r body model t sd st))"
  using routed_settle [of "re_second env" env "reset_body r body"]
  by (auto simp: retry_elsewhere_def Let_def forward_holding_def routed_answers split: prod.split option.split)

lemma routed_model: "routed env (ctx_gone r) (fst (model_forward V env r body sd st))"
  using routed_forward [of "re_first env" env r] routed_settle [of "re_first env" env r] routed_retry [of env r]
  by (auto simp: model_forward_def Let_def forward_holding_def to_view_def routed_answers
      split: prod.split option.split forwarded.split)

lemma routed_token:
  "(\<And>s. routed env g (fst (f s))) \<Longrightarrow> routed env g (fst (with_token rt sd st f))"
  by (auto simp: with_token_def routed_answers split: option.split prod.split) (metis fst_conv)

lemma routed_view: "routed env (ctx_gone r) (fst (route_to_view V rt env r sd st))"
  unfolding route_to_view_def
  by (rule routed_token)
    (auto simp: to_view_def no_healthy_node_def routed_own routed_body_error gone_read_body [symmetric]
      intro!: routed_settle split: prod.split option.split sum.split)

lemma routed_by_model: "routed env (ctx_gone r) (fst (route_by_model V rt env r sd st))"
proof -
  have "routed env (ctx_gone r) (fst (with_token rt sd s (\<lambda>st.
      case read_body rt (re_body_now env) r sd of
        (Inl e, sd) \<Rightarrow> (Reply [] (body_error_reply e), sd, st)
      | (Inr (body, r), sd) \<Rightarrow> model_forward V env r body sd st)))" for s
    by (rule routed_token)
      (auto simp: routed_body_error gone_read_body [symmetric] intro!: routed_model split: prod.split sum.split)
  then show ?thesis
    by (auto simp: route_by_model_def Let_def rate_limited_def routed_own split: prod.split)
qed

lemma routed_serve: "routed env (ctx_gone r) (fst (serve_http V rt env r sd st))"
  using routed_view [of env r] routed_view [of env "rewrite_path r mesh_page_path"] routed_by_model [of env r]
  by (auto simp: serve_http_def Let_def routed_own)

definition safe_reply :: "reply \<Rightarrow> bool" where
  "safe_reply rp \<longleftrightarrow> (\<forall>res. reply_response rp = Some res \<longrightarrow> hardened (r_header res) \<and> set_cookies res = [])"

lemma safe_local:
  "safe_reply (Reply [] (secure_error [] st msg code))"
  "safe_reply (Reply [] (secure_error (hdr_set [] ''Retry-After'' v) st msg code))"
  by (simp_all add: safe_reply_def reply_response_def plain_error_hardened local_hardened)
    (simp_all add: secure_error_def write_error_def)

lemma safe_forward: "headers_parsed tr \<Longrightarrow> forward_to tr r addr = Wrote rp \<Longrightarrow> safe_reply rp"
  unfolding safe_reply_def using response_hardened by blast

lemma safe_routed:
  "headers_parsed (re_first env) \<Longrightarrow> headers_parsed (re_second env) \<Longrightarrow> routed env g rp \<Longrightarrow> safe_reply rp"
  unfolding routed_def using safe_local safe_forward by (elim disjE exE conjE) auto

text \<open>A transport that reports the client gone.\<close>

definition reports_gone :: "(outbound \<Rightarrow> upstream) \<Rightarrow> bool" where
  "reports_gone tr \<longleftrightarrow> (\<exists>ob im e gone. tr ob = RoundTripError im e gone \<and> (is_canceled e \<or> gone))"

lemma silent_forward:
  "forward_to tr r addr = Wrote (Silent im) \<Longrightarrow> ctx_gone r \<or> reports_gone tr"
  by (auto simp: forward_to_def own_failure failed_forward_simp switch_protocols_def pass_answer_def Let_def
      reports_gone_def outbound_of_def split: option.splits upstream.splits if_splits)

lemma silent_routed:
  "routed env g (Silent im) \<Longrightarrow> g \<or> reports_gone (re_first env) \<or> reports_gone (re_second env)"
  unfolding routed_def using silent_forward by auto

text \<open>C12: every final response of the router is hardened, forwarded or its own, on every path and every
  outcome: framing denied, the content policy set, no CORS permission and no cookie. The one
  exception is the request whose client is gone: the router writes nothing for it, and the implicit
  200 that \<open>net/http\<close> then ends it with has neither headers nor a body.\<close>

theorem every_reply_hardened:
  assumes "headers_parsed (re_first env)" and "headers_parsed (re_second env)"
    and "serve_http V rt env r sd st = (rp, sd', st')"
  shows "hardened (r_header (final_response rp)) \<and> set_cookies (final_response rp) = [] \<or>
     (\<exists>im. rp = Silent im) \<and> (ctx_gone r \<or> reports_gone (re_first env) \<or> reports_gone (re_second env)) \<and>
       final_response rp = \<lparr>status = 200, r_header = [], set_cookies = [], r_body = EmptyBody\<rparr>"
proof -
  have "routed env (ctx_gone r) rp" using routed_serve [of env r V rt sd st] assms(3) by simp
  with safe_routed [OF assms(1,2)] silent_routed show ?thesis
    by (cases rp) (auto simp: safe_reply_def reply_response_def final_response_def status_ok_def)
qed

section \<open>Which node\<close>

text \<open>A name no node serves goes to the view node, with the client's body. The gateway rejects no
  model itself: an alias, an unknown name and a body without a model are the view node's to answer,
  and only when there is no view node either is the answer the gateway's 503.\<close>

theorem unserved_to_view:
  assumes "fleet_pick V (re_pick env) (json_model body) [] (fleet st) = (None, p)"
  shows "fst (model_forward V env r body sd st) =
     (case fst (fleet_view V (re_view env) (fleet st)) of
        None \<Rightarrow> Reply [] no_healthy_node
      | Some t \<Rightarrow> settle (forward_to (re_first env) r (t_api_addr t)) (t_node t))"
  using assms mesh_fleet.pick_none [OF assms]
  by (cases "fleet_view V (re_view env) (fleet st)")
    (auto simp: model_forward_def Let_def to_view_def split: option.split)

theorem unserved_to_view_witness:
  "\<exists>res. fst (model_forward sample_viiwork sample_env (with_body sample_wire []) [] sample_side sample_state) =
     Reply [] res \<and> status res = 200"
proof -
  have j: "json_model [] = []" by code_simp
  have "candidates sample_viiwork sample_mesh sample_now sample_picker [] [] = []"
    by (simp add: candidates_def sample_mesh_def map_filter_simps candidate_of_def sample_report_def
        sample_viiwork_def sample_member_def routable_def)
  then have p: "fleet_pick sample_viiwork (re_pick sample_env) (json_model []) [] (fleet sample_state) = (None, sample_picker)"
    by (simp add: fleet_pick_def sample_env_def sample_state_def j pick_def)
  have v: "fst (fleet_view sample_viiwork (re_view sample_env) (fleet sample_state)) = Some (sample_target ''a'')"
    using sample_view by (simp add: fleet_view_def sample_env_def sample_state_def)
  have "upgrade_type (req_header (with_body sample_wire [])) = []" using sample_upgrade by (simp add: with_body_def)
  from sample_reply [OF this] obtain res where
    "forward_to (re_first sample_env) (with_body sample_wire []) (t_api_addr (sample_target ''a'')) = Wrote (Reply [] res)"
    "status res = 200" by (fastforce simp: sample_env_def)
  with unserved_to_view [OF p, where r = "with_body sample_wire []" and sd = sample_side] v show ?thesis
    by (simp add: settle_def)
qed

lemma landing_plain:
  assumes "documented_paths V"
  shows "\<not> is_power_path V landing_path" "\<not> is_alias_write V ''GET'' landing_path"
proof -
  have "\<not> equal_fold (trimmed_clean ''/'') ''/v1/power''" "\<not> equal_fold (trimmed_clean ''/'') ''/v1/mesh/power''"
    by code_simp+
  with assms show "\<not> is_power_path V landing_path"
    by (simp add: is_power_path_def documented_paths_def landing_path_def)
  show "\<not> is_alias_write V ''GET'' landing_path" by (simp add: is_alias_write_def)
qed

text \<open>The front door is the mesh page. A GET of the bare path is what a GET of \<open>/mesh\<close> would be for
  the node, query and headers included, while the request the access log reads keeps its path.\<close>

theorem landing_is_mesh_page:
  assumes "documented_paths V" and "req_method r = ''GET''" and "path (req_url r) = ''/''"
    and "in_flight st < rt_capacity rt" and "req_body r = None"
    and "fleet_view V (re_view env) (fleet st) = (Some t, p)"
  shows "\<exists>r'. fst (serve_http V rt env r sd st) = settle (forward_to (re_first env) r' (t_api_addr t)) (t_node t) \<and>
     path (req_url r') = ''/mesh'' \<and> raw_path (req_url r') = [] \<and>
     raw_query (req_url r') = raw_query (req_url r) \<and> req_header r' = req_header r"
proof -
  let ?r = "rewrite_path r mesh_page_path"
  have l: "path (req_url r) = landing_path" using assms(3) by (simp add: landing_path_def)
  have "serve_http V rt env r sd st = route_to_view V rt env ?r sd st"
    using landing_plain [OF assms(1)] assms(2) by (simp add: serve_http_def Let_def l)
  moreover have "fst (route_to_view V rt env ?r sd st) = settle (forward_to (re_first env) ?r (t_api_addr t)) (t_node t)"
    using assms(4-6) by (simp add: route_to_view_def with_token_def try_acquire_def read_body_def to_view_def rewrite_path_def)
  ultimately show ?thesis
    by (intro exI [of _ ?r]) (simp add: rewrite_path_def mesh_page_path_def)
qed

theorem landing_is_mesh_page_witness:
  "\<exists>r'. fst (serve_http sample_viiwork sample_router sample_env (get_of ''GET'' ''/'') sample_side sample_state) =
     settle (forward_to sample_node r' ''a:8086'') ''a'' \<and> path (req_url r') = ''/mesh''"
proof -
  have v: "fleet_view sample_viiwork (re_view sample_env) (fleet sample_state) =
      (Some (sample_target ''a''), sample_picker\<lparr>view := ''a''\<rparr>)"
    using sample_view by (simp add: fleet_view_def sample_env_def sample_state_def)
  have a: "req_method (get_of ''GET'' ''/'') = ''GET''" "path (req_url (get_of ''GET'' ''/'')) = ''/''"
    "in_flight sample_state < rt_capacity sample_router" "req_body (get_of ''GET'' ''/'') = None"
    by (simp_all add: get_of_def sample_wire_def sample_state_def sample_router_def new_router_def)
  have "re_first sample_env = sample_node" by (simp add: sample_env_def)
  with landing_is_mesh_page [OF documented_sample a v, where sd = sample_side] show ?thesis
    by (auto simp: sample_target_def)
qed

theorem every_reply_hardened_witness:
  "status (final_response (fst (serve_http sample_viiwork sample_router sample_env (get_of ''GET'' ''/'') sample_side sample_state))) = 200 \<and>
   hardened (r_header (final_response (fst (serve_http sample_viiwork sample_router sample_env (get_of ''GET'' ''/'') sample_side sample_state))))"
proof -
  let ?r = "rewrite_path (get_of ''GET'' ''/'') mesh_page_path"
  have "req_method (get_of ''GET'' ''/'') = ''GET''" "path (req_url (get_of ''GET'' ''/'')) = landing_path"
    by (simp_all add: get_of_def landing_path_def)
  with landing_plain [OF documented_sample]
  have s: "serve_http sample_viiwork sample_router sample_env (get_of ''GET'' ''/'') sample_side sample_state =
      route_to_view sample_viiwork sample_router sample_env ?r sample_side sample_state" by (simp add: serve_http_def Let_def)
  have "req_body ?r = None" by (simp add: rewrite_path_def get_of_def sample_wire_def)
  moreover have "fleet_view sample_viiwork (re_view sample_env) (fleet sample_state) =
      (Some (sample_target ''a''), sample_picker\<lparr>view := ''a''\<rparr>)"
    using sample_view by (simp add: fleet_view_def sample_env_def sample_state_def)
  ultimately have v: "fst (route_to_view sample_viiwork sample_router sample_env ?r sample_side sample_state) =
      settle (forward_to sample_node ?r (t_api_addr (sample_target ''a''))) (t_node (sample_target ''a''))"
    by (simp add: route_to_view_def with_token_def try_acquire_def read_body_def to_view_def sample_state_def
        sample_router_def new_router_def sample_env_def)
  have "upgrade_type (req_header ?r) = []" using sample_upgrade by (simp add: rewrite_path_def get_of_def)
  from sample_reply [OF this] obtain res
    where r: "forward_to sample_node ?r (t_api_addr (sample_target ''a'')) = Wrote (Reply [] res)" "status res = 200" by blast
  with s v have e: "fst (serve_http sample_viiwork sample_router sample_env (get_of ''GET'' ''/'') sample_side sample_state) = Reply [] res"
    by (simp add: settle_def)
  have "headers_parsed (re_first sample_env)" "headers_parsed (re_second sample_env)"
    using sample_node_ok by (simp_all add: sample_env_def)
  from every_reply_hardened [OF this, where r = "get_of ''GET'' ''/''" and V = sample_viiwork and rt = sample_router
      and sd = sample_side and st = sample_state] e r(2)
  show ?thesis
    by (cases "serve_http sample_viiwork sample_router sample_env (get_of ''GET'' ''/'') sample_side sample_state")
      (auto simp: final_response_def)
qed

end
