(* ===== verification/GoParse.thy ===== *)
theory GoParse
  imports GoNum GoFloat
begin

text \<open>
  The parsers of the standard library that the configuration calls: \<open>time.ParseDuration\<close>,
  \<open>strconv.ParseFloat\<close>, \<open>netip.ParseAddr\<close> and \<open>netip.ParseAddrPort\<close>. No caller looks at
  which error it was, so a failure is \<open>None\<close>.
\<close>

section \<open>time.ParseDuration\<close>

fun leading_int :: "int \<Rightarrow> string \<Rightarrow> (int \<times> string) option" where
  "leading_int x [] = Some (x, [])"
| "leading_int x (c # s) =
     (if \<not> is_digit c then Some (x, c # s)
      else if 2 ^ 63 div 10 < x then None
      else if 2 ^ 63 < 10 * x + int (digit_val c) then None
      else leading_int (10 * x + int (digit_val c)) s)"

text \<open>Digits that no longer fit are read over; \<open>scale\<close> is a \<open>float64\<close>.\<close>

fun leading_fraction :: "int \<Rightarrow> float64 \<Rightarrow> bool \<Rightarrow> string \<Rightarrow> int \<times> float64 \<times> string" where
  "leading_fraction x scale full [] = (x, scale, [])"
| "leading_fraction x scale full (c # s) =
     (if \<not> is_digit c then (x, scale, c # s)
      else if full \<or> (2 ^ 63 - 1) div 10 < x \<or> 2 ^ 63 < 10 * x + int (digit_val c) then leading_fraction x scale True s
      else leading_fraction (10 * x + int (digit_val c)) (fmul scale (Fin 10)) False s)"

definition unit_map :: "(string \<times> int) list" where
  "unit_map =
     [(''ns'', 1), (''us'', 1000), ([CHR 0xC2, CHR 0xB5, CHR ''s''], 1000), ([CHR 0xCE, CHR 0xBC, CHR ''s''], 1000),
      (''ms'', 1000000), (''s'', 1000000000), (''m'', 60000000000), (''h'', 3600000000000)]"

text \<open>The fraction of a unit is below the unit, far inside the range of \<open>uint64\<close>.\<close>

definition fraction_ns :: "int \<Rightarrow> float64 \<Rightarrow> int \<Rightarrow> int" where
  "fraction_ns f scale unit =
     (case fmul (float_of_int f) (fdiv (float_of_int unit) scale) of Fin r \<Rightarrow> \<lfloor>r\<rfloor> | _ \<Rightarrow> 0)"

definition unit_char :: "char \<Rightarrow> bool" where
  "unit_char c \<longleftrightarrow> c \<noteq> CHR ''.'' \<and> \<not> is_digit c"

text \<open>One number with its unit, and what follows it.\<close>

definition duration_term :: "string \<Rightarrow> (int \<times> string) option" where
  "duration_term s =
     (if s = [] \<or> \<not> (hd s = CHR ''.'' \<or> is_digit (hd s)) then None
      else case leading_int 0 s of
        None \<Rightarrow> None
      | Some (v, r) \<Rightarrow>
          (let pre = (length r \<noteq> length s);
               dot = (r \<noteq> [] \<and> hd r = CHR ''.'');
               fr = (if dot then leading_fraction 0 (Fin 1) False (tl r) else (0, Fin 1, r));
               r' = snd (snd fr);
               post = (dot \<and> length r' \<noteq> length (tl r));
               u = takeWhile unit_char r'
           in if \<not> pre \<and> \<not> post \<or> u = [] then None
              else case map_of unit_map u of
                None \<Rightarrow> None
              | Some unit \<Rightarrow>
                  if 2 ^ 63 div unit < v then None
                  else let w = v * unit + (if 0 < fst fr then fraction_ns (fst fr) (fst (snd fr)) unit else 0)
                       in if 2 ^ 63 < w then None else Some (w, dropWhile unit_char r')))"

lemma leading_int_length: "leading_int x s = Some (v, r) \<Longrightarrow> length r \<le> length s"
  by (induction s arbitrary: x) (auto split: if_splits dest: le_SucI)

lemma leading_fraction_length: "length (snd (snd (leading_fraction x sc b s))) \<le> length s"
  by (induction s arbitrary: x sc b) (auto split: if_splits intro: le_SucI)

lemma duration_term_length:
  assumes "duration_term s = Some (w, rest)"
  shows "length rest < length s"
proof -
  obtain v r where vr: "leading_int 0 s = Some (v, r)"
    using assms by (auto simp: duration_term_def split: if_splits option.splits)
  define dot where "dot = (r \<noteq> [] \<and> hd r = CHR ''.'')"
  define fr where "fr = (if dot then leading_fraction 0 (Fin 1) False (tl r) else (0, Fin 1, r))"
  have "length (snd (snd fr)) \<le> length r"
    using leading_fraction_length [of 0 "Fin 1" False "tl r"] by (auto simp: fr_def)
  also have "\<dots> \<le> length s" by (rule leading_int_length [OF vr])
  finally have le: "length (snd (snd fr)) \<le> length s" .
  have "takeWhile unit_char (snd (snd fr)) \<noteq> []" "rest = dropWhile unit_char (snd (snd fr))"
    using assms vr by (auto simp: duration_term_def Let_def fr_def dot_def split: if_splits option.splits)
  moreover have "length (takeWhile unit_char q) + length (dropWhile unit_char q) = length q" for q
    by (metis length_append takeWhile_dropWhile_id)
  ultimately show ?thesis using le by (metis add_less_same_cancel2 length_greater_0_conv linorder_not_le nat_less_le order_less_le_trans less_add_same_cancel2)
qed

text \<open>The sum is a \<open>uint64\<close>, checked after each addition.\<close>

function duration_sum :: "int \<Rightarrow> string \<Rightarrow> int option" where
  "duration_sum d [] = Some d"
| "duration_sum d (c # s) =
     (case duration_term (c # s) of
        None \<Rightarrow> None
      | Some (v, r) \<Rightarrow> if 2 ^ 63 < (d + v) mod 2 ^ 64 then None else duration_sum ((d + v) mod 2 ^ 64) r)"
  by pat_completeness auto

termination
  by (relation "measure (length \<circ> snd)") (auto dest: duration_term_length)

definition parse_duration :: "string \<Rightarrow> duration option" where
  "parse_duration s =
     (let sign = (s \<noteq> [] \<and> (hd s = CHR ''-'' \<or> hd s = CHR ''+''));
          neg = (s \<noteq> [] \<and> hd s = CHR ''-'');
          r = (if sign then tl s else s)
      in if r = ''0'' then Some 0
         else if r = [] then None
         else case duration_sum 0 r of
           None \<Rightarrow> None
         | Some d \<Rightarrow> if neg then Some (- d) else if 2 ^ 63 - 1 < d then None else Some d)"

lemma duration_sum_bound: "duration_sum d s = Some e \<Longrightarrow> 0 \<le> d \<and> d \<le> 2 ^ 63 \<Longrightarrow> 0 \<le> e \<and> e \<le> 2 ^ 63"
proof (induction d s rule: duration_sum.induct)
  case (2 d c s)
  then show ?case by (auto split: if_splits option.splits)
qed simp

lemma parse_duration_int64: "parse_duration s = Some d \<Longrightarrow> in_int64 d"
proof -
  assume p: "parse_duration s = Some d"
  define r where "r = (if s \<noteq> [] \<and> (hd s = CHR ''-'' \<or> hd s = CHR ''+'') then tl s else s)"
  from p consider "d = 0" | e where "duration_sum 0 r = Some e" "d = - e \<or> d = e \<and> e \<le> 2 ^ 63 - 1"
    by (fastforce simp: parse_duration_def Let_def r_def [symmetric] split: if_splits option.splits)
  then show "in_int64 d"
  proof cases
    case 1
    then show ?thesis by (simp add: in_int64_def min_int64_def max_int64_def)
  next
    case 2
    from duration_sum_bound [OF 2(1)] have "0 \<le> e \<and> e \<le> 2 ^ 63" by simp
    then show ?thesis using 2(2) by (auto simp: in_int64_def min_int64_def max_int64_def)
  qed
qed

section \<open>strconv.ParseFloat\<close>

definition hex_digit :: "char \<Rightarrow> bool" where
  "hex_digit c \<longleftrightarrow> is_digit c \<or> in_range (CHR ''a'') (CHR ''f'') (to_lower_char c)"

definition hex_val :: "char \<Rightarrow> nat" where
  "hex_val c = (if is_digit c then digit_val c else byte (to_lower_char c) - 87)"

definition float_special :: "string \<Rightarrow> float64 option" where
  "float_special s =
     (let l = to_lower s
      in if l \<in> {''inf'', ''infinity'', ''+inf'', ''+infinity''} then Some (Inf False)
         else if l \<in> {''-inf'', ''-infinity''} then Some (Inf True)
         else if l = ''nan'' then Some NaN else None)"

text \<open>
  \<open>underscoreOK\<close>: an underscore stands between digits, or between the base prefix and a digit.
  The state is what was seen last: a digit, an underscore, anything else.
\<close>

datatype seen = SawDigit | SawUnderscore | SawOther

fun underscore_scan :: "bool \<Rightarrow> seen \<Rightarrow> string \<Rightarrow> bool" where
  "underscore_scan hex saw [] = (saw \<noteq> SawUnderscore)"
| "underscore_scan hex saw (c # s) =
     (if is_digit c \<or> hex \<and> hex_digit c then underscore_scan hex SawDigit s
      else if c = CHR ''_'' then saw = SawDigit \<and> underscore_scan hex SawUnderscore s
      else saw \<noteq> SawUnderscore \<and> underscore_scan hex SawOther s)"

definition underscore_ok :: "string \<Rightarrow> bool" where
  "underscore_ok s =
     (let s = (if s \<noteq> [] \<and> (hd s = CHR ''-'' \<or> hd s = CHR ''+'') then tl s else s)
      in if 2 \<le> length s \<and> hd s = CHR ''0'' \<and> to_lower_char (s ! 1) \<in> {CHR ''b'', CHR ''o'', CHR ''x''}
         then underscore_scan (to_lower_char (s ! 1) = CHR ''x'') SawDigit (drop 2 s)
         else underscore_scan False SawOther s)"

text \<open>The exponent stops growing past five digits.\<close>

definition exponent_val :: "string \<Rightarrow> int" where
  "exponent_val ds = foldl (\<lambda>e c. if e < 10000 then e * 10 + int (digit_val c) else e) 0 ds"

text \<open>The exact value of a decimal or hexadecimal literal.\<close>

definition float_literal :: "string \<Rightarrow> rat option" where
  "float_literal s =
     (let neg = (s \<noteq> [] \<and> hd s = CHR ''-'');
          t = (if s \<noteq> [] \<and> (hd s = CHR ''-'' \<or> hd s = CHR ''+'') then tl s else s);
          hex = (3 \<le> length t \<and> hd t = CHR ''0'' \<and> to_lower_char (t ! 1) = CHR ''x'');
          t = (if hex then drop 2 t else t);
          dig = (if hex then hex_digit else is_digit);
          base = (if hex then 16 else 10 :: int);
          part = (\<lambda>c. dig c \<or> c = CHR ''_'');
          whole = filter dig (takeWhile part t);
          r = dropWhile part t;
          dot = (r \<noteq> [] \<and> hd r = CHR ''.'');
          frac = (if dot then filter dig (takeWhile part (tl r)) else []);
          r = (if dot then dropWhile part (tl r) else r);
          m = foldl (\<lambda>n c. base * n + int (hex_val c)) 0 (whole @ frac);
          hasexp = (r \<noteq> [] \<and> to_lower_char (hd r) = (if hex then CHR ''p'' else CHR ''e''));
          x = (if hasexp then tl r else []);
          eneg = (x \<noteq> [] \<and> hd x = CHR ''-'');
          ds = (if x \<noteq> [] \<and> (hd x = CHR ''-'' \<or> hd x = CHR ''+'') then tl x else x);
          e = exponent_val (filter is_digit ds)
      in if whole @ frac = [] then None
         else if hasexp \<and> (ds = [] \<or> \<not> is_digit (hd ds) \<or> \<not> list_all (\<lambda>c. is_digit c \<or> c = CHR ''_'') ds) then None
         else if \<not> hasexp \<and> (hex \<or> r \<noteq> []) then None
         else if CHR ''_'' \<in> set s \<and> \<not> underscore_ok s then None
         else Some ((if neg then - 1 else 1) * of_int m / of_int base ^ length frac *
                (if hex then 2 else 10) powi (if eneg then - e else e)))"

text \<open>The nearest \<open>float64\<close>; a value that rounds beyond the largest is a range error.\<close>

definition parse_float :: "string \<Rightarrow> float64 option" where
  "parse_float s =
     (case float_special s of
        Some f \<Rightarrow> Some f
      | None \<Rightarrow>
          (case float_literal s of
             None \<Rightarrow> None
           | Some x \<Rightarrow> (case fl x of Fin r \<Rightarrow> Some (Fin r) | _ \<Rightarrow> None)))"

section \<open>netip.ParseAddr and ParseAddrPort\<close>

text \<open>An address is its bytes, and for version 6 its zone.\<close>

datatype ip_addr = IPv4 "nat list" | IPv6 "nat list" string

definition ipv4_field :: "string \<Rightarrow> bool" where
  "ipv4_field f \<longleftrightarrow> f \<noteq> [] \<and> list_all is_digit f \<and> (hd f = CHR ''0'' \<longrightarrow> length f = 1) \<and> digits_val f \<le> 255"

definition parse_ipv4 :: "string \<Rightarrow> nat list option" where
  "parse_ipv4 s =
     (let fs = split_on CHR ''.'' s
      in if length fs = 4 \<and> list_all ipv4_field fs then Some (map digits_val fs) else None)"

text \<open>
  The loop of \<open>parseIPv6\<close>: \<open>ip\<close> are the bytes read so far, at most sixteen, \<open>ell\<close> where
  the ellipsis was. The result is both at the end of the text.
\<close>

function ipv6_groups :: "string \<Rightarrow> nat list \<Rightarrow> nat option \<Rightarrow> (nat list \<times> nat option) option" where
  "ipv6_groups s ip ell =
     (let ds = takeWhile hex_digit s; r = dropWhile hex_digit s;
          acc = foldl (\<lambda>n c. 16 * n + hex_val c) 0 ds
      in if 16 \<le> length ip then (if s = [] then Some (ip, ell) else None)
         else if ds = [] \<or> 4 < length ds then None
         else if r \<noteq> [] \<and> hd r = CHR ''.'' then
           (if ell = None \<and> length ip \<noteq> 12 \<or> 16 < length ip + 4 then None
            else map_option (\<lambda>b. (ip @ b, ell)) (parse_ipv4 s))
         else (let ip = ip @ [acc div 256, acc mod 256]
           in if r = [] then Some (ip, ell)
              else if hd r \<noteq> CHR '':'' \<or> tl r = [] then None
              else if hd (tl r) = CHR '':'' then
                (if ell \<noteq> None then None
                 else if tl (tl r) = [] then Some (ip, Some (length ip))
                 else ipv6_groups (tl (tl r)) ip (Some (length ip)))
              else ipv6_groups (tl r) ip ell))"
  by pat_completeness auto

termination
  by (relation "measure (\<lambda>(s, ip, ell). 16 - length ip)") auto

declare ipv6_groups.simps [simp del]

definition ipv6_expand :: "nat list \<Rightarrow> nat option \<Rightarrow> nat list option" where
  "ipv6_expand ip ell =
     (if length ip < 16 then
        (case ell of
           None \<Rightarrow> None
         | Some e \<Rightarrow> Some (take e ip @ replicate (16 - length ip) 0 @ drop e ip))
      else if ell \<noteq> None then None
      else Some ip)"

definition parse_ipv6 :: "string \<Rightarrow> ip_addr option" where
  "parse_ipv6 t =
     (let s = takeWhile (\<lambda>c. c \<noteq> CHR ''%'') t; zone = drop (length s + 1) t
      in if CHR ''%'' \<in> set t \<and> zone = [] then None
         else if s = ''::'' then Some (IPv6 (replicate 16 0) zone)
         else (let start = (if has_prefix s ''::'' then ipv6_groups (drop 2 s) [] (Some 0) else ipv6_groups s [] None)
               in case start of
                    None \<Rightarrow> None
                  | Some (ip, ell) \<Rightarrow> map_option (\<lambda>b. IPv6 b zone) (ipv6_expand ip ell)))"

definition parse_addr :: "string \<Rightarrow> ip_addr option" where
  "parse_addr s =
     (case dropWhile (\<lambda>c. c \<notin> set ''.:%'') s of
        [] \<Rightarrow> None
      | c # _ \<Rightarrow>
          if c = CHR ''.'' then map_option IPv4 (parse_ipv4 s)
          else if c = CHR '':'' then parse_ipv6 s
          else None)"

definition parse_port :: "string \<Rightarrow> int option" where
  "parse_port s = (if s \<noteq> [] \<and> list_all is_digit s \<and> digits_int s < 65536 then Some (digits_int s) else None)"

definition parse_addr_port :: "string \<Rightarrow> (ip_addr \<times> int) option" where
  "parse_addr_port s =
     (if CHR '':'' \<notin> set s then None
      else let p = rev (takeWhile (\<lambda>c. c \<noteq> CHR '':'') (rev s)); h = take (length s - length p - 1) s
           in if h = [] \<or> p = [] then None
              else if hd h = CHR ''['' \<and> (length h < 2 \<or> last h \<noteq> CHR '']'') then None
              else let v6 = (hd h = CHR ''[''); t = (if v6 then butlast (tl h) else h)
                   in case (parse_port p, parse_addr t) of
                        (Some n, Some a) \<Rightarrow>
                          (case a of IPv4 _ \<Rightarrow> if v6 then None else Some (a, n)
                                   | IPv6 _ _ \<Rightarrow> if v6 then Some (a, n) else None)
                      | _ \<Rightarrow> None)"

end
