(* ===== verification/Config.thy ===== *)
theory Config
  imports GoParse Base64
begin

text \<open>
  internal/config/config.go: the settings read from the environment. \<open>getenv\<close> and the result
  of \<open>hostname\<close> are arguments, as in the source. An error carries what its message is made of;
  the formatting of the messages is not modelled, except for the table of removed variables.
\<close>

section \<open>The configuration\<close>

record mesh_config =
  network :: string
  bind_port :: int
  advertise :: "ip_addr option"
  open_mesh :: bool
  secret_key :: "string option"
  previous_key :: "string option"
  enforce :: string
  tailnet :: bool
  tailnet_socket :: string
  mdns :: bool
  mesh_seeds :: "string list"
  rejoin_interval :: duration
  capacity_poll :: duration
  mesh_stale_after :: duration

record config =
  listen :: string
  node_name :: string
  mesh :: mesh_config
  view_nodes :: "string list"
  cookie_ttl :: duration
  max_body :: int
  max_in_flight :: int
  body_read_timeout :: duration
  rate_per_min :: float64
  rate_burst :: int

definition mode :: "config \<Rightarrow> string" where
  "mode c = (if secret_key (mesh c) \<noteq> None then ''secured'' else ''open'')"

datatype size_error = SizeEmpty | NotASize string | SizeNotPositive int | SizeOverflow string

datatype config_error =
    Removed string
  | HostnameUnreadable
  | NodeNameEmpty
  | NodeNameSpace string
  | NotOneOf string string
  | NotInteger string string
  | PortRange int
  | NotAnAddress string
  | NotBool string string
  | BothModes
  | NoMode
  | KeyNotBase64 string
  | KeyLength string int
  | PreviousWithoutKey
  | NothingToEnforce string
  | NotAuto string string
  | EmptyEntry string string
  | ListedTwice string string
  | BadSeed string int
  | ViewNodesRequired
  | BadDuration string string
  | NotPositive string int
  | BadSize size_error
  | NotANumber string
  | NegativeRate

definition removed :: "(string \<times> string) list" where
  "removed =
     [(''VIIWORK_GW_SEEDS'', ''VIIWORK_GW_SEEDS is removed: use VIIWORK_GW_MESH_SEEDS with gossip addresses (ip:7946); seeds are optional on the tailnet''),
      (''VIIWORK_GW_POLL_INTERVAL'', ''VIIWORK_GW_POLL_INTERVAL is removed: capacity is polled every VIIWORK_GW_CAPACITY_POLL''),
      (''VIIWORK_GW_POLL_TIMEOUT'', ''VIIWORK_GW_POLL_TIMEOUT is removed: capacity is polled every VIIWORK_GW_CAPACITY_POLL''),
      (''VIIWORK_GW_ALLOW_PRIVATE_PEERS'', ''VIIWORK_GW_ALLOW_PRIVATE_PEERS is removed: set VIIWORK_GW_MESH_NETWORK=lan for a LAN mesh''),
      (''VIIWORK_GW_VIEW_PREFER'', ''VIIWORK_GW_VIEW_PREFER is removed: use VIIWORK_GW_VIEW_NODES (node names)'')]"

definition default_mesh :: mesh_config where
  "default_mesh =
     \<lparr>network = ''tailnet'', bind_port = 7946, advertise = None, open_mesh = False, secret_key = None,
      previous_key = None, enforce = ''full'', tailnet = False,
      tailnet_socket = ''/var/run/tailscale/tailscaled.sock'', mdns = False, mesh_seeds = [],
      rejoin_interval = 60 * second, capacity_poll = second, mesh_stale_after = 3 * second\<rparr>"

definition default_config :: config where
  "default_config =
     \<lparr>listen = ''127.0.0.1:8090'', node_name = [], mesh = default_mesh, view_nodes = [],
      cookie_ttl = 720 * (3600 * second), max_body = 16 * 1024 * 1024, max_in_flight = 256,
      body_read_timeout = 30 * second, rate_per_min = Fin 120, rate_burst = 240\<rparr>"

section \<open>Values\<close>

definition size_suffixes :: "(string \<times> int) list" where
  "size_suffixes = [(''KB'', 1024), (''MB'', 1024 * 1024), (''GB'', 1024 * 1024 * 1024)]"

definition split_size :: "string \<Rightarrow> string \<times> int" where
  "split_size s =
     (case find (\<lambda>suf. has_suffix (to_upper s) (fst suf)) size_suffixes of
        None \<Rightarrow> (s, 1)
      | Some (suf, k) \<Rightarrow> (trim_space (take (length s - length suf) s), k))"

definition parse_size :: "string \<Rightarrow> (size_error, int) result" where
  "parse_size raw =
     (let s = trim_space raw
      in if s = [] then Inl SizeEmpty
         else case split_size s of
           (digits, k) \<Rightarrow>
             (case parse_int digits of
                None \<Rightarrow> Inl (NotASize digits)
              | Some n \<Rightarrow>
                  if n \<le> 0 then Inl (SizeNotPositive n)
                  else if quot max_int64 k < n then Inl (SizeOverflow s)
                  else Inr (wrap64 (n * k))))"

fun split_entries :: "string \<Rightarrow> string \<Rightarrow> string list \<Rightarrow> string list \<Rightarrow> (config_error, string list) result" where
  "split_entries raw env [] out = Inr out"
| "split_entries raw env (p # ps) out =
     (let p = trim_space p
      in if p = [] then Inl (EmptyEntry env raw)
         else if p \<in> set out then Inl (ListedTwice env p)
         else split_entries raw env ps (out @ [p]))"

definition split_list :: "string \<Rightarrow> string \<Rightarrow> (config_error, string list) result" where
  "split_list raw env =
     (let raw = trim_space raw
      in if raw = [] then Inr [] else split_entries raw env (split_on CHR '','' raw) [])"

definition decode_key :: "string \<Rightarrow> string \<Rightarrow> (config_error, string) result" where
  "decode_key v env =
     (case b64_decode std_encoding v of
        None \<Rightarrow> Inl (KeyNotBase64 env)
      | Some key \<Rightarrow> if length key \<noteq> 32 then Inl (KeyLength env (int (length key))) else Inr key)"

definition parse_auto :: "string \<Rightarrow> string \<Rightarrow> bool \<Rightarrow> (config_error, bool) result" where
  "parse_auto raw env auto =
     (let v = trim_space raw
      in if v = [] \<or> v = ''auto'' then Inr auto
         else case parse_bool v of None \<Rightarrow> Inl (NotAuto env v) | Some b \<Rightarrow> Inr b)"

section \<open>loadMesh\<close>

type_synonym getenv = "string \<Rightarrow> string"

text \<open>An optional variable: blank keeps what there is.\<close>

definition env_opt :: "getenv \<Rightarrow> string \<Rightarrow> 'a \<Rightarrow> (string \<Rightarrow> (config_error, 'a) result) \<Rightarrow> (config_error, 'a) result" where
  "env_opt getenv name dflt f = (let v = trim_space (getenv name) in if v = [] then Inr dflt else f v)"

definition one_of :: "string \<Rightarrow> string list \<Rightarrow> string \<Rightarrow> (config_error, string) result" where
  "one_of name allowed v = (if v \<in> set allowed then Inr v else Inl (NotOneOf name v))"

definition env_int :: "string \<Rightarrow> (int \<Rightarrow> config_error option) \<Rightarrow> string \<Rightarrow> (config_error, int) result" where
  "env_int name bad v =
     (case atoi v of
        None \<Rightarrow> Inl (NotInteger name v)
      | Some n \<Rightarrow> (case bad n of Some e \<Rightarrow> Inl e | None \<Rightarrow> Inr n))"

definition port_bad :: "int \<Rightarrow> config_error option" where
  "port_bad n = (if n < 1 \<or> 65535 < n then Some (PortRange n) else None)"

definition not_positive :: "string \<Rightarrow> int \<Rightarrow> config_error option" where
  "not_positive name n = (if n \<le> 0 then Some (NotPositive name n) else None)"

text \<open>The secured-or-open choice: the mode and the two keys.\<close>

definition load_secret :: "getenv \<Rightarrow> mesh_config \<Rightarrow> (config_error, mesh_config) result" where
  "load_secret getenv m =
     (let secret = trim_space (getenv ''VIIWORK_MESH_SECRET'');
          prev = trim_space (getenv ''VIIWORK_MESH_SECRET_PREV'')
      in if open_mesh m \<and> secret \<noteq> [] then Inl BothModes
         else if \<not> open_mesh m \<and> secret = [] then Inl NoMode
         else rbind (if secret \<noteq> [] then rbind (decode_key secret ''VIIWORK_MESH_SECRET'') (\<lambda>k. Inr (m\<lparr>secret_key := Some k\<rparr>))
                     else Inr m) (\<lambda>m.
              if prev \<noteq> [] then
                (if secret_key m = None then Inl PreviousWithoutKey
                 else rbind (decode_key prev ''VIIWORK_MESH_SECRET_PREV'') (\<lambda>k. Inr (m\<lparr>previous_key := Some k\<rparr>)))
              else Inr m))"

fun check_seeds :: "int \<Rightarrow> string list \<Rightarrow> (config_error, unit) result" where
  "check_seeds port [] = Inr ()"
| "check_seeds port (s # ss) = (if parse_addr_port s = None then Inl (BadSeed s port) else check_seeds port ss)"

definition load_mesh :: "getenv \<Rightarrow> mesh_config \<Rightarrow> (config_error, mesh_config) result" where
  "load_mesh getenv m =
     rbind (env_opt getenv ''VIIWORK_GW_MESH_NETWORK'' (network m)
              (one_of ''VIIWORK_GW_MESH_NETWORK'' [''tailnet'', ''lan''])) (\<lambda>net.
     rbind (env_opt getenv ''VIIWORK_GW_MESH_BIND_PORT'' (bind_port m)
              (env_int ''VIIWORK_GW_MESH_BIND_PORT'' port_bad)) (\<lambda>port.
     rbind (env_opt getenv ''VIIWORK_GW_MESH_ADVERTISE'' (advertise m) (\<lambda>v.
              case parse_addr v of None \<Rightarrow> Inl (NotAnAddress v) | Some a \<Rightarrow> Inr (Some a))) (\<lambda>adv.
     rbind (env_opt getenv ''VIIWORK_GW_MESH_OPEN'' (open_mesh m) (\<lambda>v.
              case parse_bool v of None \<Rightarrow> Inl (NotBool ''VIIWORK_GW_MESH_OPEN'' v) | Some b \<Rightarrow> Inr b)) (\<lambda>opn.
     rbind (load_secret getenv (m\<lparr>network := net, bind_port := port, advertise := adv, open_mesh := opn\<rparr>)) (\<lambda>m.
     rbind (env_opt getenv ''VIIWORK_GW_MESH_ENFORCE'' (enforce m)
              (one_of ''VIIWORK_GW_MESH_ENFORCE'' [''full'', ''outgoing'', ''none''])) (\<lambda>enf.
     if enf \<noteq> ''full'' \<and> secret_key m = None then Inl (NothingToEnforce enf) else
     rbind (parse_auto (getenv ''VIIWORK_GW_MESH_TAILNET'') ''VIIWORK_GW_MESH_TAILNET'' (network m = ''tailnet'')) (\<lambda>tn.
     rbind (parse_auto (getenv ''VIIWORK_GW_MESH_MDNS'') ''VIIWORK_GW_MESH_MDNS'' (network m = ''lan'')) (\<lambda>md.
     rbind (env_opt getenv ''VIIWORK_GW_TAILSCALE_SOCKET'' (tailnet_socket m) Inr) (\<lambda>sock.
     rbind (split_list (getenv ''VIIWORK_GW_MESH_SEEDS'') ''VIIWORK_GW_MESH_SEEDS'') (\<lambda>sds.
     rbind (check_seeds (bind_port m) sds) (\<lambda>_.
     Inr (m\<lparr>enforce := enf, tailnet := tn, mdns := md, tailnet_socket := sock, mesh_seeds := sds\<rparr>))))))))))))"

section \<open>Load\<close>

fun check_removed :: "getenv \<Rightarrow> (string \<times> string) list \<Rightarrow> (config_error, unit) result" where
  "check_removed getenv [] = Inr ()"
| "check_removed getenv ((env, msg) # rs) =
     (if trim_space (getenv env) \<noteq> [] then Inl (Removed msg) else check_removed getenv rs)"

definition blank_char :: "char \<Rightarrow> bool" where
  "blank_char c \<longleftrightarrow> c = CHR '' '' \<or> c = CHR 0x09 \<or> c = CHR 0x0A \<or> c = CHR 0x0D"

definition load_name :: "getenv \<Rightarrow> string option \<Rightarrow> (config_error, string) result" where
  "load_name getenv hostname =
     rbind (let name = trim_space (getenv ''VIIWORK_GW_NODE_NAME'')
            in if name \<noteq> [] then Inr name
               else case hostname of None \<Rightarrow> Inl HostnameUnreadable | Some h \<Rightarrow> Inr (trim_space h)) (\<lambda>name.
     if name = [] then Inl NodeNameEmpty
     else if list_ex blank_char name then Inl (NodeNameSpace name)
     else Inr name)"

definition load_view_nodes :: "getenv \<Rightarrow> mesh_config \<Rightarrow> (config_error, string list) result" where
  "load_view_nodes getenv m =
     rbind (split_list (getenv ''VIIWORK_GW_VIEW_NODES'') ''VIIWORK_GW_VIEW_NODES'') (\<lambda>ns.
     if open_mesh m \<and> ns = [] then Inl ViewNodesRequired else Inr ns)"

text \<open>The durations are read in the order of the source's table.\<close>

definition duration_vars :: "(string \<times> (duration \<Rightarrow> config \<Rightarrow> config)) list" where
  "duration_vars =
     [(''VIIWORK_GW_COOKIE_TTL'', \<lambda>d c. c\<lparr>cookie_ttl := d\<rparr>),
      (''VIIWORK_GW_BODY_READ_TIMEOUT'', \<lambda>d c. c\<lparr>body_read_timeout := d\<rparr>),
      (''VIIWORK_GW_MESH_REJOIN_INTERVAL'', \<lambda>d c. c\<lparr>mesh := (mesh c)\<lparr>rejoin_interval := d\<rparr>\<rparr>),
      (''VIIWORK_GW_CAPACITY_POLL'', \<lambda>d c. c\<lparr>mesh := (mesh c)\<lparr>capacity_poll := d\<rparr>\<rparr>),
      (''VIIWORK_GW_STALE_AFTER'', \<lambda>d c. c\<lparr>mesh := (mesh c)\<lparr>mesh_stale_after := d\<rparr>\<rparr>)]"

fun load_durations ::
    "getenv \<Rightarrow> (string \<times> (duration \<Rightarrow> config \<Rightarrow> config)) list \<Rightarrow> config \<Rightarrow> (config_error, config) result" where
  "load_durations getenv [] c = Inr c"
| "load_durations getenv ((name, dst) # ds) c =
     (let v = trim_space (getenv name)
      in if v = [] then load_durations getenv ds c
         else case parse_duration v of
           None \<Rightarrow> Inl (BadDuration name v)
         | Some d \<Rightarrow> if d \<le> 0 then Inl (NotPositive name d) else load_durations getenv ds (dst d c))"

definition read_rate :: "string \<Rightarrow> (config_error, float64) result" where
  "read_rate v =
     (case parse_float v of
        None \<Rightarrow> Inl (NotANumber v)
      | Some n \<Rightarrow> if flt n (Fin 0) then Inl NegativeRate else Inr n)"

definition load_config :: "getenv \<Rightarrow> string option \<Rightarrow> (config_error, config) result" where
  "load_config getenv hostname =
     rbind (check_removed getenv removed) (\<lambda>_.
     rbind (env_opt getenv ''VIIWORK_GW_LISTEN'' (listen default_config) Inr) (\<lambda>lst.
     rbind (load_name getenv hostname) (\<lambda>name.
     rbind (load_mesh getenv default_mesh) (\<lambda>m.
     rbind (load_view_nodes getenv m) (\<lambda>ns.
     rbind (load_durations getenv duration_vars
              (default_config\<lparr>listen := lst, node_name := name, mesh := m, view_nodes := ns\<rparr>)) (\<lambda>c.
     rbind (env_opt getenv ''VIIWORK_GW_MAX_BODY'' (max_body c) (\<lambda>v.
              case parse_size v of Inl e \<Rightarrow> Inl (BadSize e) | Inr n \<Rightarrow> Inr n)) (\<lambda>mb.
     rbind (env_opt getenv ''VIIWORK_GW_MAX_INFLIGHT'' (max_in_flight c)
              (env_int ''VIIWORK_GW_MAX_INFLIGHT'' (not_positive ''VIIWORK_GW_MAX_INFLIGHT''))) (\<lambda>mi.
     rbind (env_opt getenv ''VIIWORK_GW_RATE_PER_MIN'' (rate_per_min c) read_rate) (\<lambda>rp.
     rbind (env_opt getenv ''VIIWORK_GW_RATE_BURST'' (rate_burst c)
              (env_int ''VIIWORK_GW_RATE_BURST'' (not_positive ''VIIWORK_GW_RATE_BURST''))) (\<lambda>rb.
     Inr (c\<lparr>max_body := mb, max_in_flight := mi, rate_per_min := rp, rate_burst := rb\<rparr>)))))))))))"

end
