(* ===== verification/ConfigSpec.thy ===== *)
theory ConfigSpec
  imports Config
begin

text \<open>
  The properties of the configuration: what an accepted environment guarantees the rest of the
  program, sizes to the byte, the minimal environments, and that no error carries a mesh secret.
\<close>

section \<open>Sizes\<close>

text \<open>An optional plus sign and decimal digits, with their value, however many they are.\<close>

definition decimal :: "string \<Rightarrow> nat \<Rightarrow> bool" where
  "decimal t n \<longleftrightarrow>
     (\<exists>ds. (t = ds \<or> t = CHR ''+'' # ds) \<and> ds \<noteq> [] \<and> list_all is_digit ds \<and> n = digits_val ds)"

lemma suffix_same_length: "length t = length p \<Longrightarrow> has_suffix (s @ t) p \<longleftrightarrow> t = p"
  by (auto simp: has_suffix_def suffix_def)

lemma digit_upper: "is_digit c \<Longrightarrow> to_upper_char c = c"
  by (auto simp: is_digit_def to_upper_char_def less_eq_char_def)

lemma has_suffix_last: "has_suffix s p \<Longrightarrow> p \<noteq> [] \<Longrightarrow> last s = last p"
  by (auto simp: has_suffix_def suffix_def)

lemma digit_unsigned: "is_digit c \<Longrightarrow> c \<noteq> CHR ''+'' \<and> c \<noteq> CHR ''-''"
  by (auto simp: is_digit_def less_eq_char_def)

lemma parse_int_decimal:
  "parse_int t = Some i \<and> 0 < i \<longleftrightarrow> (\<exists>n. decimal t n \<and> i = int n \<and> 0 < i \<and> i \<le> max_int64)"
proof (cases t)
  case Nil
  then show ?thesis by (simp add: parse_int_def decimal_def)
next
  case (Cons c ds)
  show ?thesis
    using digit_unsigned [of c]
    by (auto simp: Cons parse_int_def decimal_def Let_def in_int64_def min_int64_def split: if_splits)
qed

lemma decimal_last: "decimal t n \<Longrightarrow> t \<noteq> [] \<and> is_digit (last t)"
  by (auto simp: decimal_def list_all_iff)

lemma digits_no_suffix:
  assumes "decimal t n" "p \<in> {''KB'', ''MB'', ''GB''}"
  shows "\<not> has_suffix (to_upper t) p"
proof
  assume "has_suffix (to_upper t) p"
  then have "last (to_upper t) = CHR ''B''" using assms(2) by (auto dest: has_suffix_last)
  moreover have "last (to_upper t) = last t"
    using decimal_last [OF assms(1)] digit_upper by (simp add: to_upper_def last_map)
  ultimately show False using decimal_last [OF assms(1)] by (simp add: is_digit_def less_eq_char_def)
qed

lemma split_size_decimal:
  assumes "trim_space (body @ u) = body @ u" "(to_upper u, k) \<in> set (([], 1) # size_suffixes)" "decimal (trim_space body) n"
  shows "split_size (body @ u) = (trim_space body, k)"
proof -
  have up: "to_upper (body @ u) = to_upper body @ to_upper u" by (simp add: to_upper_def)
  have len: "length u = length (to_upper u)" by (simp add: to_upper_def)
  from assms(2) consider "u = []" "k = 1" | "to_upper u = ''KB''" "k = 1024"
    | "to_upper u = ''MB''" "k = 1024 * 1024" | "to_upper u = ''GB''" "k = 1024 * 1024 * 1024"
    by (auto simp: size_suffixes_def to_upper_def)
  then show ?thesis
  proof cases
    case 1
    then have b: "trim_space body = body" using assms(1) by simp
    show ?thesis using digits_no_suffix [OF assms(3)] by (simp add: 1 b split_size_def size_suffixes_def)
  qed (simp_all add: split_size_def size_suffixes_def up suffix_same_length len)
qed

lemma split_size_some:
  assumes "trim_space t = t" "split_size t = (d, k)"
  shows "\<exists>body u. t = body @ u \<and> (to_upper u, k) \<in> set (([], 1) # size_suffixes) \<and> trim_space body = d"
proof (cases "find (\<lambda>suf. has_suffix (to_upper t) (fst suf)) size_suffixes")
  case None
  with assms show ?thesis
    by (intro exI [of _ t] exI [of _ "[]"]) (simp add: split_size_def to_upper_def)
next
  case (Some sf)
  obtain suf k' where e: "sf = (suf, k')" by (cases sf)
  have sf: "sf = (suf, k')" "(suf, k') \<in> set size_suffixes" "has_suffix (to_upper t) suf"
    using Some unfolding e find_Some_iff by (auto simp: in_set_conv_nth) (metis fst_conv)
  define m where "m = length t - length suf"
  obtain x where x: "to_upper t = x @ suf" using sf(3) by (auto simp: has_suffix_def suffix_def)
  then have "length t = length x + length suf" by (metis length_append length_map to_upper_def)
  then have "to_upper (drop m t) = suf" using x by (simp add: m_def to_upper_def drop_map [symmetric])
  with assms(2) sf show ?thesis
    by (intro exI [of _ "take m t"] exI [of _ "drop m t"]) (simp add: split_size_def Some m_def)
qed

lemma parse_size_split:
  assumes "split_size (trim_space s) = (d, k)" "trim_space s \<noteq> []" "k \<in> {1, 1024, 1024 * 1024, 1024 * 1024 * 1024}"
  shows "parse_size s = Inr b \<longleftrightarrow> (\<exists>n. decimal d n \<and> b = int n * k \<and> 0 < b \<and> b \<le> max_int64)"
proof -
  have q: "quot max_int64 k = max_int64 div k" using assms(3) by (intro quot_nonneg) (auto simp: max_int64_def)
  have le: "max_int64 div k < i \<longleftrightarrow> \<not> i * k \<le> max_int64" for i using assms(3) by (auto simp: max_int64_def)
  have "parse_size s = Inr b \<longleftrightarrow> (\<exists>i. (parse_int d = Some i \<and> 0 < i) \<and> i * k \<le> max_int64 \<and> b = wrap64 (i * k))"
    using assms(1,2) by (auto simp: parse_size_def Let_def q le split: option.splits)
  also have "\<dots> \<longleftrightarrow> (\<exists>n. decimal d n \<and> 0 < int n \<and> int n \<le> max_int64 \<and> int n * k \<le> max_int64 \<and> b = wrap64 (int n * k))"
    unfolding parse_int_decimal by blast
  also have "\<dots> \<longleftrightarrow> (\<exists>n. decimal d n \<and> b = int n * k \<and> 0 < b \<and> b \<le> max_int64)"
  proof (rule iff_exI)
    fix n
    have w: "0 < int n \<Longrightarrow> int n * k \<le> max_int64 \<Longrightarrow> wrap64 (int n * k) = int n * k"
      using assms(3) by (intro wrap64_id) (auto simp: in_int64_def min_int64_def)
    have "0 < int n * k \<longleftrightarrow> 0 < int n" "int n * k \<le> max_int64 \<Longrightarrow> int n \<le> max_int64"
      using assms(3) by (auto simp: max_int64_def)
    with w show "(decimal d n \<and> 0 < int n \<and> int n \<le> max_int64 \<and> int n * k \<le> max_int64 \<and> b = wrap64 (int n * k)) \<longleftrightarrow>
        (decimal d n \<and> b = int n * k \<and> 0 < b \<and> b \<le> max_int64)" by auto
  qed
  finally show ?thesis .
qed

lemma parse_size_iff:
  "parse_size s = Inr b \<longleftrightarrow>
     (\<exists>body u k n. trim_space s = body @ u \<and> (to_upper u, k) \<in> set (([], 1) # size_suffixes) \<and>
        decimal (trim_space body) n \<and> b = int n * k \<and> 0 < b \<and> b \<le> max_int64)" (is "_ \<longleftrightarrow> ?R")
proof (cases "trim_space s = []")
  case True
  then show ?thesis by (auto simp: parse_size_def decimal_def)
next
  case False
  have ks: "(to_upper u, k) \<in> set (([], 1) # size_suffixes) \<Longrightarrow> k \<in> {1, 1024, 1024 * 1024, 1024 * 1024 * 1024}" for u k
    by (auto simp: size_suffixes_def)
  obtain d k where sp: "split_size (trim_space s) = (d, k)" by (cases "split_size (trim_space s)")
  obtain body u where bu: "trim_space s = body @ u" "(to_upper u, k) \<in> set (([], 1) # size_suffixes)" "trim_space body = d"
    using split_size_some [OF trim_space_idem sp] by blast
  have p: "parse_size s = Inr b \<longleftrightarrow> (\<exists>n. decimal d n \<and> b = int n * k \<and> 0 < b \<and> b \<le> max_int64)"
    by (rule parse_size_split [OF sp False ks [OF bu(2)]])
  show ?thesis
  proof
    assume "parse_size s = Inr b"
    with p bu show ?R by blast
  next
    assume ?R
    then obtain body' u' k' n where r: "trim_space s = body' @ u'" "(to_upper u', k') \<in> set (([], 1) # size_suffixes)"
      "decimal (trim_space body') n" "b = int n * k'" "0 < b" "b \<le> max_int64" by blast
    have "trim_space (body' @ u') = body' @ u'" using trim_space_idem [of s] by (simp add: r(1) [symmetric])
    from split_size_decimal [OF this r(2,3)] sp have "d = trim_space body'" "k = k'" by (simp_all add: r(1))
    with p r show "parse_size s = Inr b" by blast
  qed
qed

text \<open>C25: A size is exact or refused, whatever the string. It is accepted just when, blanks at its ends
  aside, it is a plain decimal count, possibly with a plus sign, and an optional KB, MB or GB of any
  case with blanks allowed between the two, and the count times the suffix's power of 1024 is
  positive and at most the largest \<open>int64\<close>; the result is that product. The count is any number of
  digits: one beyond \<open>int64\<close> is refused like any other, and no product wraps around.\<close>

theorem parse_size_exact:
  "parse_size s = Inr b \<longleftrightarrow>
     (\<exists>body u k n. trim_space s = body @ u \<and> (to_upper u, k) \<in> set (([], 1) # size_suffixes) \<and>
        decimal (trim_space body) n \<and> b = int n * k \<and> 0 < b \<and> b \<le> max_int64)"
  by (rule parse_size_iff)

section \<open>What is accepted\<close>

definition entries_ok :: "string list \<Rightarrow> bool" where
  "entries_ok xs \<longleftrightarrow> distinct xs \<and> (\<forall>x \<in> set xs. x \<noteq> [])"

definition positive64 :: "int \<Rightarrow> bool" where
  "positive64 n \<longleftrightarrow> 0 < n \<and> n \<le> max_int64"

text \<open>The ranges that are checked, and no more.\<close>

definition mesh_ok :: "mesh_config \<Rightarrow> bool" where
  "mesh_ok m \<longleftrightarrow>
     network m \<in> {''tailnet'', ''lan''} \<and> 1 \<le> bind_port m \<and> bind_port m \<le> 65535 \<and>
     (open_mesh m \<longleftrightarrow> secret_key m = None) \<and>
     (\<forall>k \<in> set_option (secret_key m) \<union> set_option (previous_key m). length k = 32) \<and>
     (previous_key m \<noteq> None \<longrightarrow> secret_key m \<noteq> None) \<and>
     enforce m \<in> {''full'', ''outgoing'', ''none''} \<and> (enforce m \<noteq> ''full'' \<longrightarrow> secret_key m \<noteq> None) \<and>
     entries_ok (mesh_seeds m) \<and> (\<forall>s \<in> set (mesh_seeds m). parse_addr_port s \<noteq> None) \<and>
     positive64 (rejoin_interval m) \<and> positive64 (capacity_poll m) \<and> positive64 (mesh_stale_after m)"

definition config_ok :: "config \<Rightarrow> bool" where
  "config_ok c \<longleftrightarrow>
     node_name c \<noteq> [] \<and> \<not> list_ex blank_char (node_name c) \<and> mesh_ok (mesh c) \<and>
     entries_ok (view_nodes c) \<and> (open_mesh (mesh c) \<longrightarrow> view_nodes c \<noteq> []) \<and>
     positive64 (cookie_ttl c) \<and> positive64 (body_read_timeout c) \<and>
     positive64 (max_body c) \<and> positive64 (max_in_flight c) \<and> positive64 (rate_burst c) \<and>
     \<not> flt (rate_per_min c) (Fin 0)"

named_theorems accepted \<open>what a step guarantees of the value it accepts\<close>

lemma env_opt_Inr: "env_opt g n d f = Inr x \<Longrightarrow> x = d \<or> (\<exists>v. f v = Inr x)"
  by (auto simp: env_opt_def Let_def split: if_splits)

lemma env_opt_keeps:
  assumes "env_opt g n d f = Inr x" "P d" "\<And>v. f v = Inr x \<Longrightarrow> P x"
  shows "P x"
  using env_opt_Inr [OF assms(1)] assms(2,3) by blast

lemma one_of_Inr: "one_of n xs v = Inr x \<Longrightarrow> x \<in> set xs"
  by (auto simp: one_of_def split: if_splits)

lemma env_int_Inr: "env_int n bad v = Inr x \<Longrightarrow> bad x = None \<and> in_int64 x"
  using parse_int_range by (auto simp: env_int_def atoi_def split: option.splits)

lemma not_positive_None: "not_positive n x = None \<and> in_int64 x \<Longrightarrow> positive64 x"
  by (auto simp: not_positive_def positive64_def in_int64_def split: if_splits)

lemma env_int_positive: "env_int n (not_positive k) v = Inr x \<Longrightarrow> positive64 x"
  by (drule env_int_Inr) (rule not_positive_None)

lemma split_entries_ok: "split_entries raw env ps out = Inr xs \<Longrightarrow> entries_ok out \<Longrightarrow> entries_ok xs"
proof (induction raw env ps out rule: split_entries.induct)
  case (2 raw env p ps out)
  then show ?case by (auto simp: Let_def entries_ok_def split: if_splits)
qed simp

lemma split_list_ok: "split_list raw env = Inr xs \<Longrightarrow> entries_ok xs"
  by (auto simp: split_list_def Let_def entries_ok_def split: if_splits
      dest!: split_entries_ok [unfolded entries_ok_def])

lemma decode_key_length: "decode_key v env = Inr k \<Longrightarrow> length k = 32"
  by (auto simp: decode_key_def split: option.splits if_splits)

lemma check_seeds_ok: "check_seeds p ss = Inr u \<Longrightarrow> \<forall>s \<in> set ss. parse_addr_port s \<noteq> None"
  by (induction ss) (auto split: if_splits)

lemma load_secret_Inr:
  assumes "load_secret g m = Inr m'" "secret_key m = None" "previous_key m = None"
  shows "\<exists>sk pk. m' = m\<lparr>secret_key := sk, previous_key := pk\<rparr> \<and> (open_mesh m \<longleftrightarrow> sk = None) \<and>
     (\<forall>k \<in> set_option sk \<union> set_option pk. length k = 32) \<and> (pk \<noteq> None \<longrightarrow> sk \<noteq> None)"
proof -
  have same: "m = m\<lparr>secret_key := None, previous_key := None\<rparr>" using assms(2,3) by simp
  define secret where "secret = trim_space (g ''VIIWORK_MESH_SECRET'')"
  define prev where "prev = trim_space (g ''VIIWORK_MESH_SECRET_PREV'')"
  note l = assms(1) [unfolded load_secret_def Let_def, folded secret_def prev_def]
  show ?thesis
  proof (cases "secret = []")
    case True
    with l assms(2) have "m' = m" "open_mesh m" by (auto split: if_splits)
    then show ?thesis using same assms(2,3)
      by (intro exI [of _ None]) auto
  next
    case False
    with l obtain k where k: "decode_key secret ''VIIWORK_MESH_SECRET'' = Inr k" and o: "\<not> open_mesh m"
      and r: "(if prev \<noteq> [] then rbind (decode_key prev ''VIIWORK_MESH_SECRET_PREV'')
                 (\<lambda>p. Inr (m\<lparr>secret_key := Some k, previous_key := Some p\<rparr>)) else Inr (m\<lparr>secret_key := Some k\<rparr>)) = Inr m'"
      by (auto simp: result_iff split: if_splits)
    note k32 = decode_key_length [OF k]
    show ?thesis
    proof (cases "prev = []")
      case True
      with r have "m' = m\<lparr>secret_key := Some k\<rparr>" by simp
      then have "m' = m\<lparr>secret_key := Some k, previous_key := None\<rparr>" using assms(3) by (cases m) simp
      then show ?thesis using k32 o by (intro exI [of _ "Some k"] exI [of _ None]) simp
    next
      case False
      with r obtain p where "decode_key prev ''VIIWORK_MESH_SECRET_PREV'' = Inr p"
        "m' = m\<lparr>secret_key := Some k, previous_key := Some p\<rparr>" by (auto simp: result_iff)
      then show ?thesis using k32 o decode_key_length
        by (intro exI [of _ "Some k"] exI [of _ "Some p"]) auto
    qed
  qed
qed

lemma port_bad_None: "port_bad n = None \<Longrightarrow> 1 \<le> n \<and> n \<le> 65535"
  by (auto simp: port_bad_def split: if_splits)

lemma load_mesh_ok:
  assumes "load_mesh g default_mesh = Inr m"
  shows "mesh_ok m"
proof -
  from assms obtain net port adv opn m1 enf tn md sock sds u where
    n: "env_opt g ''VIIWORK_GW_MESH_NETWORK'' (network default_mesh)
          (one_of ''VIIWORK_GW_MESH_NETWORK'' [''tailnet'', ''lan'']) = Inr net"
    and p: "env_opt g ''VIIWORK_GW_MESH_BIND_PORT'' (bind_port default_mesh)
          (env_int ''VIIWORK_GW_MESH_BIND_PORT'' port_bad) = Inr port"
    and s: "load_secret g (default_mesh\<lparr>network := net, bind_port := port, advertise := adv, open_mesh := opn\<rparr>) = Inr m1"
    and e: "env_opt g ''VIIWORK_GW_MESH_ENFORCE'' (enforce m1)
          (one_of ''VIIWORK_GW_MESH_ENFORCE'' [''full'', ''outgoing'', ''none'']) = Inr enf"
    and ek: "\<not> (enf \<noteq> ''full'' \<and> secret_key m1 = None)"
    and l: "split_list (g ''VIIWORK_GW_MESH_SEEDS'') ''VIIWORK_GW_MESH_SEEDS'' = Inr sds"
    and c: "check_seeds (bind_port m1) sds = Inr u"
    and m: "m1\<lparr>enforce := enf, tailnet := tn, mdns := md, tailnet_socket := sock, mesh_seeds := sds\<rparr> = m"
    unfolding load_mesh_def rbind_Inr_iff if_Inl_Inr_iff sum.inject by (elim exE conjE) (rule that; assumption)
  have net: "net \<in> {''tailnet'', ''lan''}"
    by (rule env_opt_keeps [OF n]) (auto simp: default_mesh_def dest: one_of_Inr)
  have port: "1 \<le> port \<and> port \<le> 65535"
    by (rule env_opt_keeps [OF p]) (auto simp: default_mesh_def dest!: env_int_Inr port_bad_None)
  from load_secret_Inr [OF s] obtain sk pk where
    m1: "m1 = default_mesh\<lparr>network := net, bind_port := port, advertise := adv, open_mesh := opn, secret_key := sk, previous_key := pk\<rparr>"
    and k: "opn \<longleftrightarrow> sk = None" "\<forall>k \<in> set_option sk \<union> set_option pk. length k = 32" "pk \<noteq> None \<longrightarrow> sk \<noteq> None"
    by (auto simp: default_mesh_def)
  have enf: "enf \<in> {''full'', ''outgoing'', ''none''}"
    by (rule env_opt_keeps [OF e]) (auto simp: m1 default_mesh_def dest: one_of_Inr)
  have "enf \<noteq> ''full'' \<longrightarrow> sk \<noteq> None" using ek m1 by auto
  then show ?thesis
    using net port enf k split_list_ok [OF l] check_seeds_ok [OF c]
    unfolding mesh_ok_def m [symmetric] m1
    by (simp add: default_mesh_def positive64_def second_def max_int64_def)
qed

lemma load_durations_keeps:
  assumes "\<And>n dst d c. (n, dst) \<in> set ds \<Longrightarrow> positive64 d \<Longrightarrow> P c \<Longrightarrow> P (dst d c)"
  shows "load_durations g ds c = Inr c' \<Longrightarrow> P c \<Longrightarrow> P c'"
  using assms
proof (induction g ds c rule: load_durations.induct)
  case (2 g n dst ds c)
  show ?case
  proof (cases "trim_space (g n) = []")
    case True
    show ?thesis by (rule 2(1) [OF refl True]) (use 2 True in auto)
  next
    case False
    with 2(3) obtain d where d: "parse_duration (trim_space (g n)) = Some d" "0 < d"
      "load_durations g ds (dst d c) = Inr c'" by (auto simp: Let_def split: option.splits if_splits)
    with parse_duration_int64 [OF d(1)] have "positive64 d" by (simp add: positive64_def in_int64_def)
    with 2(4,5) have "P (dst d c)" by auto
    from 2(2) [OF refl False d(1)] d this 2(5) show ?thesis by auto
  qed
qed simp

lemma duration_vars_ok:
  assumes "(n, dst) \<in> set duration_vars" "positive64 d" "config_ok c"
  shows "config_ok (dst d c)"
proof -
  from assms(1) consider "dst = (\<lambda>d c. c\<lparr>cookie_ttl := d\<rparr>)" | "dst = (\<lambda>d c. c\<lparr>body_read_timeout := d\<rparr>)"
    | "dst = (\<lambda>d c. c\<lparr>mesh := (mesh c)\<lparr>rejoin_interval := d\<rparr>\<rparr>)" | "dst = (\<lambda>d c. c\<lparr>mesh := (mesh c)\<lparr>capacity_poll := d\<rparr>\<rparr>)"
    | "dst = (\<lambda>d c. c\<lparr>mesh := (mesh c)\<lparr>mesh_stale_after := d\<rparr>\<rparr>)" by (auto simp: duration_vars_def)
  then show ?thesis using assms(2,3) by cases (auto simp: config_ok_def mesh_ok_def)
qed

lemma parse_size_ok: "parse_size s = Inr n \<Longrightarrow> positive64 n"
  by (auto simp: parse_size_iff positive64_def)

lemma load_config_ok:
  assumes "load_config getenv hostname = Inr c"
  shows "config_ok c"
proof -
  from assms obtain u lst name m ns c1 mb mi rp rb where
    n: "load_name getenv hostname = Inr name"
    and m: "load_mesh getenv default_mesh = Inr m"
    and v: "load_view_nodes getenv m = Inr ns"
    and d: "load_durations getenv duration_vars
          (default_config\<lparr>listen := lst, node_name := name, mesh := m, view_nodes := ns\<rparr>) = Inr c1"
    and mb: "env_opt getenv ''VIIWORK_GW_MAX_BODY'' (max_body c1) (\<lambda>v.
          case parse_size v of Inl e \<Rightarrow> Inl (BadSize e) | Inr n \<Rightarrow> Inr n) = Inr mb"
    and mi: "env_opt getenv ''VIIWORK_GW_MAX_INFLIGHT'' (max_in_flight c1)
          (env_int ''VIIWORK_GW_MAX_INFLIGHT'' (not_positive ''VIIWORK_GW_MAX_INFLIGHT'')) = Inr mi"
    and rp: "env_opt getenv ''VIIWORK_GW_RATE_PER_MIN'' (rate_per_min c1) read_rate = Inr rp"
    and rb: "env_opt getenv ''VIIWORK_GW_RATE_BURST'' (rate_burst c1)
          (env_int ''VIIWORK_GW_RATE_BURST'' (not_positive ''VIIWORK_GW_RATE_BURST'')) = Inr rb"
    and c: "c1\<lparr>max_body := mb, max_in_flight := mi, rate_per_min := rp, rate_burst := rb\<rparr> = c"
    unfolding load_config_def rbind_Inr_iff sum.inject by (elim exE conjE) (rule that; assumption)
  have name: "name \<noteq> [] \<and> \<not> list_ex blank_char name"
    using n by (auto simp: load_name_def result_iff split: if_splits)
  have ns: "entries_ok ns \<and> (open_mesh m \<longrightarrow> ns \<noteq> [])"
    using v split_list_ok by (auto simp: load_view_nodes_def result_iff)
  have "config_ok (default_config\<lparr>listen := lst, node_name := name, mesh := m, view_nodes := ns\<rparr>)"
    using name ns load_mesh_ok [OF m]
    by (auto simp: config_ok_def default_config_def positive64_def second_def max_int64_def)
  then have c1: "config_ok c1"
    by (rule load_durations_keeps [where P = config_ok, rotated, OF d]) (rule duration_vars_ok)
  have "positive64 mb"
    by (rule env_opt_keeps [OF mb]) (use c1 parse_size_ok in \<open>auto simp: config_ok_def split: sum.splits\<close>)
  moreover have "positive64 mi"
    by (rule env_opt_keeps [OF mi]) (use c1 in \<open>auto simp: config_ok_def dest: env_int_positive\<close>)
  moreover have "positive64 rb"
    by (rule env_opt_keeps [OF rb]) (use c1 in \<open>auto simp: config_ok_def dest: env_int_positive\<close>)
  moreover have "\<not> flt rp (Fin 0)"
    by (rule env_opt_keeps [OF rp]) (use c1 in \<open>auto simp: config_ok_def read_rate_def split: option.splits if_splits\<close>)
  ultimately show ?thesis using c1 unfolding c [symmetric] by (simp add: config_ok_def)
qed

text \<open>C17: What an accepted configuration guarantees. Whatever the environment, the node has a name
  without blanks; the mesh is either secured or open and not both, a previous key comes only with a
  key, both have 32 bytes, and without one nothing but full enforcement is accepted; an open mesh has
  its list of view nodes; the port is from 1 to 65535 and the network, the enforcement and the seeds
  are of the known forms; lists have no blank and no repeated entry; durations, sizes and counts are
  positive \<open>int64\<close> values, and the rate is not less than zero. That is all: a rate of NaN, a body
  limit of the largest \<open>int64\<close> and reports that go stale between two polls are accepted too.\<close>

theorem config_valid:
  assumes "load_config getenv hostname = Inr c"
  shows "config_ok c"
  by (rule load_config_ok [OF assms])

text \<open>The least an open mesh needs: the mode, a view node and a name.\<close>

definition env_of :: "(string \<times> string) list \<Rightarrow> getenv" where
  "env_of vars = (\<lambda>n. case map_of vars n of Some v \<Rightarrow> v | None \<Rightarrow> [])"

definition open_environ :: getenv where
  "open_environ = env_of [(''VIIWORK_GW_MESH_OPEN'', ''true''), (''VIIWORK_GW_VIEW_NODES'', ''a, b''),
     (''VIIWORK_GW_CAPACITY_POLL'', ''500ms''), (''VIIWORK_GW_MESH_SEEDS'', ''100.64.0.2:7946''),
     (''VIIWORK_GW_RATE_PER_MIN'', ''NaN'')]"

definition open_config :: config where
  "open_config = default_config\<lparr>node_name := ''gw'', view_nodes := [''a'', ''b''], rate_per_min := NaN,
     mesh := default_mesh\<lparr>open_mesh := True, tailnet := True, mesh_seeds := [''100.64.0.2:7946''],
       capacity_poll := 500000000\<rparr>\<rparr>"

lemma open_loads: "load_config open_environ (Some ''gw'') = Inr open_config"
  by code_simp

theorem config_valid_witness: "config_ok open_config"
  by (rule config_valid [OF open_loads])

text \<open>Nothing compares the two capacity times. The comment on them says that \<open>StaleAfter\<close> must
  comfortably exceed \<open>CapacityPoll\<close>, or every report is stale on arrival; a configuration that polls
  ten times slower than reports go stale is accepted.\<close>

theorem stale_on_arrival:
  "\<exists>g h c. load_config g h = Inr c \<and> capacity_poll (mesh c) = 10 * mesh_stale_after (mesh c)"
proof -
  let ?g = "env_of [(''VIIWORK_GW_MESH_OPEN'', ''true''), (''VIIWORK_GW_VIEW_NODES'', ''a''),
      (''VIIWORK_GW_CAPACITY_POLL'', ''10s''), (''VIIWORK_GW_STALE_AFTER'', ''1s'')]"
  let ?m = "default_mesh\<lparr>open_mesh := True, tailnet := True, capacity_poll := 10 * second, mesh_stale_after := second\<rparr>"
  let ?c = "default_config\<lparr>node_name := ''gw'', view_nodes := [''a''], mesh := ?m\<rparr>"
  have "load_config ?g (Some ''gw'') = Inr ?c" by code_simp
  then show ?thesis by (intro exI [of _ ?g] exI [of _ "Some ''gw''"] exI [of _ ?c]) simp
qed

section \<open>Lists\<close>

lemma split_entries_id:
  assumes "\<forall>x \<in> set xs. trim_space x = x \<and> x \<noteq> []" "distinct (out @ xs)"
  shows "split_entries raw env xs out = Inr (out @ xs)"
  using assms by (induction xs arbitrary: out) (auto simp: Let_def)

text \<open>A list is read as it is written. Distinct names joined by commas come back in order, whatever
  they are as long as they are not blank at their ends and have no comma.\<close>

theorem split_list_roundtrip:
  assumes "xs \<noteq> []" and "distinct xs"
    and "\<forall>x \<in> set xs. x \<noteq> [] \<and> CHR '','' \<notin> set x \<and> plain_start (hd x) \<and> plain_end (last x)"
  shows "split_list (join '','' xs) env = Inr xs"
proof -
  have t: "trim_space x = x \<and> x \<noteq> []" if "x \<in> set xs" for x
    using assms(3) that by (auto intro!: trim_space_plain)
  have hl: "join '','' ys \<noteq> [] \<and> hd (join '','' ys) = hd (hd ys) \<and> last (join '','' ys) = last (last ys)"
    if "ys \<noteq> []" "\<forall>y \<in> set ys. y \<noteq> []" for ys
    using that by (induction "'',''" ys rule: join.induct) auto
  have "\<forall>y \<in> set xs. y \<noteq> []" using t by blast
  from hl [OF assms(1) this] assms(1,3) have j: "trim_space (join '','' xs) = join '','' xs" "join '','' xs \<noteq> []"
    by (auto intro!: trim_space_plain)
  have "split_on CHR '','' (join '','' xs) = xs" using assms(1,3) by (intro split_join) auto
  with j split_entries_id [of xs "[]"] t assms(2) show ?thesis by (simp add: split_list_def Let_def)
qed

theorem split_list_roundtrip_witness: "split_list ''a,b'' ''X'' = Inr [''a'', ''b'']"
proof -
  have p: "plain_start CHR ''a'' \<and> plain_end CHR ''a''" "plain_start CHR ''b'' \<and> plain_end CHR ''b''" by code_simp+
  have "split_list (join '','' [''a'', ''b'']) ''X'' = Inr [''a'', ''b'']"
    by (rule split_list_roundtrip) (use p in auto)
  then show ?thesis by simp
qed

section \<open>The least secured configuration\<close>

lemma b64_trimmed: "trim_space (b64_encode std_encoding bs) = b64_encode std_encoding bs"
proof (rule trim_space_plain)
  assume ne: "b64_encode std_encoding bs \<noteq> []"
  have "\<forall>c \<in> set (CHR ''='' # alphabet std_encoding). plain_start c \<and> plain_end c" by code_simp
  then have "plain_start c \<and> plain_end c" if "c \<in> set (b64_encode std_encoding bs)" for c
    using b64_encode_symbols [OF std_ok, of bs] that by (auto split: if_splits)
  then show "plain_start (hd (b64_encode std_encoding bs)) \<and> plain_end (last (b64_encode std_encoding bs))"
    using ne by simp
qed

lemma b64_ne: "bs \<noteq> [] \<Longrightarrow> b64_encode e bs \<noteq> []"
  by (cases "(e, bs)" rule: b64_encode.cases) (simp_all add: Let_def)

text \<open>A secret of 32 bytes in standard base64 is all a gateway needs. With that and a host name it
  runs with the defaults, secured with exactly these bytes and discovering over the tailnet.\<close>

theorem secured_default:
  assumes "length key = 32" and "h \<noteq> []" and "plain_start (hd h)" and "plain_end (last h)"
    and "\<not> list_ex blank_char h"
  shows "load_config (env_of [(''VIIWORK_MESH_SECRET'', b64_encode std_encoding key)]) (Some h) =
     Inr (default_config\<lparr>node_name := h, mesh := default_mesh\<lparr>secret_key := Some key, tailnet := True\<rparr>\<rparr>)"
proof -
  have t: "trim_space h = h" using assms(3,4) by (intro trim_space_plain) simp
  have "key \<noteq> []" using assms(1) by auto
  note b = b64_ne [OF this, of std_encoding] b64_trimmed b64_roundtrip [OF std_ok]
  show ?thesis
    using assms(1,2,5)
    by (simp add: load_config_def env_of_def removed_def env_opt_def load_name_def t load_mesh_def load_secret_def
        b decode_key_def parse_auto_def split_list_def load_view_nodes_def duration_vars_def
        default_config_def default_mesh_def)
qed

theorem secured_default_witness:
  "load_config (env_of [(''VIIWORK_MESH_SECRET'', b64_encode std_encoding (replicate 32 CHR ''k''))]) (Some ''gw'') =
     Inr (default_config\<lparr>node_name := ''gw'',
       mesh := default_mesh\<lparr>secret_key := Some (replicate 32 CHR ''k''), tailnet := True\<rparr>\<rparr>)"
proof (rule secured_default)
  show "plain_start (hd ''gw'')" "plain_end (last ''gw'')" "\<not> list_ex blank_char ''gw''" by code_simp+
qed simp_all

section \<open>Errors and secrets\<close>

text \<open>Two outcomes that fail alike or succeed with related values.\<close>

lemma rel_rbind:
  assumes "rel_sum (=) R m m'" "\<And>a b. R a b \<Longrightarrow> rel_sum (=) S (f a) (f' b)"
  shows "rel_sum (=) S (rbind m f) (rbind m' f')"
  using assms by (cases m; cases m') auto

lemma rel_same: "R = (=) \<Longrightarrow> rel_sum (=) R x x"
  by (cases x) auto

lemma rel_rbind_same: "(\<And>a. rel_sum (=) S (f a) (f' a)) \<Longrightarrow> rel_sum (=) S (rbind m f) (rbind m f')"
  by (cases m) auto

text \<open>Configurations that differ at most in the bytes of the keys.\<close>

definition like_mesh :: "mesh_config \<Rightarrow> mesh_config \<Rightarrow> bool" where
  "like_mesh m m' \<longleftrightarrow>
     m\<lparr>secret_key := None, previous_key := None\<rparr> = m'\<lparr>secret_key := None, previous_key := None\<rparr> \<and>
     (secret_key m = None \<longleftrightarrow> secret_key m' = None) \<and> (previous_key m = None \<longleftrightarrow> previous_key m' = None)"

lemma rel_refused: "rel_sum (=) S x y \<Longrightarrow> rel_sum (=) S (if b then Inl e else x) (if b then Inl e else y)"
  by simp

definition like_config :: "config \<Rightarrow> config \<Rightarrow> bool" where
  "like_config c c' \<longleftrightarrow> c\<lparr>mesh := default_mesh\<rparr> = c'\<lparr>mesh := default_mesh\<rparr> \<and> like_mesh (mesh c) (mesh c')"

text \<open>Both blank, both not base64, or both base64 of equally many bytes.\<close>

definition alike :: "string \<Rightarrow> string \<Rightarrow> bool" where
  "alike s s' \<longleftrightarrow> (trim_space s = [] \<longleftrightarrow> trim_space s' = []) \<and>
     map_option length (b64_decode std_encoding (trim_space s)) = map_option length (b64_decode std_encoding (trim_space s'))"

abbreviation with_secrets :: "getenv \<Rightarrow> string \<Rightarrow> string \<Rightarrow> getenv" where
  "with_secrets g s p \<equiv> g(''VIIWORK_MESH_SECRET'' := s, ''VIIWORK_MESH_SECRET_PREV'' := p)"

lemma decode_key_alike:
  assumes "alike s s'"
  shows "rel_sum (=) (\<lambda>_ _. True) (decode_key (trim_space s) env) (decode_key (trim_space s') env)"
  using assms by (cases "b64_decode std_encoding (trim_space s)"; cases "b64_decode std_encoding (trim_space s')")
    (auto simp: alike_def decode_key_def)

text \<open>The two keys of \<open>load_secret\<close>, each read if its variable is set.\<close>

lemma load_secret_alike:
  assumes "alike s s'" "alike p p'"
  shows "rel_sum (=) like_mesh (load_secret (with_secrets g s p) m) (load_secret (with_secrets g s' p') m)"
proof -
  have n: "with_secrets g v w ''VIIWORK_MESH_SECRET_PREV'' = w" "with_secrets g v w ''VIIWORK_MESH_SECRET'' = v" for v w
    by simp_all
  have b: "trim_space s = [] \<longleftrightarrow> trim_space s' = []" "trim_space p = [] \<longleftrightarrow> trim_space p' = []"
    using assms by (simp_all add: alike_def)
  have k: "rel_sum (=) like_mesh
      (if trim_space s' \<noteq> [] then rbind (decode_key (trim_space s) ''VIIWORK_MESH_SECRET'') (\<lambda>k. Inr (m\<lparr>secret_key := Some k\<rparr>)) else Inr m)
      (if trim_space s' \<noteq> [] then rbind (decode_key (trim_space s') ''VIIWORK_MESH_SECRET'') (\<lambda>k. Inr (m\<lparr>secret_key := Some k\<rparr>)) else Inr m)"
    using rel_rbind [OF decode_key_alike [OF assms(1)], of like_mesh "\<lambda>k. Inr (m\<lparr>secret_key := Some k\<rparr>)"
        "\<lambda>k. Inr (m\<lparr>secret_key := Some k\<rparr>)"] by (simp add: like_mesh_def)
  have q: "rel_sum (=) like_mesh
      (if trim_space p' \<noteq> [] then
         (if secret_key a = None then Inl PreviousWithoutKey
          else rbind (decode_key (trim_space p) ''VIIWORK_MESH_SECRET_PREV'') (\<lambda>k. Inr (a\<lparr>previous_key := Some k\<rparr>)))
       else Inr a)
      (if trim_space p' \<noteq> [] then
         (if secret_key b = None then Inl PreviousWithoutKey
          else rbind (decode_key (trim_space p') ''VIIWORK_MESH_SECRET_PREV'') (\<lambda>k. Inr (b\<lparr>previous_key := Some k\<rparr>)))
       else Inr b)" if l: "like_mesh a b" for a b
  proof -
    have "like_mesh (a\<lparr>previous_key := Some k\<rparr>) (b\<lparr>previous_key := Some k'\<rparr>)" for k k'
      using l by (cases a; cases b) (simp add: like_mesh_def)
    moreover have "secret_key a = None \<longleftrightarrow> secret_key b = None" using l by (simp add: like_mesh_def)
    ultimately show ?thesis
      using rel_rbind [OF decode_key_alike [OF assms(2)], of like_mesh "\<lambda>k. Inr (a\<lparr>previous_key := Some k\<rparr>)"
          "\<lambda>k. Inr (b\<lparr>previous_key := Some k\<rparr>)"] l by simp
  qed
  show ?thesis
    unfolding load_secret_def Let_def n b by (intro rel_refused rel_rbind [OF k q])
qed

lemma env_opt_secret:
  "n \<notin> {''VIIWORK_MESH_SECRET'', ''VIIWORK_MESH_SECRET_PREV''} \<Longrightarrow> env_opt (with_secrets g s p) n d f = env_opt g n d f"
  by (simp add: env_opt_def)

lemma like_mesh_same:
  assumes "like_mesh m m'"
  shows "network m = network m'" "bind_port m = bind_port m'" "open_mesh m = open_mesh m'" "enforce m = enforce m'"
    "tailnet_socket m = tailnet_socket m'" "secret_key m = None \<longleftrightarrow> secret_key m' = None"
  using assms by (cases m; cases m'; simp add: like_mesh_def)+

lemma load_mesh_alike:
  assumes "alike s s'" "alike p p'"
  shows "rel_sum (=) like_mesh (load_mesh (with_secrets g s p) m) (load_mesh (with_secrets g s' p') m)"
proof -
  have step: "rel_sum (=) like_mesh
     (rbind (env_opt g n1 (enforce a) f1) (\<lambda>enf.
      if enf \<noteq> ''full'' \<and> secret_key a = None then Inl (NothingToEnforce enf) else
      rbind (parse_auto r2 n2 (network a = ''tailnet'')) (\<lambda>tn. rbind (parse_auto r3 n3 (network a = ''lan'')) (\<lambda>md.
      rbind (env_opt g n4 (tailnet_socket a) Inr) (\<lambda>sock. rbind (split_list r5 n5) (\<lambda>sds.
      rbind (check_seeds (bind_port a) sds) (\<lambda>_.
      Inr (a\<lparr>enforce := enf, tailnet := tn, mdns := md, tailnet_socket := sock, mesh_seeds := sds\<rparr>))))))))
     (rbind (env_opt g n1 (enforce b) f1) (\<lambda>enf.
      if enf \<noteq> ''full'' \<and> secret_key b = None then Inl (NothingToEnforce enf) else
      rbind (parse_auto r2 n2 (network b = ''tailnet'')) (\<lambda>tn. rbind (parse_auto r3 n3 (network b = ''lan'')) (\<lambda>md.
      rbind (env_opt g n4 (tailnet_socket b) Inr) (\<lambda>sock. rbind (split_list r5 n5) (\<lambda>sds.
      rbind (check_seeds (bind_port b) sds) (\<lambda>_.
      Inr (b\<lparr>enforce := enf, tailnet := tn, mdns := md, tailnet_socket := sock, mesh_seeds := sds\<rparr>))))))))"
    if "like_mesh a b" for a b n1 f1 r2 n2 r3 n3 n4 r5 n5
  proof -
    have l: "like_mesh (a\<lparr>enforce := enf, tailnet := tn, mdns := md, tailnet_socket := sock, mesh_seeds := sds\<rparr>)
        (b\<lparr>enforce := enf, tailnet := tn, mdns := md, tailnet_socket := sock, mesh_seeds := sds\<rparr>)"
      for enf tn md sock sds
      using that by (cases a; cases b) (simp add: like_mesh_def)
    show ?thesis
      unfolding like_mesh_same [OF that]
      by (rule rel_rbind_same) (auto intro!: rel_rbind_same l)
  qed
  have e: "with_secrets g v w ''VIIWORK_GW_MESH_TAILNET'' = g ''VIIWORK_GW_MESH_TAILNET''"
    "with_secrets g v w ''VIIWORK_GW_MESH_MDNS'' = g ''VIIWORK_GW_MESH_MDNS''"
    "with_secrets g v w ''VIIWORK_GW_MESH_SEEDS'' = g ''VIIWORK_GW_MESH_SEEDS''" for v w by simp_all
  note o = env_opt_secret [of "''VIIWORK_GW_MESH_NETWORK''", simplified]
    env_opt_secret [of "''VIIWORK_GW_MESH_BIND_PORT''", simplified] env_opt_secret [of "''VIIWORK_GW_MESH_ADVERTISE''", simplified]
    env_opt_secret [of "''VIIWORK_GW_MESH_OPEN''", simplified] env_opt_secret [of "''VIIWORK_GW_MESH_ENFORCE''", simplified]
    env_opt_secret [of "''VIIWORK_GW_TAILSCALE_SOCKET''", simplified] e
  show ?thesis
    unfolding load_mesh_def o
    by (rule rel_rbind_same)+ (rule rel_rbind [OF load_secret_alike [OF assms] step])
qed

lemma load_durations_alike:
  assumes "\<forall>(n, dst) \<in> set ds. \<forall>d c c'. like_config c c' \<longrightarrow> like_config (dst d c) (dst d c')" "like_config c c'"
  shows "rel_sum (=) like_config (load_durations g ds c) (load_durations g ds c')"
  using assms
proof (induction ds arbitrary: c c')
  case (Cons nd ds)
  obtain n dst where nd: "nd = (n, dst)" by (cases nd)
  have l: "like_config (dst d c) (dst d c')" for d using Cons.prems nd by auto
  have ih: "like_config a b \<Longrightarrow> rel_sum (=) like_config (load_durations g ds a) (load_durations g ds b)" for a b
    using Cons.IH [of a b] Cons.prems(1) by auto
  show ?case
    using ih [OF Cons.prems(2)] ih [OF l]
    by (cases "parse_duration (trim_space (g n))") (auto simp: nd Let_def)
qed simp

lemma duration_vars_alike:
  assumes "(n, dst) \<in> set duration_vars" "like_config c c'"
  shows "like_config (dst d c) (dst d c')"
  using assms by (cases c; cases c'; cases "mesh c"; cases "mesh c'") (auto simp: duration_vars_def like_config_def like_mesh_def)

lemma load_durations_secret:
  "{''VIIWORK_MESH_SECRET'', ''VIIWORK_MESH_SECRET_PREV''} \<inter> fst ` set ds = {} \<Longrightarrow>
   load_durations (with_secrets g v w) ds c = load_durations g ds c"
  by (induction ds arbitrary: c) (auto simp: Let_def split: option.split)

text \<open>C28: No startup error carries a mesh secret. Change the secret, the previous secret or both, so that
  each is still set or still blank, still base64 or still not, and of as many bytes as before if it
  is: every startup fails with the same error or succeeds as it did. So an error tells of a secret
  whether it is set, whether it decodes and to how many bytes, and nothing else.\<close>

theorem errors_hide_secret:
  assumes "alike s s'" and "alike p p'"
  shows "load_config (with_secrets g s p) h = Inl e \<longleftrightarrow> load_config (with_secrets g s' p') h = Inl e"
proof -
  have r: "check_removed (with_secrets g v w) removed = check_removed g removed" for v w by (simp add: removed_def)
  have n: "load_name (with_secrets g v w) h = load_name g h" for v w by (simp add: load_name_def)
  have vn: "load_view_nodes (with_secrets g v w) m = load_view_nodes g m" for v w m by (simp add: load_view_nodes_def)
  have d: "load_durations (with_secrets g v w) duration_vars c = load_durations g duration_vars c" for v w c
    by (rule load_durations_secret) (simp add: duration_vars_def)
  note o = env_opt_secret [of "''VIIWORK_GW_LISTEN''", simplified] env_opt_secret [of "''VIIWORK_GW_MAX_BODY''", simplified]
    env_opt_secret [of "''VIIWORK_GW_MAX_INFLIGHT''", simplified] env_opt_secret [of "''VIIWORK_GW_RATE_PER_MIN''", simplified]
    env_opt_secret [of "''VIIWORK_GW_RATE_BURST''", simplified]
  let ?fin = "\<lambda>c. rbind (env_opt g ''VIIWORK_GW_MAX_BODY'' (max_body c) (\<lambda>v.
              case parse_size v of Inl e \<Rightarrow> Inl (BadSize e) | Inr n \<Rightarrow> Inr n)) (\<lambda>mb.
     rbind (env_opt g ''VIIWORK_GW_MAX_INFLIGHT'' (max_in_flight c)
              (env_int ''VIIWORK_GW_MAX_INFLIGHT'' (not_positive ''VIIWORK_GW_MAX_INFLIGHT''))) (\<lambda>mi.
     rbind (env_opt g ''VIIWORK_GW_RATE_PER_MIN'' (rate_per_min c) read_rate) (\<lambda>rp.
     rbind (env_opt g ''VIIWORK_GW_RATE_BURST'' (rate_burst c)
              (env_int ''VIIWORK_GW_RATE_BURST'' (not_positive ''VIIWORK_GW_RATE_BURST''))) (\<lambda>rb.
     Inr (c\<lparr>max_body := mb, max_in_flight := mi, rate_per_min := rp, rate_burst := rb\<rparr>)))))"
  have fin: "rel_sum (=) like_config (?fin c) (?fin c')" if "like_config c c'" for c c'
  proof -
    have same: "max_body c = max_body c'" "max_in_flight c = max_in_flight c'" "rate_per_min c = rate_per_min c'"
      "rate_burst c = rate_burst c'" using that by (cases c; cases c'; simp add: like_config_def)+
    have "like_config (c\<lparr>max_body := mb, max_in_flight := mi, rate_per_min := rp, rate_burst := rb\<rparr>)
        (c'\<lparr>max_body := mb, max_in_flight := mi, rate_per_min := rp, rate_burst := rb\<rparr>)" for mb mi rp rb
      using that by (cases c; cases c') (simp add: like_config_def)
    then show ?thesis unfolding same by (intro rel_rbind_same) simp
  qed
  have tl: "rel_sum (=) like_config
      (rbind (load_view_nodes g a) (\<lambda>ns. rbind (load_durations g duration_vars
        (default_config\<lparr>listen := lst, node_name := name, mesh := a, view_nodes := ns\<rparr>)) ?fin))
      (rbind (load_view_nodes g b) (\<lambda>ns. rbind (load_durations g duration_vars
        (default_config\<lparr>listen := lst, node_name := name, mesh := b, view_nodes := ns\<rparr>)) ?fin))"
    if "like_mesh a b" for a b lst name
  proof -
    have v: "load_view_nodes g a = load_view_nodes g b" by (simp add: load_view_nodes_def like_mesh_same [OF that])
    have "like_config (default_config\<lparr>listen := lst, node_name := name, mesh := a, view_nodes := ns\<rparr>)
        (default_config\<lparr>listen := lst, node_name := name, mesh := b, view_nodes := ns\<rparr>)" for ns
      using that by (simp add: like_config_def)
    then show ?thesis
      unfolding v using duration_vars_alike
      by (intro rel_rbind_same rel_rbind [OF load_durations_alike fin]) auto
  qed
  have "rel_sum (=) like_config (load_config (with_secrets g s p) h) (load_config (with_secrets g s' p') h)"
    unfolding load_config_def r n vn d o
    by (rule rel_rbind_same)+ (rule rel_rbind [OF load_mesh_alike [OF assms] tl])
  then show ?thesis by (cases "load_config (with_secrets g s p) h"; cases "load_config (with_secrets g s' p') h") auto
qed

definition good_secret :: string where
  "good_secret = b64_encode std_encoding (replicate 32 CHR ''k'')"

theorem errors_hide_secret_witness:
  "load_config (with_secrets (env_of []) good_secret ''?hunter2'') (Some ''gw'') = Inl (KeyNotBase64 ''VIIWORK_MESH_SECRET_PREV'') \<and>
   load_config (with_secrets (env_of []) good_secret ''!letmein'') (Some ''gw'') = Inl (KeyNotBase64 ''VIIWORK_MESH_SECRET_PREV'')"
proof -
  have a: "alike ''?hunter2'' ''!letmein''" by code_simp
  have g: "alike good_secret good_secret" by (simp add: alike_def)
  have p: "trim_space ''?hunter2'' = ''?hunter2''" "b64_decode std_encoding ''?hunter2'' = None"
    "trim_space ''gw'' = ''gw''" "\<not> blank_char CHR ''g''" "\<not> blank_char CHR ''w''" by code_simp+
  note b = b64_ne [of "replicate 32 CHR ''k''" std_encoding] b64_trimmed b64_roundtrip [OF std_ok]
  have "load_config (with_secrets (env_of []) good_secret ''?hunter2'') (Some ''gw'') = Inl (KeyNotBase64 ''VIIWORK_MESH_SECRET_PREV'')"
    by (simp add: load_config_def env_of_def removed_def env_opt_def load_name_def p load_mesh_def load_secret_def
        b decode_key_def good_secret_def default_config_def default_mesh_def)
  with errors_hide_secret [OF g a] show ?thesis by blast
qed

end
