(* ===== verification/JsonEncode.thy ===== *)
theory JsonEncode
  imports GoJson
begin

text \<open>
  The other direction of \<open>encoding/json\<close>: \<open>json.NewEncoder(w).Encode\<close> of the error envelope of
  internal/auth/errors.go, with the encoder's escaping of HTML, and that what is written reads back.
\<close>

section \<open>Strings\<close>

definition hex_lower :: "nat \<Rightarrow> char" where
  "hex_lower n = (if n < 10 then char_of (48 + n) else char_of (87 + n))"

definition html_safe :: "char \<Rightarrow> bool" where
  "html_safe c \<longleftrightarrow> CHR '' '' \<le> c \<and> c \<noteq> CHR 0x22 \<and> c \<noteq> CHR 0x5C \<and> c \<notin> set ''<>&''"

text \<open>One byte below 128.\<close>

definition escape_ascii :: "char \<Rightarrow> string" where
  "escape_ascii c =
     (if html_safe c then [c]
      else if c = CHR 0x5C \<or> c = CHR 0x22 then [CHR 0x5C, c]
      else if c = CHR 0x08 then [CHR 0x5C, CHR ''b'']
      else if c = CHR 0x0C then [CHR 0x5C, CHR ''f'']
      else if c = CHR 0x0A then [CHR 0x5C, CHR ''n'']
      else if c = CHR 0x0D then [CHR 0x5C, CHR ''r'']
      else if c = CHR 0x09 then [CHR 0x5C, CHR ''t'']
      else CHR 0x5C # ''u00'' @ [hex_lower (of_char c div 16), hex_lower (of_char c mod 16)])"

text \<open>A byte that starts no valid UTF-8 sequence is replaced, and U+2028 and U+2029 are escaped.\<close>

function escape_string :: "string \<Rightarrow> string" where
  "escape_string s =
     (case s of
        [] \<Rightarrow> []
      | c # t \<Rightarrow>
          if of_char c < (128 :: nat) then escape_ascii c @ escape_string t
          else if utf8_len s = 0 then CHR 0x5C # ''ufffd'' @ escape_string t
          else if take 3 s = [CHR 0xE2, CHR 0x80, CHR 0xA8] then CHR 0x5C # ''u2028'' @ escape_string (drop 3 s)
          else if take 3 s = [CHR 0xE2, CHR 0x80, CHR 0xA9] then CHR 0x5C # ''u2029'' @ escape_string (drop 3 s)
          else take (utf8_len s) s @ escape_string (drop (utf8_len s) s))"
  by pat_completeness auto

termination escape_string
  by (relation "measure length") auto

declare escape_string.simps [simp del]

text \<open>What a reader gets: the string with every invalid byte replaced by U+FFFD.\<close>

function valid_utf8 :: "string \<Rightarrow> string" where
  "valid_utf8 s =
     (case s of
        [] \<Rightarrow> []
      | c # t \<Rightarrow>
          if utf8_len s = 0 then replacement @ valid_utf8 t
          else take (utf8_len s) s @ valid_utf8 (drop (utf8_len s) s))"
  by pat_completeness auto

termination valid_utf8
  by (relation "measure length") auto

declare valid_utf8.simps [simp del]

section \<open>The envelope\<close>

definition quoted :: "string \<Rightarrow> string" where
  "quoted s = CHR 0x22 # escape_string s @ [CHR 0x22]"

definition error_json :: "string \<Rightarrow> string \<Rightarrow> string \<Rightarrow> string" where
  "error_json message ty code =
     ''{'' @ quoted ''error'' @ '':{'' @ quoted ''message'' @ '':'' @ quoted message @ '','' @
       quoted ''type'' @ '':'' @ quoted ty @ '','' @ quoted ''code'' @ '':'' @ quoted code @ ''}}'' @ [CHR 0x0A]"

section \<open>Reading it back\<close>

text \<open>A valid sequence is recognised by its own bytes.\<close>

lemma utf8_len_le: "utf8_len s \<le> length s"
  by (auto simp: utf8_len_def Let_def split: list.split)

definition seq2 :: "char \<Rightarrow> char \<Rightarrow> bool" where
  "seq2 a b \<longleftrightarrow> between 0xC2 0xDF a \<and> between 0x80 0xBF b"

definition seq3 :: "char \<Rightarrow> char \<Rightarrow> char \<Rightarrow> bool" where
  "seq3 a b c \<longleftrightarrow> between 0x80 0xBF c \<and>
     (a = CHR 0xE0 \<and> between 0xA0 0xBF b \<or> between 0xE1 0xEC a \<and> between 0x80 0xBF b \<or>
      a = CHR 0xED \<and> between 0x80 0x9F b \<or> between 0xEE 0xEF a \<and> between 0x80 0xBF b)"

definition seq4 :: "char \<Rightarrow> char \<Rightarrow> char \<Rightarrow> char \<Rightarrow> bool" where
  "seq4 a b c d \<longleftrightarrow> between 0x80 0xBF c \<and> between 0x80 0xBF d \<and>
     (a = CHR 0xF0 \<and> between 0x90 0xBF b \<or> between 0xF1 0xF3 a \<and> between 0x80 0xBF b \<or>
      a = CHR 0xF4 \<and> between 0x80 0x8F b)"

lemma utf8_len_Cons:
  "utf8_len (a # t) =
     (if between 0 0x7F a then 1
      else if 1 \<le> length t \<and> seq2 a (t ! 0) then 2
      else if 2 \<le> length t \<and> seq3 a (t ! 0) (t ! 1) then 3
      else if 3 \<le> length t \<and> seq4 a (t ! 0) (t ! 1) (t ! 2) then 4 else 0)"
  by (cases t; cases "tl t"; cases "tl (tl t)")
    (simp_all add: utf8_len_def Let_def seq2_def seq3_def seq4_def cong: if_cong)

lemma utf8_len_take:
  assumes "0 < utf8_len s"
  shows "utf8_len (take (utf8_len s) s @ r) = utf8_len s"
proof (cases s)
  case (Cons a t)
  then show ?thesis using assms
    by (cases t; cases "tl t"; cases "tl (tl t)") (auto simp: utf8_len_Cons split: if_splits)
qed (use assms in \<open>simp add: utf8_len_def\<close>)

lemma seq_high:
  "seq2 a b \<Longrightarrow> (128 :: nat) \<le> of_char b"
  "seq3 a b c \<Longrightarrow> (128 :: nat) \<le> of_char b \<and> (128 :: nat) \<le> of_char c"
  "seq4 a b c d \<Longrightarrow> (128 :: nat) \<le> of_char b \<and> (128 :: nat) \<le> of_char c \<and> (128 :: nat) \<le> of_char d"
  by (auto simp: seq2_def seq3_def seq4_def between_def)

lemma utf8_len_multi:
  assumes "\<not> of_char c < (128 :: nat)" "0 < utf8_len (c # t)"
  shows "\<forall>x \<in> set (take (utf8_len (c # t)) (c # t)). (128 :: nat) \<le> of_char x"
  using assms
  by (cases t; cases "tl t"; cases "tl (tl t)") (auto simp: utf8_len_Cons between_def dest: seq_high split: if_splits)

lemma utf8_len_ascii: "of_char c < (128 :: nat) \<Longrightarrow> utf8_len (c # t) = 1"
  by (simp add: utf8_len_def between_def)

lemma hex_lower_val:
  assumes "n < 16"
  shows "hex_digit (hex_lower n)" "hex_val (hex_lower n) = n"
proof -
  have "list_all (\<lambda>k. hex_digit (hex_lower k) \<and> hex_val (hex_lower k) = k) [0..<16]" by code_simp
  then show "hex_digit (hex_lower n)" "hex_val (hex_lower n) = n" using assms by (simp_all add: list_all_iff)
qed

lemma getu4_Cons:
  "getu4 (CHR 0x5C # CHR ''u'' # a # b # c # d # r) =
     (if hex_digit a \<and> hex_digit b \<and> hex_digit c \<and> hex_digit d
      then Some (16 * (16 * (16 * hex_val a + hex_val b) + hex_val c) + hex_val d) else None)"
  by (simp add: getu4_def numeral_eq_Suc)

lemma getu4_other: "e \<noteq> CHR ''u'' \<Longrightarrow> getu4 (CHR 0x5C # e # r) = None"
  by (simp add: getu4_def)

lemma unquote_short:
  "e \<noteq> CHR ''u'' \<Longrightarrow> unquote (CHR 0x5C # e # r) = simple_escape e # unquote r"
  by (simp add: unquote.simps [of "CHR 0x5C # e # r"] getu4_other)

lemma unquote_unit:
  assumes "getu4 (CHR 0x5C # CHR ''u'' # a # b # c # d # r) = Some u" "u < 0xD800 \<or> 0xE000 \<le> u"
  shows "unquote (CHR 0x5C # CHR ''u'' # a # b # c # d # r) = utf8_encode u @ unquote r"
  using assms by (auto simp: unquote.simps [of "CHR 0x5C # CHR ''u'' # a # b # c # d # r"])

lemma unquote_kept:
  assumes "utf8_len s = n" "0 < n" "s = c # t" "c \<noteq> CHR 0x5C"
  shows "unquote (take n s @ r) = take n s @ unquote r"
proof -
  have n: "utf8_len (take n s @ r) = n" "n \<le> length s"
    using utf8_len_take [of s r] utf8_len_le [of s] assms(1,2) by simp_all
  obtain t' where t': "take n s = c # t'" using assms(2,3) by (cases n) auto
  have "unquote (c # t' @ r) = take n (c # t' @ r) @ unquote (drop n (c # t' @ r))"
    using n(1) assms(2,4) by (subst unquote.simps) (simp add: t')
  moreover have "length (c # t') = n" using n(2) t' by (metis length_take min.absorb2)
  ultimately show ?thesis by (simp add: t' take_Cons' drop_Cons')
qed

lemma hex_zero: "hex_digit CHR ''0''" "hex_val CHR ''0'' = 0"
  by code_simp+

lemma unquote_ascii:
  assumes "of_char c < (128 :: nat)"
  shows "unquote (escape_ascii c @ r) = c # unquote r"
proof -
  have "html_safe c \<or> c = CHR 0x5C \<or> c = CHR 0x22 \<or> c \<in> {CHR 0x08, CHR 0x0C, CHR 0x0A, CHR 0x0D, CHR 0x09} \<or>
      escape_ascii c = CHR 0x5C # ''u00'' @ [hex_lower (of_char c div 16), hex_lower (of_char c mod 16)]"
    by (simp add: escape_ascii_def)
  then consider (safe) "html_safe c" | (quote) "c = CHR 0x5C \<or> c = CHR 0x22"
    | (short) "c \<in> {CHR 0x08, CHR 0x0C, CHR 0x0A, CHR 0x0D, CHR 0x09}"
    | (unit) "escape_ascii c = CHR 0x5C # ''u00'' @ [hex_lower (of_char c div 16), hex_lower (of_char c mod 16)]"
    by blast
  then show ?thesis
  proof cases
    case safe
    then have "c \<noteq> CHR 0x5C" by (simp add: html_safe_def)
    with unquote_kept [of "[c]" 1 c "[]" r] utf8_len_ascii [OF assms, of "[]"] safe
    show ?thesis by (simp add: escape_ascii_def)
  next
    case quote
    then show ?thesis by (auto simp: escape_ascii_def html_safe_def unquote_short simple_escape_def)
  next
    case short
    then show ?thesis
      by (elim insertE emptyE; simp add: escape_ascii_def html_safe_def unquote_short simple_escape_def less_eq_char_def)
  next
    case unit
    let ?n = "of_char c :: nat"
    have "?n div 16 < 16" "?n mod 16 < 16" using assms by auto
    note h = hex_lower_val [OF this(1)] hex_lower_val [OF this(2)]
    have "getu4 (escape_ascii c @ r) = Some ?n" unfolding unit by (simp add: getu4_Cons h hex_zero)
    with unquote_unit [of "CHR ''0''" "CHR ''0''" "hex_lower (?n div 16)" "hex_lower (?n mod 16)" r ?n] assms
    show ?thesis unfolding unit by (simp add: utf8_encode_def)
  qed
qed

lemma valid_utf8_Cons:
  "valid_utf8 (c # t) =
     (if utf8_len (c # t) = 0 then replacement @ valid_utf8 t
      else take (utf8_len (c # t)) (c # t) @ valid_utf8 (drop (utf8_len (c # t)) (c # t)))"
  by (subst valid_utf8.simps) simp

lemma utf8_len_separator: "utf8_len (CHR 0xE2 # CHR 0x80 # CHR 0xA8 # t) = 3" "utf8_len (CHR 0xE2 # CHR 0x80 # CHR 0xA9 # t) = 3"
  by (simp_all add: utf8_len_def between_def)

lemma take3D:
  "take 3 s = [a, b, c] \<Longrightarrow> s = a # b # c # drop 3 s"
  by (metis append_Cons append_Nil append_take_drop_id)

lemma unquote_escape: "unquote (escape_string s) = valid_utf8 s"
proof (induction s rule: escape_string.induct)
  case (1 s)
  show ?case
  proof (cases s)
    case Nil
    then show ?thesis by (simp add: escape_string.simps unquote.simps valid_utf8.simps)
  next
    case (Cons c t)
    note IH = 1 [OF Cons]
    show ?thesis
    proof (cases "of_char c < (128 :: nat)")
      case True
      with IH(1) Cons show ?thesis
        by (simp add: escape_string.simps [of "c # t"] unquote_ascii valid_utf8_Cons utf8_len_ascii)
    next
      case multi: False
      have e: "escape_string (c # t) =
          (if utf8_len (c # t) = 0 then CHR 0x5C # ''ufffd'' @ escape_string t
           else if take 3 (c # t) = [CHR 0xE2, CHR 0x80, CHR 0xA8] then CHR 0x5C # ''u2028'' @ escape_string (drop 3 (c # t))
           else if take 3 (c # t) = [CHR 0xE2, CHR 0x80, CHR 0xA9] then CHR 0x5C # ''u2029'' @ escape_string (drop 3 (c # t))
           else take (utf8_len (c # t)) (c # t) @ escape_string (drop (utf8_len (c # t)) (c # t)))"
        using multi by (simp add: escape_string.simps [of "c # t"])
      have units: "getu4 (CHR 0x5C # ''ufffd'' @ r) = Some 0xFFFD" "getu4 (CHR 0x5C # ''u2028'' @ r) = Some 0x2028"
        "getu4 (CHR 0x5C # ''u2029'' @ r) = Some 0x2029" for r
        by (simp_all add: getu4_Cons hex_digit_def digit09_def hex_val_def less_eq_char_def)
      have unq: "unquote (CHR 0x5C # ''ufffd'' @ r) = replacement @ unquote r"
        "unquote (CHR 0x5C # ''u2028'' @ r) = [CHR 0xE2, CHR 0x80, CHR 0xA8] @ unquote r"
        "unquote (CHR 0x5C # ''u2029'' @ r) = [CHR 0xE2, CHR 0x80, CHR 0xA9] @ unquote r" for r
        using units [of r] by (simp_all add: unquote_unit utf8_encode_def replacement_def char_of_eq_iff)
      consider (bad) "utf8_len (c # t) = 0" | (ls) "utf8_len (c # t) \<noteq> 0" "take 3 (c # t) = [CHR 0xE2, CHR 0x80, CHR 0xA8]"
        | (ps) "utf8_len (c # t) \<noteq> 0" "take 3 (c # t) = [CHR 0xE2, CHR 0x80, CHR 0xA9]"
        | (kept) "utf8_len (c # t) \<noteq> 0" "take 3 (c # t) \<noteq> [CHR 0xE2, CHR 0x80, CHR 0xA8]"
            "take 3 (c # t) \<noteq> [CHR 0xE2, CHR 0x80, CHR 0xA9]" by blast
      then show ?thesis
      proof cases
        case bad
        with IH(2) multi Cons show ?thesis using unq(1) by (simp add: e valid_utf8_Cons)
      next
        case ls
        have "utf8_len (c # t) = 3" by (subst take3D [OF ls(2)]) (rule utf8_len_separator)
        moreover have "escape_string (c # t) = CHR 0x5C # ''u2028'' @ escape_string (drop 3 (c # t))" using e ls by simp
        moreover have "unquote (escape_string (drop 3 (c # t))) = valid_utf8 (drop 3 (c # t))"
          using IH(3) ls multi Cons by simp
        ultimately show ?thesis using ls(2) unfolding Cons valid_utf8_Cons by (simp only: unq ls(1)) simp
      next
        case ps
        have "utf8_len (c # t) = 3" by (subst take3D [OF ps(2)]) (rule utf8_len_separator)
        moreover have "escape_string (c # t) = CHR 0x5C # ''u2029'' @ escape_string (drop 3 (c # t))" using e ps by simp
        moreover have "unquote (escape_string (drop 3 (c # t))) = valid_utf8 (drop 3 (c # t))"
          using IH(4) ps multi Cons by simp
        ultimately show ?thesis using ps(2) unfolding Cons valid_utf8_Cons by (simp only: unq ps(1)) simp
      next
        case kept
        have "c \<noteq> CHR 0x5C" using multi by auto
        from unquote_kept [OF refl _ refl this] kept(1)
        have "unquote (take (utf8_len (c # t)) (c # t) @ r) = take (utf8_len (c # t)) (c # t) @ unquote r" for r by simp
        then have "unquote (escape_string (c # t)) =
            take (utf8_len (c # t)) (c # t) @ unquote (escape_string (drop (utf8_len (c # t)) (c # t)))"
          by (simp only: e kept if_False)
        with kept IH(5) multi Cons show ?thesis by (simp add: valid_utf8_Cons)
      qed
    qed
  qed
qed

text \<open>What the scanner takes as part of a string it is in.\<close>

definition inert :: "string \<Rightarrow> bool" where
  "inert s \<longleftrightarrow> (\<forall>acc r. scan_all (InStr acc) (s @ r) = scan_all (InStr (rev s @ acc)) r)"

lemma inert_Nil: "inert []"
  by (simp add: inert_def)

lemma inert_append: "inert s \<Longrightarrow> inert t \<Longrightarrow> inert (s @ t)"
  by (simp add: inert_def)

lemma map_option_Nil: "map_option (\<lambda>r. [] @ r) x = x" "map_option (\<lambda>r. r) x = x"
  by (simp_all add: option.map_ident)

lemma inert_char: "CHR '' '' \<le> c \<Longrightarrow> c \<noteq> CHR 0x22 \<Longrightarrow> c \<noteq> CHR 0x5C \<Longrightarrow> inert [c]"
  by (auto simp: inert_def map_option_Nil not_less [symmetric])

lemma inert_high: "\<forall>x \<in> set s. (128 :: nat) \<le> of_char x \<Longrightarrow> inert s"
proof (induction s)
  case (Cons c s)
  then have "inert [c]" by (intro inert_char) (auto simp: less_eq_char_def)
  with Cons inert_append [of "[c]" s] show ?case by simp
qed (rule inert_Nil)

lemma inert_short:
  "e \<in> set ''bfnrt'' \<or> e = CHR 0x5C \<or> e = CHR 0x22 \<Longrightarrow> inert [CHR 0x5C, e]"
  by (auto simp: inert_def map_option_Nil)

lemma inert_unit:
  "hex_digit a \<Longrightarrow> hex_digit b \<Longrightarrow> hex_digit c \<Longrightarrow> hex_digit d \<Longrightarrow> inert [CHR 0x5C, CHR ''u'', a, b, c, d]"
  by (simp add: inert_def map_option_Nil)

lemma inert_ascii: "of_char c < (128 :: nat) \<Longrightarrow> inert (escape_ascii c)"
proof -
  assume c: "of_char c < (128 :: nat)"
  then have "(of_char c :: nat) div 16 < 16" "(of_char c :: nat) mod 16 < 16" by auto
  note h = hex_lower_val(1) [OF this(1)] hex_lower_val(1) [OF this(2)]
  show ?thesis
    using inert_char [of c] inert_short inert_unit [OF hex_zero(1) hex_zero(1) h]
    by (auto simp: escape_ascii_def html_safe_def)
qed

lemma inert_escape: "inert (escape_string s)"
proof (induction s rule: escape_string.induct)
  case (1 s)
  have u: "inert x \<Longrightarrow> inert (CHR 0x5C # ''ufffd'' @ x)" "inert x \<Longrightarrow> inert (CHR 0x5C # ''u2028'' @ x)"
    "inert x \<Longrightarrow> inert (CHR 0x5C # ''u2029'' @ x)" for x
  proof -
    have "inert (CHR 0x5C # ''ufffd'')" "inert (CHR 0x5C # ''u2028'')" "inert (CHR 0x5C # ''u2029'')"
      by (rule inert_unit; code_simp)+
    from this [THEN inert_append, of x]
    show "inert x \<Longrightarrow> inert (CHR 0x5C # ''ufffd'' @ x)" "inert x \<Longrightarrow> inert (CHR 0x5C # ''u2028'' @ x)"
      "inert x \<Longrightarrow> inert (CHR 0x5C # ''u2029'' @ x)" by simp_all
  qed
  show ?case
  proof (cases s)
    case Nil
    then show ?thesis by (simp add: escape_string.simps inert_Nil)
  next
    case (Cons c t)
    have "inert (take (utf8_len s) s)" if "\<not> of_char c < (128 :: nat)" "utf8_len s \<noteq> 0"
      using utf8_len_multi [OF that(1), of t] that(2) Cons by (intro inert_high) simp
    then show ?thesis
      using 1 [OF Cons] Cons inert_append [OF inert_ascii] inert_append u
      by (subst escape_string.simps) simp
  qed
qed

lemma scan_quoted:
  "scan_all Between (quoted s @ r) = map_option (\<lambda>ts. JStr (escape_string s) # ts) (scan_all Between r)"
  using inert_escape [of s]
  by (cases "scan_all Between r") (simp_all add: quoted_def scan_begin_def json_space_def inert_def map_option_Nil)

section \<open>The envelope reads back\<close>

definition error_tokens :: "string \<Rightarrow> string \<Rightarrow> string \<Rightarrow> jtok list" where
  "error_tokens message ty code =
     [JBeginObject, JStr ''error'', JColon, JBeginObject,
      JStr ''message'', JColon, JStr message, JComma, JStr ''type'', JColon, JStr ty, JComma,
      JStr ''code'', JColon, JStr code, JEndObject, JEndObject]"

fun read_token :: "jtok \<Rightarrow> jtok" where
  "read_token (JStr raw) = JStr (unquote raw)"
| "read_token tk = tk"

lemma scan_punct:
  "scan_all Between (CHR ''{'' # r) = map_option (\<lambda>ts. JBeginObject # ts) (scan_all Between r)"
  "scan_all Between (CHR ''}'' # r) = map_option (\<lambda>ts. JEndObject # ts) (scan_all Between r)"
  "scan_all Between (CHR '':'' # r) = map_option (\<lambda>ts. JColon # ts) (scan_all Between r)"
  "scan_all Between (CHR '','' # r) = map_option (\<lambda>ts. JComma # ts) (scan_all Between r)"
  by (cases "scan_all Between r"; simp add: scan_begin_def json_space_def)+

lemma scan_error_json:
  "scan_all Between (error_json m t c) =
     Some (error_tokens (escape_string m) (escape_string t) (escape_string c))"
proof -
  have k: "escape_string ''error'' = ''error''" "escape_string ''message'' = ''message''"
    "escape_string ''type'' = ''type''" "escape_string ''code'' = ''code''" by code_simp+
  have e: "scan_all Between [CHR 0x0A] = Some []" by code_simp
  show ?thesis
    by (simp only: error_json_def append_Cons append_Nil scan_punct scan_quoted k e error_tokens_def option.map)
qed

text \<open>C27: Whatever an error message contains, its body is one JSON document that reads back as that
  message. The scanner of \<open>encoding/json\<close> cuts the bytes \<open>WriteError\<close> writes into the envelope's tokens,
  and unquoting the three strings gives what was put in, bytes that are no valid UTF-8 replaced by
  U+FFFD.\<close>

theorem error_json_roundtrip:
  "map_option (map read_token) (scan_all Between (error_json message ty code)) =
     Some (error_tokens (valid_utf8 message) (valid_utf8 ty) (valid_utf8 code))"
proof -
  have k: "unquote ''error'' = ''error''" "unquote ''message'' = ''message''"
    "unquote ''type'' = ''type''" "unquote ''code'' = ''code''" by (rule unquote_plain, code_simp)+
  show ?thesis unfolding scan_error_json by (simp add: error_tokens_def unquote_escape k)
qed

section \<open>Nothing a browser could read as markup\<close>

definition harmless :: "string \<Rightarrow> bool" where
  "harmless s \<longleftrightarrow> (\<forall>c \<in> set s. CHR '' '' \<le> c \<and> c \<notin> set ''<>&'')"

lemma harmless_append: "harmless (s @ t) \<longleftrightarrow> harmless s \<and> harmless t"
  by (auto simp: harmless_def)

lemma harmless_high: "\<forall>x \<in> set s. (128 :: nat) \<le> of_char x \<Longrightarrow> harmless s"
  by (fastforce simp: harmless_def less_eq_char_def)

lemma harmless_hex: "n < 16 \<Longrightarrow> harmless [hex_lower n]"
  using hex_lower_val(1) [of n]
  by (auto simp: harmless_def hex_digit_def digit09_def less_eq_char_def)

lemma harmless_ascii:
  assumes "of_char c < (128 :: nat)"
  shows "harmless (escape_ascii c)"
proof -
  have "(of_char c :: nat) div 16 < 16" "(of_char c :: nat) mod 16 < 16" using assms by auto
  note h = harmless_hex [OF this(1)] harmless_hex [OF this(2)]
  have u: "harmless (CHR 0x5C # ''u00'')" by code_simp
  have "harmless (CHR 0x5C # ''u00'' @ [hex_lower (of_char c div 16), hex_lower (of_char c mod 16)])"
    using h u by (simp add: harmless_def)
  then show ?thesis by (auto simp: escape_ascii_def html_safe_def harmless_def)
qed

lemma harmless_escape: "harmless (escape_string s)"
proof (induction s rule: escape_string.induct)
  case (1 s)
  have u: "harmless (CHR 0x5C # ''ufffd'' @ x) = harmless x" "harmless (CHR 0x5C # ''u2028'' @ x) = harmless x"
    "harmless (CHR 0x5C # ''u2029'' @ x) = harmless x" for x
    by (simp_all add: harmless_def)
  show ?case
  proof (cases s)
    case Nil
    then show ?thesis by (simp add: escape_string.simps harmless_def)
  next
    case (Cons c t)
    have "harmless (take (utf8_len s) s)" if "\<not> of_char c < (128 :: nat)" "utf8_len s \<noteq> 0"
      using utf8_len_multi [OF that(1), of t] that(2) Cons by (intro harmless_high) simp
    then show ?thesis
      using 1 [OF Cons] Cons u by (subst escape_string.simps) (simp add: harmless_append harmless_ascii)
  qed
qed

text \<open>An error body carries no markup and is one line. Whatever a message quotes, no byte of the
  body is one of the three that HTML reads as markup, and none is a control character but the newline at the end.\<close>

theorem error_json_harmless:
  "\<exists>line. error_json message ty code = line @ [CHR 0x0A] \<and> (\<forall>c \<in> set line. CHR '' '' \<le> c \<and> c \<notin> set ''<>&'')"
proof -
  have q: "harmless (quoted s)" for s
    using harmless_escape [of s] by (simp add: harmless_def quoted_def)
  have p: "harmless ''{''" "harmless '':{''" "harmless '':''" "harmless '',''" "harmless ''}}''" by code_simp+
  have "harmless (butlast (error_json message ty code))"
    by (simp only: error_json_def append_assoc [symmetric] butlast_snoc harmless_append q p simp_thms)
  moreover have "error_json message ty code = butlast (error_json message ty code) @ [CHR 0x0A]"
    by (simp only: error_json_def append_assoc [symmetric] butlast_snoc)
  ultimately show ?thesis unfolding harmless_def by blast
qed

end
