(* ===== verification/AccessLog.thy ===== *)
theory AccessLog
  imports Router JsonEncode
begin

text \<open>
  internal/accesslog/accesslog.go: one line per request. The recorder stands between the handler
  and the connection's writer; a handler's effect on it is the sequence of calls it makes.
\<close>

section \<open>The recorder\<close>

text \<open>A call on a writer; for \<open>Write\<close> also how many of the bytes the writer below took.\<close>

datatype call =
    WriteHeader int
  | Write string nat
  | Flush

text \<open>The wrapped writer is what it has been called with, and whether it can flush.\<close>

record recorder =
  rec_status :: int
  rec_bytes :: int
  below :: "call list"
  flusher :: bool

definition new_recorder :: "bool \<Rightarrow> recorder" where
  "new_recorder can_flush = \<lparr>rec_status = 0, rec_bytes = 0, below = [], flusher = can_flush\<rparr>"

fun rec_call :: "call \<Rightarrow> recorder \<Rightarrow> recorder" where
  "rec_call (WriteHeader code) rec =
     rec\<lparr>rec_status := (if rec_status rec = 0 then code else rec_status rec), below := below rec @ [WriteHeader code]\<rparr>"
| "rec_call (Write b n) rec =
     rec\<lparr>rec_status := (if rec_status rec = 0 then status_ok else rec_status rec),
         rec_bytes := wrap64 (rec_bytes rec + int n), below := below rec @ [Write b n]\<rparr>"
| "rec_call Flush rec = (if flusher rec then rec\<lparr>below := below rec @ [Flush]\<rparr> else rec)"

section \<open>The line\<close>

record access_line =
  al_method :: string
  al_path :: string
  al_status :: int
  al_bytes :: int
  al_duration_ms :: int
  al_remote :: string
  al_key :: "string option"
  al_model :: "string option"
  al_node :: "string option"
  al_aborted :: bool

definition unless_empty :: "string \<Rightarrow> string option" where
  "unless_empty s = (if s = [] then None else Some s)"

definition log_request :: "request \<Rightarrow> recorder \<Rightarrow> side \<Rightarrow> time \<Rightarrow> time \<Rightarrow> bool \<Rightarrow> access_line" where
  "log_request r rec info start now aborted =
     \<lparr>al_method = req_method r, al_path = path (req_url r),
      al_status = (if rec_status rec = 0 then status_ok else rec_status rec),
      al_bytes = rec_bytes rec,
      al_duration_ms = quot (time_sub now start) 1000000,
      al_remote = client_ip r,
      al_key = unless_empty (label_from_context r),
      al_model = unless_empty (info_model info),
      al_node = unless_empty (info_node info),
      al_aborted = aborted\<rparr>"

section \<open>Wrap\<close>

text \<open>
  The calls that write a reply: the informational headers, then the final header and the body.
  A node's body may take any number of writes, each
  flushed; \<open>chunks\<close> cuts it. A switched connection is taken over below the recorder, through
  \<open>Unwrap\<close>: none of its bytes pass it.
\<close>

definition body_text :: "body \<Rightarrow> string" where
  "body_text b =
     (case b of NodeBytes s \<Rightarrow> s | Page s \<Rightarrow> s | EmptyBody \<Rightarrow> [] | ErrorBody message ty code \<Rightarrow> error_json message ty code)"

definition response_calls :: "(string \<Rightarrow> string list) \<Rightarrow> response \<Rightarrow> call list" where
  "response_calls chunks res =
     WriteHeader (status res) #
     (case r_body res of
        NodeBytes s \<Rightarrow> concat (map (\<lambda>c. [Write c (length c), Flush]) (chunks s))
      | b \<Rightarrow> map (\<lambda>c. Write c (length c)) (chunks (body_text b)))"

definition reply_calls :: "(string \<Rightarrow> string list) \<Rightarrow> reply \<Rightarrow> call list" where
  "reply_calls chunks rp =
     (case rp of
        Reply im res \<Rightarrow> map (WriteHeader \<circ> fst) im @ response_calls chunks res
      | Aborted im res \<Rightarrow> map (WriteHeader \<circ> fst) im @ response_calls chunks res
      | Silent im \<Rightarrow> map (WriteHeader \<circ> fst) im
      | Upgraded im res \<Rightarrow> map (WriteHeader \<circ> fst) im)"

definition aborts :: "reply \<Rightarrow> bool" where
  "aborts rp \<longleftrightarrow> (case rp of Aborted _ _ \<Rightarrow> True | _ \<Rightarrow> False)"

definition no_info :: side where
  "no_info = \<lparr>info_model = [], info_node = [], deadlines = []\<rparr>"

text \<open>
  \<open>Wrap\<close>: the holder goes into the context before the handler runs, and the line is written from
  a defer, on a return and on the panic of an aborted stream alike. What the connection gets is what
  reached the writer below.
\<close>

definition log_wrap ::
    "(string \<Rightarrow> string list) \<Rightarrow> time \<Rightarrow> time \<Rightarrow>
     (request \<Rightarrow> side \<Rightarrow> 's \<Rightarrow> reply \<times> side \<times> 's) \<Rightarrow> request \<Rightarrow> 's \<Rightarrow> reply \<times> access_line \<times> 's" where
  "log_wrap chunks start now handler r st =
     (let r = context_with_request_info r
      in case handler r no_info st of
           (rp, info, st) \<Rightarrow>
             (rp, log_request r (fold rec_call (reply_calls chunks rp) (new_recorder True)) info start now (aborts rp), st))"

section \<open>What is recorded\<close>

text \<open>The recorder takes nothing away: the writer below sees the calls in order.\<close>

lemma recorder_transparent:
  "below (fold rec_call cs rec) = below rec @ (if flusher rec then cs else filter (\<lambda>c. c \<noteq> Flush) cs)"
proof (induction cs arbitrary: rec)
  case (Cons c cs)
  have "flusher (rec_call c rec) = flusher rec" by (cases c) simp_all
  with Cons show ?case by (cases c) auto
qed simp

text \<open>The first status stays, and the sizes add up.\<close>

lemma status_stays: "rec_status rec \<noteq> 0 \<Longrightarrow> rec_status (fold rec_call cs rec) = rec_status rec"
proof (induction cs arbitrary: rec)
  case (Cons c cs)
  then show ?case by (cases c) simp_all
qed simp

fun call_bytes :: "call \<Rightarrow> int" where
  "call_bytes (Write b n) = int n"
| "call_bytes _ = 0"

lemma wrap64_add: "wrap64 (wrap64 a + b) = wrap64 (a + b)"
  by (simp add: wrap64_sint)

lemma fold_bytes:
  assumes "in_int64 (rec_bytes rec)"
  shows "rec_bytes (fold rec_call cs rec) = wrap64 (rec_bytes rec + sum_list (map call_bytes cs))"
  using assms
proof (induction cs arbitrary: rec)
  case Nil
  then show ?case by (simp add: wrap64_id)
next
  case (Cons c cs)
  then show ?case by (cases c) (simp_all add: wrap64_range wrap64_add add.assoc)
qed

lemma response_call_bytes:
  assumes "concat (chunks (body_text (r_body res))) = body_text (r_body res)"
  shows "sum_list (map call_bytes (response_calls chunks res)) = int (length (body_text (r_body res)))"
proof -
  have "sum_list (map call_bytes (concat (map (\<lambda>c. [Write c (length c), Flush]) cs))) = int (length (concat cs))"
    "sum_list (map call_bytes (map (\<lambda>c. Write c (length c)) cs)) = int (length (concat cs))" for cs
    by (induction cs) simp_all
  with assms show ?thesis by (cases "r_body res") (simp_all add: response_calls_def body_text_def)
qed

lemma interim_bytes: "sum_list (map call_bytes (map (WriteHeader \<circ> fst) im)) = 0"
  by (induction im) simp_all

text \<open>
  What a handler has written of its answer through the recorder: the header statuses in order, and
  how many bytes of body. Nothing of a connection that was taken over passes here.
\<close>

definition headers_written :: "reply \<Rightarrow> int list" where
  "headers_written rp =
     (case rp of
        Reply im res \<Rightarrow> map fst im @ [status res]
      | Aborted im res \<Rightarrow> map fst im @ [status res]
      | Silent im \<Rightarrow> map fst im
      | Upgraded im res \<Rightarrow> map fst im)"

definition bytes_written :: "reply \<Rightarrow> nat" where
  "bytes_written rp =
     (case rp of
        Reply im res \<Rightarrow> length (body_text (r_body res))
      | Aborted im res \<Rightarrow> length (body_text (r_body res))
      | _ \<Rightarrow> 0)"

text \<open>The status of a call, zero for none.\<close>

fun call_status :: "call \<Rightarrow> int" where
  "call_status (WriteHeader code) = code"
| "call_status (Write b n) = status_ok"
| "call_status Flush = 0"

definition first_status :: "int list \<Rightarrow> int \<Rightarrow> int" where
  "first_status ss d = hd (filter (\<lambda>s. s \<noteq> 0) ss @ [d])"

lemma first_status_simps [simp]:
  "first_status [] d = d" "first_status (s # ss) d = (if s = 0 then first_status ss d else s)"
  by (simp_all add: first_status_def)

lemma fold_status:
  "rec_status rec = 0 \<Longrightarrow> rec_status (fold rec_call cs rec) = first_status (map call_status cs) 0"
proof (induction cs arbitrary: rec)
  case (Cons c cs)
  then show ?case
    by (cases c) (simp_all add: status_stays status_ok_def)
qed simp

lemma first_status_ok:
  assumes "\<forall>w \<in> set ws. w = 0 \<or> w = status_ok"
  shows "(if first_status (ss @ ws) 0 = 0 then status_ok else first_status (ss @ ws) 0) = first_status ss status_ok"
proof (induction ss)
  case Nil
  show ?case using assms by (induction ws) (auto simp: status_ok_def)
qed auto

lemma reply_calls_status:
  "\<exists>ws. map call_status (reply_calls chunks rp) = headers_written rp @ ws \<and> (\<forall>w \<in> set ws. w = 0 \<or> w = status_ok)"
proof -
  have r: "\<exists>ws. map call_status (response_calls chunks res) = status res # ws \<and> (\<forall>w \<in> set ws. w = 0 \<or> w = status_ok)" for res
    by (cases "r_body res") (auto simp: response_calls_def)
  have i: "call_status \<circ> (WriteHeader \<circ> fst) = fst" by (rule ext) simp
  show ?thesis
    using r by (cases rp) (auto simp: reply_calls_def headers_written_def i)
qed

text \<open>So the line has the first status that was written, and the size of the body written.\<close>

lemma recorded_status:
  "al_status (log_request r (fold rec_call (reply_calls chunks rp) (new_recorder flushes)) info start now ab) =
   first_status (headers_written rp) status_ok"
proof -
  obtain ws where w: "map call_status (reply_calls chunks rp) = headers_written rp @ ws"
    "\<forall>w \<in> set ws. w = 0 \<or> w = status_ok" using reply_calls_status by blast
  have "rec_status (fold rec_call (reply_calls chunks rp) (new_recorder flushes)) = first_status (headers_written rp @ ws) 0"
    using fold_status [of "new_recorder flushes" "reply_calls chunks rp"] w(1) by (simp add: new_recorder_def)
  then show ?thesis
    by (simp only: log_request_def access_line.select_convs first_status_ok [OF w(2)])
qed

lemma recorded_bytes:
  assumes "\<forall>s. concat (chunks s) = s"
  shows "al_bytes (log_request r (fold rec_call (reply_calls chunks rp) (new_recorder flushes)) info start now ab) =
     wrap64 (int (bytes_written rp))"
proof -
  have "sum_list (map call_bytes (reply_calls chunks rp)) = int (bytes_written rp)"
    using assms by (cases rp) (simp_all add: reply_calls_def bytes_written_def response_call_bytes interim_bytes del: map_map)
  then show ?thesis
    by (simp add: log_request_def fold_bytes new_recorder_def in_int64_def min_int64_def max_int64_def)
qed

end
