(* ===== verification/Fleet.thy ===== *)
theory Fleet
  imports Config Picker NetAddr
begin

text \<open>
  internal/fleet/fleet.go: joining the mesh and leaving it. The mesh library is third-party: what
  \<open>mesh.Start\<close>, \<open>Leave\<close> and \<open>Shutdown\<close> return are arguments. \<open>Pick\<close> and \<open>View\<close>
  delegate to the picker of theory Picker; \<open>Mode\<close>, \<open>Name\<close>, \<open>Advertise\<close>, \<open>NumAlive\<close> and
  \<open>Fatal\<close> delegate to the mesh.
\<close>

section \<open>Options\<close>

record mesh_options =
  mo_name :: string
  mo_network :: string
  mo_bind_port :: int
  mo_advertise :: "ip_addr option"
  mo_api_port :: int
  mo_role :: string
  mo_version :: string
  mo_secret_key :: "string option"
  mo_previous_key :: "string option"
  mo_enforce :: string
  mo_mdns :: bool
  mo_seeds :: "string list"
  mo_rejoin_interval :: duration
  mo_payload :: "string option"
  mo_local_api_socket :: string
  mo_tailnet_socket :: string

definition mesh_options_of :: "viiwork \<Rightarrow> config \<Rightarrow> string \<Rightarrow> int \<Rightarrow> mesh_options" where
  "mesh_options_of V cfg version api_port =
     (let m = mesh cfg
      in \<lparr>mo_name = node_name cfg, mo_network = network m, mo_bind_port = bind_port m,
          mo_advertise = advertise m, mo_api_port = api_port, mo_role = role_gateway V,
          mo_version = version, mo_secret_key = secret_key m, mo_previous_key = previous_key m,
          mo_enforce = enforce m, mo_mdns = mdns m, mo_seeds = mesh_seeds m,
          mo_rejoin_interval = rejoin_interval m, mo_payload = None,
          mo_local_api_socket = tailnet_socket m,
          mo_tailnet_socket = (if tailnet m then tailnet_socket m else [])\<rparr>)"

datatype listen_error = NotHostPort string | NotAPort string string

definition port_of :: "string \<Rightarrow> (listen_error, int) result" where
  "port_of lst =
     (case split_host_port lst of
        None \<Rightarrow> Inl (NotHostPort lst)
      | Some (_, p) \<Rightarrow>
          (case atoi p of
             None \<Rightarrow> Inl (NotAPort lst p)
           | Some n \<Rightarrow> if n < 1 \<or> 65535 < n then Inl (NotAPort lst p) else Inr n))"

section \<open>Start\<close>

record poller_config =
  pc_self :: string
  pc_interval :: duration

record 'm fleet =
  fl_mesh :: 'm
  fl_poller :: poller_config
  fl_picker :: picker

datatype 'e start_error = BadListen listen_error | MeshStart 'e

text \<open>\<open>tune\<close> is the \<open>MeshTune\<close> seam, applied last; production leaves it out.\<close>

definition fleet_start ::
    "viiwork \<Rightarrow> (mesh_options \<Rightarrow> ('e, 'm) result) \<Rightarrow> (mesh_options \<Rightarrow> mesh_options) option \<Rightarrow>
     config \<Rightarrow> string \<Rightarrow> ('e start_error, 'm fleet) result" where
  "fleet_start V mesh_start tune cfg version =
     (case port_of (listen cfg) of
        Inl e \<Rightarrow> Inl (BadListen e)
      | Inr port \<Rightarrow>
          (let mo = mesh_options_of V cfg version port;
               mo = (case tune of None \<Rightarrow> mo | Some f \<Rightarrow> f mo)
           in case mesh_start mo of
                Inl e \<Rightarrow> Inl (MeshStart e)
              | Inr m \<Rightarrow>
                  Inr \<lparr>fl_mesh = m,
                       fl_poller = \<lparr>pc_self = node_name cfg, pc_interval = capacity_poll (mesh cfg)\<rparr>,
                       fl_picker = new_picker (mesh_stale_after (mesh cfg)) (config.view_nodes cfg)\<rparr>))"

text \<open>
  \<open>OnChange\<close>, one call: an event that comes before the poller exists is logged and not forwarded.
\<close>

datatype event_kind = EventJoin | EventUpdate | EventLeave | EventFail | EventOther

definition event_word :: "event_kind \<Rightarrow> string" where
  "event_word k =
     (case k of EventJoin \<Rightarrow> ''joined'' | EventUpdate \<Rightarrow> ''updated'' | EventLeave \<Rightarrow> ''left''
              | EventFail \<Rightarrow> ''failed'' | EventOther \<Rightarrow> ''changed'')"

record event_sink =
  poller_ready :: bool
  handed_over :: "(string \<times> event_kind) list"
  event_log :: "string list"

definition on_change :: "string \<times> event_kind \<Rightarrow> event_sink \<Rightarrow> event_sink" where
  "on_change ev s =
     s\<lparr>handed_over := (if poller_ready s then handed_over s @ [ev] else handed_over s),
       event_log := event_log s @ [''member '' @ fst ev @ '' '' @ event_word (snd ev)]\<rparr>"

text \<open>Every event is logged, and the poller gets those that came once it existed, in their order.\<close>

lemma events_once:
  "event_log (fold on_change evs s) = event_log s @ map (\<lambda>ev. ''member '' @ fst ev @ '' '' @ event_word (snd ev)) evs \<and>
   handed_over (fold on_change evs s) = handed_over s @ (if poller_ready s then evs else []) \<and>
   poller_ready (fold on_change evs s) = poller_ready s"
  by (induction evs arbitrary: s) (simp_all add: on_change_def)

section \<open>Close\<close>

text \<open>What the process does to the world, in order.\<close>

datatype action =
    JoinMesh mesh_options
  | Listen string
  | Serve
  | DrainHttp duration
  | LeaveMesh duration
  | StopPoller
  | AwaitPoller
  | ShutdownMesh

datatype 'e close_error = LeaveFailed 'e | ShutdownFailed 'e

record 'e life =
  closed :: bool
  close_err :: "'e close_error option"
  actions :: "action list"

definition first_error :: "'e option \<Rightarrow> 'e option \<Rightarrow> 'e close_error option" where
  "first_error leave shutdown =
     (case leave of
        Some e \<Rightarrow> Some (LeaveFailed e)
      | None \<Rightarrow> map_option ShutdownFailed shutdown)"

text \<open>\<open>leave\<close> and \<open>shutdown\<close> are the errors the mesh returns.\<close>

definition fleet_close :: "duration \<Rightarrow> 'e option \<Rightarrow> 'e option \<Rightarrow> 'e life \<Rightarrow> 'e close_error option \<times> 'e life" where
  "fleet_close leave_timeout leave shutdown l =
     (let l = (if closed l then l
               else l\<lparr>closed := True, close_err := first_error leave shutdown,
                      actions := actions l @ [LeaveMesh leave_timeout, StopPoller, AwaitPoller, ShutdownMesh]\<rparr>)
      in (close_err l, l))"

lemma close_twice:
  "fleet_close t2 lv2 sd2 (snd (fleet_close t lv sd l)) = (fst (fleet_close t lv sd l), snd (fleet_close t lv sd l))"
  by (simp add: fleet_close_def Let_def)

end
