(* ===== verification/Gateway.thy ===== *)
theory Gateway
  imports AccessLog Fleet
begin

text \<open>
  cmd/viiwork-gateway/main.go: the request pipeline of \<open>buildHandler\<close>, authentication around the
  access log around the router, and the life of the process.
\<close>

section \<open>buildHandler\<close>

record gateway =
  gw_auth :: middleware
  gw_router :: router

definition build_handler :: "key_set \<Rightarrow> config \<Rightarrow> gateway \<times> limiter" where
  "build_handler ks cfg =
     (\<lparr>gw_auth = \<lparr>mw_keys = ks, mw_ttl = cookie_ttl cfg\<rparr>,
       gw_router = new_router (max_body cfg) (max_in_flight cfg) (body_read_timeout cfg)\<rparr>,
      new_limiter (rate_per_min cfg) (rate_burst cfg))"

text \<open>The shared state a fresh process starts with.\<close>

definition fresh_state :: "key_set \<Rightarrow> config \<Rightarrow> 'm fleet \<Rightarrow> gw_state" where
  "fresh_state ks cfg f =
     \<lparr>gw_state.fleet = fl_picker f, in_flight = 0, limits = Some (snd (build_handler ks cfg))\<rparr>"

text \<open>One request: what it meets outside.\<close>

record serve_env =
  se_auth_now :: time
  se_mint_now :: time
  se_cookie_now :: time
  se_start :: time
  se_end :: time
  se_route :: route_env
  se_chunks :: "string \<Rightarrow> string list"

text \<open>The line is the access log's, or the middleware's rejection, or none for a redirect.\<close>

datatype log_line = Access access_line | Reject reject_log | NoLine

definition handle :: "viiwork \<Rightarrow> gateway \<Rightarrow> serve_env \<Rightarrow> request \<Rightarrow> gw_state \<Rightarrow> reply \<times> log_line \<times> gw_state" where
  "handle V gw env r st =
     (case wrap (gw_auth gw) (se_auth_now env) (se_mint_now env) (se_cookie_now env) r of
        Forwarded r' \<Rightarrow>
          (case log_wrap (se_chunks env) (se_start env) (se_end env)
                  (serve_http V (gw_router gw) (se_route env)) r' st of
             (rp, line, st) \<Rightarrow> (rp, Access line, st))
      | Redirected res \<Rightarrow> (Reply [] res, NoLine, st)
      | Rejected res line \<Rightarrow> (Reply [] res, Reject line, st))"

section \<open>serve and main\<close>

datatype stop_reason = Interrupted | MeshFatal string | ServeReturned "string option"

text \<open>
  \<open>serve\<close>: whatever ends it, HTTP is drained before the mesh is left. The errors of draining and
  leaving are logged only.
\<close>

definition serve_loop :: "stop_reason \<Rightarrow> string option \<Rightarrow> string option \<Rightarrow> string life \<Rightarrow> string option \<times> string life" where
  "serve_loop reason leave shutdown l =
     (let stop_err = (case reason of Interrupted \<Rightarrow> None | MeshFatal e \<Rightarrow> Some e | ServeReturned e \<Rightarrow> e);
          l = l\<lparr>actions := actions l @ [Serve, DrainHttp (15 * second)]\<rparr>
      in (stop_err, snd (fleet_close (5 * second) leave shutdown l)))"

text \<open>What the process finds: its environment, the mesh, the port, and how it is stopped.\<close>

record world =
  w_getenv :: getenv
  w_hostname :: "string option"
  w_environ :: "string list"
  w_version :: string
  w_mesh_start :: "mesh_options \<Rightarrow> (string, unit) result"
  w_bind :: "string \<Rightarrow> string option"
  w_reason :: stop_reason
  w_leave :: "string option"
  w_shutdown :: "string option"

definition not_started :: "string life" where
  "not_started = \<lparr>closed = False, close_err = None, actions = []\<rparr>"

definition joining :: "viiwork \<Rightarrow> world \<Rightarrow> config \<Rightarrow> action list" where
  "joining V w cfg =
     (case port_of (listen cfg) of
        Inl _ \<Rightarrow> []
      | Inr port \<Rightarrow> [JoinMesh (mesh_options_of V cfg (w_version w) port)])"

text \<open>\<open>main\<close>: the exit code and what was done.\<close>

definition main_run :: "viiwork \<Rightarrow> world \<Rightarrow> int \<times> action list" where
  "main_run V w =
     (case load_config (w_getenv w) (w_hostname w) of
        Inl _ \<Rightarrow> (1, [])
      | Inr cfg \<Rightarrow>
          (case keys_load (w_environ w) of
             Inl _ \<Rightarrow> (1, [])
           | Inr ks \<Rightarrow>
               (let l = not_started\<lparr>actions := joining V w cfg\<rparr>
                in case fleet_start V (w_mesh_start w) None cfg (w_version w) of
                     Inl _ \<Rightarrow> (1, actions l)
                   | Inr f \<Rightarrow>
                       (let l = l\<lparr>actions := actions l @ [Listen (listen cfg)]\<rparr>
                        in case w_bind w (listen cfg) of
                             Some _ \<Rightarrow> (1, actions (snd (fleet_close (5 * second) (w_leave w) (w_shutdown w) l)))
                           | None \<Rightarrow>
                               (case serve_loop (w_reason w) (w_leave w) (w_shutdown w) l of
                                  (Some _, l) \<Rightarrow> (1, actions l)
                                | (None, l) \<Rightarrow> (0, actions l))))))"

end
