(* ===== verification/GatewaySpec.thy ===== *)
theory GatewaySpec
  imports Gateway AuthSpec RouterSpec ConfigSpec
begin

text \<open>
  The properties that need more than one component: what authentication gives the router and the
  nodes, what the log line says, what a configuration becomes, and how the process joins and
  leaves the mesh.
\<close>

section \<open>Nothing unauthenticated gets in\<close>

text \<open>C2: A request without a valid credential reaches no node, takes no token and spends no allowance.
  Whatever the mesh and the transport would have done, the answer is the middleware's 401, or its
  303 for a valid bootstrap key, and the shared state is as before.\<close>

theorem unauthenticated_stops:
  assumes "keys_load environ = Inr (mw_keys (gw_auth gw))"
    and "\<forall>l. \<not> presents_bearer (gw_auth gw) r l \<and> \<not> presents_cookie (gw_auth gw) (se_auth_now env) r l"
  shows "\<exists>res line. (\<forall>re. handle V gw (env\<lparr>se_route := re\<rparr>) r st = (Reply [] res, line, st)) \<and>
     status res \<in> {status_unauthorized, status_see_other}"
proof -
  let ?w = "wrap (gw_auth gw) (se_auth_now env) (se_mint_now env) (se_cookie_now env) r"
  have nf: "?w \<noteq> Forwarded out" for out
    using wrap_forwarded_iff [OF keys_load_ok [OF assms(1)]] assms(2) by blast
  consider res where "?w = Redirected res" | reason where "?w = reject r reason"
    using wrap_total [of "gw_auth gw" "se_auth_now env" "se_mint_now env" "se_cookie_now env" r] nf by blast
  then show ?thesis
  proof cases
    case 1
    then have "status res = status_see_other"
      using wrap_redirected_iff [OF keys_load_ok [OF assms(1)]] by auto
    with 1 show ?thesis by (auto simp: handle_def)
  next
    case 2
    then show ?thesis by (auto simp: handle_def reject_def write_error_def)
  qed
qed

definition sample_gateway :: gateway where
  "sample_gateway = \<lparr>gw_auth = sample_mw, gw_router = sample_router\<rparr>"

definition sample_serve :: serve_env where
  "sample_serve = \<lparr>se_auth_now = 0, se_mint_now = 0, se_cookie_now = 0, se_start = 0, se_end = 2000000,
     se_route = sample_env, se_chunks = (\<lambda>s. [s])\<rparr>"

theorem unauthenticated_stops_witness:
  "\<exists>res line. handle sample_viiwork sample_gateway (sample_serve\<lparr>se_route := failing_env\<rparr>) sample_wire sample_state =
     (Reply [] res, line, sample_state)"
proof -
  have l: "keys_load sample_environ = Inr (mw_keys (gw_auth sample_gateway))"
    by (simp add: sample_gateway_def sample_mw_loaded)
  have h: "hdr_get (req_header sample_wire) ''Authorization'' = []" "req_cookie (req_header sample_wire) cookie_name = None"
    unfolding sample_wire_def cookie_name_def by code_simp+
  then have "\<forall>l. \<not> presents_bearer (gw_auth sample_gateway) sample_wire l \<and>
      \<not> presents_cookie (gw_auth sample_gateway) (se_auth_now sample_serve) sample_wire l"
    by (simp add: presents_bearer_def presents_cookie_def)
  from unauthenticated_stops [OF l this, of sample_viiwork sample_state] show ?thesis by blast
qed

section \<open>No credential reaches a node\<close>

definition credential_free :: "request \<Rightarrow> bool" where
  "credential_free r \<longleftrightarrow>
     hdr_values (req_header r) ''Authorization'' = [] \<and> hdr_values (req_header r) ''Cookie'' = [] \<and>
     vals (parse_query (raw_query (req_url r))) query_param = []"

lemma stripped_free: "credential_free (strip_credentials r l)"
proof -
  have c: "canon ''Authorization'' = ''Authorization''" "canon ''Cookie'' = ''Cookie''" by code_simp+
  have "vals (url_query (req_url (strip_credentials r l))) query_param = []"
    using strip_no_key [of r l] by (simp add: values_has_def vals_def)
  then show ?thesis by (simp add: credential_free_def strip_header hdr_values_del c url_query_def)
qed

lemma free_updates:
  "credential_free (r\<lparr>ctx_info := b\<rparr>) \<longleftrightarrow> credential_free r"
  "credential_free (with_body r body) \<longleftrightarrow> credential_free r"
  "credential_free (reset_body r body) \<longleftrightarrow> credential_free r"
  "credential_free (rewrite_path r p) \<longleftrightarrow> credential_free r"
  by (simp_all add: credential_free_def with_body_def reset_body_def rewrite_path_def)

lemma base_header_values:
  assumes "hdr_values (req_header r) k = []" "canon k \<notin> {''Te'', ''Connection'', ''Upgrade''}"
  shows "hdr_values (base_header r up) k = []"
proof -
  have c: "canon ''Te'' = ''Te''" "canon ''Connection'' = ''Connection''" "canon ''Upgrade'' = ''Upgrade''" by code_simp+
  have "hdr_values (remove_hop_by_hop (req_header r)) k = []"
    using assms(1) by (simp add: remove_hop_by_hop_def hdr_values_fold_del)
  then show ?thesis using assms(2) by (simp add: base_header_def Let_def hdr_values_set c)
qed

lemma sent_header_values:
  assumes "hdr_values (req_header r) k = []"
    and "canon k \<notin> {''Te'', ''Connection'', ''Upgrade'', ''User-Agent'', ''X-Forwarded-For'', ''X-Forwarded-Host'', ''X-Forwarded-Proto''}"
  shows "hdr_values (sent_header r up) k = []"
proof -
  have c: "canon ''User-Agent'' = ''User-Agent''" "canon ''X-Forwarded-For'' = ''X-Forwarded-For''"
    "canon ''X-Forwarded-Host'' = ''X-Forwarded-Host''" "canon ''X-Forwarded-Proto'' = ''X-Forwarded-Proto''"
    by code_simp+
  have b: "hdr_values (base_header r up) k = []" using assms by (intro base_header_values) auto
  have "hdr_values (set_x_forwarded r h) k = hdr_values h k" for h
    using assms(2) by (auto simp: set_x_forwarded_def Let_def hdr_values_set hdr_values_del c split: option.split)
  then show ?thesis
    using assms(2) b by (auto simp: sent_header_def Let_def hdr_values_set hdr_values_del c)
qed

lemma outbound_free:
  assumes "credential_free r" "outbound_of r addr = Some ob"
  shows "credential_free (ob_request ob)"
proof -
  have c: "canon ''Authorization'' = ''Authorization''" "canon ''Cookie'' = ''Cookie''" by code_simp+
  have h: "req_header (ob_request ob) = sent_header r (upgrade_type (req_header r))"
    and q: "raw_query (req_url (ob_request ob)) = clean_query (raw_query (req_url r))"
    using assms(2) by (auto simp: outbound_of_def Let_def split: if_splits)
  show ?thesis
    using assms(1) sent_header_values [of r "''Authorization''"] sent_header_values [of r "''Cookie''"]
    by (simp add: credential_free_def h q vals_clean_query c)
qed

text \<open>Two transports that agree on credential-free requests.\<close>

definition agree :: "(outbound \<Rightarrow> upstream) \<Rightarrow> (outbound \<Rightarrow> upstream) \<Rightarrow> bool" where
  "agree tr tr' \<longleftrightarrow> (\<forall>ob. credential_free (ob_request ob) \<longrightarrow> tr ob = tr' ob)"

lemma forward_agree: "credential_free r \<Longrightarrow> agree tr tr' \<Longrightarrow> forward_to tr r addr = forward_to tr' r addr"
  by (auto simp: forward_to_def agree_def outbound_free split: option.split)

lemma to_view_agree: "credential_free r \<Longrightarrow> agree tr tr' \<Longrightarrow> to_view tr r t sd st = to_view tr' r t sd st"
  by (simp add: to_view_def forward_agree)

lemma read_body_free:
  "read_body rt now r sd = (Inr (body, r'), sd') \<Longrightarrow> credential_free r \<Longrightarrow> credential_free r'"
  by (auto simp: read_body_def result_iff free_updates split: option.splits if_splits)

abbreviation with_transports :: "route_env \<Rightarrow> (outbound \<Rightarrow> upstream) \<Rightarrow> (outbound \<Rightarrow> upstream) \<Rightarrow> route_env" where
  "with_transports e f g \<equiv> e\<lparr>re_first := f, re_second := g\<rparr>"

lemma retry_agree:
  assumes "credential_free r" "agree (re_second e) g"
  shows "retry_elsewhere V e r body model t sd st = retry_elsewhere V (with_transports e f g) r body model t sd st"
  using forward_agree [OF _ assms(2), of "reset_body r body"] assms(1)
  by (simp add: retry_elsewhere_def forward_holding_def free_updates Let_def split: prod.split option.split)

lemma model_agree:
  assumes "credential_free r" "agree (re_first e) f" "agree (re_second e) g"
  shows "model_forward V e r body sd st = model_forward V (with_transports e f g) r body sd st"
  using forward_agree [OF assms(1,2)] to_view_agree [OF assms(1,2)] retry_agree [OF assms(1,3), where f = f]
  by (simp add: model_forward_def forward_holding_def Let_def split: prod.split option.split forwarded.split)

lemma serve_agree:
  assumes "credential_free r" "agree (re_first e) f" "agree (re_second e) g"
  shows "serve_http V rt e r sd st = serve_http V rt (with_transports e f g) r sd st"
proof -
  let ?e = "with_transports e f g"
  have v: "route_to_view V rt e r sd st = route_to_view V rt ?e r sd st" if "credential_free r" for r
    unfolding route_to_view_def
    by (rule arg_cong [where f = "with_token rt sd st"])
      (auto intro!: ext split: prod.split option.split sum.split
        simp: to_view_agree [OF read_body_free [OF _ that] assms(2)])
  have "route_by_model V rt e r sd st = route_by_model V rt ?e r sd st"
    unfolding route_by_model_def
    by (auto intro!: arg_cong [where f = "with_token rt sd _"] ext split: prod.split sum.split
        simp: Let_def model_agree [OF read_body_free [OF _ assms(1)] assms(2,3)])
  with v [OF assms(1)] v [of "rewrite_path r mesh_page_path"] assms(1) show ?thesis
    by (simp add: serve_http_def free_updates Let_def)
qed

text \<open>C9: No node is ever sent a credential. The gateway consults the transport only for requests without
  Authorization and Cookie headers and without a \<open>key\<close> parameter: two transports that agree on
  those are not told apart by any request, whatever its path, its credentials and its retries.\<close>

theorem nodes_see_no_credential:
  assumes "\<forall>ob. credential_free (ob_request ob) \<longrightarrow> re_first (se_route env) ob = f ob \<and> re_second (se_route env) ob = g ob"
  shows "handle V gw env r st = handle V gw (env\<lparr>se_route := (se_route env)\<lparr>re_first := f, re_second := g\<rparr>\<rparr>) r st"
proof -
  have a: "agree (re_first (se_route env)) f" "agree (re_second (se_route env)) g" using assms by (auto simp: agree_def)
  have s: "serve_http V rt (se_route env) (r'\<lparr>ctx_info := True\<rparr>) sd st' =
      serve_http V rt (with_transports (se_route env) f g) (r'\<lparr>ctx_info := True\<rparr>) sd st'"
    if "credential_free r'" for rt r' sd st'
    using that by (intro serve_agree a) (simp add: free_updates)
  let ?w = "wrap (gw_auth gw) (se_auth_now env) (se_mint_now env) (se_cookie_now env) r"
  show ?thesis
  proof (cases ?w)
    case (Forwarded r')
    then have "credential_free r'"
      by (auto simp: wrap_def Let_def reject_def stripped_free split: option.splits if_splits)
    from s [OF this] Forwarded show ?thesis by (simp add: handle_def log_wrap_def)
  qed (simp_all add: handle_def)
qed

theorem nodes_see_no_credential_witness:
  "handle sample_viiwork sample_gateway sample_serve sample_request sample_state =
   handle sample_viiwork sample_gateway (sample_serve\<lparr>se_route := (se_route sample_serve)\<lparr>
       re_first := \<lambda>ob. if credential_free (ob_request ob) then sample_node ob else dial_failed,
       re_second := \<lambda>ob. if credential_free (ob_request ob) then sample_node ob else dial_failed\<rparr>\<rparr>) sample_request sample_state"
  by (rule nodes_see_no_credential) (simp add: sample_serve_def sample_env_def)

section \<open>The log line\<close>

lemma handle_access:
  assumes "handle V gw env r st = (rp, Access line, st')"
  obtains r' sd where "wrap (gw_auth gw) (se_auth_now env) (se_mint_now env) (se_cookie_now env) r = Forwarded r'"
    "serve_http V (gw_router gw) (se_route env) (r'\<lparr>ctx_info := True\<rparr>) no_info st = (rp, sd, st')"
    "line = log_request (r'\<lparr>ctx_info := True\<rparr>) (fold rec_call (reply_calls (se_chunks env) rp) (new_recorder True))
       sd (se_start env) (se_end env) (aborts rp)"
  using assms by (auto simp: handle_def log_wrap_def Let_def split: auth_outcome.splits prod.splits)

lemma client_ip_strip: "client_ip ((strip_credentials r l)\<lparr>ctx_info := b\<rparr>) = client_ip r"
proof -
  have c: "canon ''X-Forwarded-For'' \<noteq> canon ''Authorization''" "canon ''X-Forwarded-For'' \<noteq> canon ''Cookie''"
    by code_simp+
  show ?thesis by (simp add: client_ip_def strip_other_headers [OF c] strip_rest Let_def split: option.split)
qed

lemma presented_label:
  assumes "presents_bearer m r l \<or> presents_cookie m now r l" "keys_ok (mw_keys m)"
  shows "l \<noteq> []"
proof -
  from assms(1) obtain v where "keys_secret (mw_keys m) l = Some v"
    by (auto simp: presents_bearer_def presents_cookie_def verify_iff)
  then show ?thesis using assms(2) by (auto simp: keys_secret_def keys_ok_def dest!: map_of_SomeD)
qed

lemma reply_recorded:
  assumes "status res \<noteq> 0" "concat (chunks (body_text (r_body res))) = body_text (r_body res)"
  shows "rec_status (fold rec_call (reply_calls chunks (Reply [] res)) (new_recorder fsh)) = status res"
    "rec_bytes (fold rec_call (reply_calls chunks (Reply [] res)) (new_recorder fsh)) =
       wrap64 (int (length (body_text (r_body res))))"
proof -
  let ?cs = "response_calls chunks res"
  obtain cs where cs: "?cs = WriteHeader (status res) # cs" by (simp add: response_calls_def)
  show "rec_status (fold rec_call (reply_calls chunks (Reply [] res)) (new_recorder fsh)) = status res"
    using assms(1) by (simp add: reply_calls_def cs new_recorder_def status_stays)
  have "in_int64 0" by (simp add: in_int64_def min_int64_def max_int64_def)
  then show "rec_bytes (fold rec_call (reply_calls chunks (Reply [] res)) (new_recorder fsh)) =
       wrap64 (int (length (body_text (r_body res))))"
    using fold_bytes [of "new_recorder fsh" ?cs] response_call_bytes [of chunks res, OF assms(2)]
    by (simp add: reply_calls_def new_recorder_def)
qed

text \<open>The line says what happened and whose request it was. For a request answered without
  informational responses it has the client's method and path, the status and the number of bytes
  the client was sent, the attributed address, and the label of the credential, never the secret.\<close>

theorem log_line_faithful:
  assumes "keys_load environ = Inr (mw_keys (gw_auth gw))"
    and "handle V gw env r st = (Reply [] res, Access line, st')" and "status res \<noteq> 0"
    and "concat (se_chunks env (body_text (r_body res))) = body_text (r_body res)"
  shows "al_method line = req_method r \<and> al_path line = path (req_url r) \<and> al_status line = status res \<and>
     al_bytes line = wrap64 (int (length (body_text (r_body res)))) \<and>
     al_remote line = client_ip r \<and> \<not> al_aborted line \<and>
     (\<exists>l. (presents_bearer (gw_auth gw) r l \<or> presents_cookie (gw_auth gw) (se_auth_now env) r l) \<and>
        al_key line = Some l)"
proof -
  obtain r' sd where w: "wrap (gw_auth gw) (se_auth_now env) (se_mint_now env) (se_cookie_now env) r = Forwarded r'"
    and line: "line = log_request (r'\<lparr>ctx_info := True\<rparr>)
      (fold rec_call (reply_calls (se_chunks env) (Reply [] res)) (new_recorder True))
       sd (se_start env) (se_end env) (aborts (Reply [] res))"
    using handle_access [OF assms(2)] by metis
  from w obtain l where l: "presents_bearer (gw_auth gw) r l \<or> presents_cookie (gw_auth gw) (se_auth_now env) r l"
    and r': "r' = strip_credentials r l"
    unfolding wrap_forwarded_iff [OF keys_load_ok [OF assms(1)]] by blast
  from l have "l \<noteq> []" by (rule presented_label) (rule keys_load_ok [OF assms(1)])
  then have "al_key line = Some l"
    by (simp add: line log_request_def r' label_from_context_def strip_label unless_empty_def)
  moreover have "al_method line = req_method r" "al_path line = path (req_url r)" "al_remote line = client_ip r"
    "\<not> al_aborted line" by (simp_all add: line log_request_def r' strip_rest client_ip_strip aborts_def)
  moreover have "al_status line = status res"
    using assms(3) reply_recorded(1) [where chunks = "se_chunks env", OF assms(3,4)]
    by (simp add: line log_request_def)
  moreover have "al_bytes line = wrap64 (int (length (body_text (r_body res))))"
    using reply_recorded(2) [where chunks = "se_chunks env", OF assms(3,4)]
    by (simp add: line log_request_def)
  ultimately show ?thesis using l by blast
qed

lemma serve_get_view:
  "req_method r = ''GET'' \<Longrightarrow> path (req_url r) \<noteq> landing_path \<Longrightarrow> \<not> is_power_path V (path (req_url r)) \<Longrightarrow>
   serve_http V rt e r sd st = route_to_view V rt e r sd st"
  by (simp add: serve_http_def is_alias_write_def Let_def)

lemma sample_handled:
  "\<exists>res line st. handle sample_viiwork sample_gateway sample_serve sample_request sample_state = (Reply [] res, Access line, st) \<and>
     status res = 200"
proof -
  let ?r = "(strip_credentials sample_request ''laptop'')\<lparr>ctx_info := True\<rparr>"
  have w: "wrap (gw_auth sample_gateway) (se_auth_now sample_serve) (se_mint_now sample_serve) (se_cookie_now sample_serve)
      sample_request = Forwarded (strip_credentials sample_request ''laptop'')"
    using sample_bearer wrap_forwarded_iff [OF keys_load_ok [OF sample_mw_loaded]] by (simp add: sample_gateway_def) blast
  have f: "req_method ?r = ''GET''" "path (req_url ?r) = ''/v1/models''" "req_body ?r = None"
    by (simp_all add: strip_rest) (simp_all add: sample_request_def sample_url_def)
  have "\<not> is_power_path sample_viiwork ''/v1/models''" unfolding is_power_path_def sample_viiwork_def by code_simp
  then have s: "serve_http sample_viiwork sample_router sample_env ?r no_info sample_state =
      route_to_view sample_viiwork sample_router sample_env ?r no_info sample_state"
    by (intro serve_get_view) (simp_all only: f landing_path_def, simp_all)
  have v: "fleet_view sample_viiwork (re_view sample_env) (fleet sample_state) =
      (Some (sample_target ''a''), sample_picker\<lparr>view := ''a''\<rparr>)"
    using sample_view by (simp add: fleet_view_def sample_env_def sample_state_def)
  have "upgrade_type (req_header ?r) = []"
    by (simp add: strip_header sample_request_def) code_simp
  from sample_reply [OF this] obtain res where
    r: "forward_to sample_node ?r (t_api_addr (sample_target ''a'')) = Wrote (Reply [] res)" "status res = 200" by blast
  obtain sd st where "route_to_view sample_viiwork sample_router sample_env ?r no_info sample_state = (Reply [] res, sd, st)"
    using v r f(3) by (simp add: route_to_view_def with_token_def try_acquire_def read_body_def to_view_def sample_state_def
        sample_router_def new_router_def sample_env_def settle_def)
  with s have "serve_http sample_viiwork (gw_router sample_gateway) (se_route sample_serve) ?r no_info sample_state = (Reply [] res, sd, st)"
    by (simp add: sample_gateway_def sample_serve_def)
  with w r(2) show ?thesis by (simp add: handle_def log_wrap_def Let_def)
qed

theorem log_line_faithful_witness:
  "\<exists>rp line st. handle sample_viiwork sample_gateway sample_serve sample_request sample_state = (rp, Access line, st) \<and>
     al_status line = 200 \<and> al_path line = ''/v1/models''"
proof -
  obtain res line st where h: "handle sample_viiwork sample_gateway sample_serve sample_request sample_state = (Reply [] res, Access line, st)"
    "status res = 200" using sample_handled by blast
  have "keys_load sample_environ = Inr (mw_keys (gw_auth sample_gateway))" by (simp add: sample_gateway_def sample_mw_loaded)
  from log_line_faithful [OF this h(1)] h show ?thesis by (simp add: sample_serve_def sample_request_def sample_url_def)
qed

text \<open>An informational response spoils the status. The recorder keeps the first status written, so a
  request whose node sends an early 103 is logged with 103, whatever it was answered with.\<close>

theorem interim_status_logged:
  assumes "handle V gw env r st = (Reply ((code, h) # im) res, Access line, st')" and "code \<noteq> 0"
  shows "al_status line = code"
proof -
  obtain r' sd where "line = log_request (r'\<lparr>ctx_info := True\<rparr>)
      (fold rec_call (reply_calls (se_chunks env) (Reply ((code, h) # im) res)) (new_recorder True))
       sd (se_start env) (se_end env) (aborts (Reply ((code, h) # im) res))"
    using handle_access [OF assms(1)] by metis
  then show ?thesis using assms(2) by (simp add: log_request_def reply_calls_def new_recorder_def status_stays)
qed

text \<open>A switched connection is logged as one that was answered with 200 and no bytes, since its 101 and
  everything after it bypass the recorder.\<close>

theorem switch_logged_ok:
  assumes "handle V gw env r st = (Upgraded [] res, Access line, st')"
  shows "al_status line = 200 \<and> al_bytes line = 0 \<and> \<not> al_aborted line"
proof -
  obtain r' sd where "line = log_request (r'\<lparr>ctx_info := True\<rparr>)
      (fold rec_call (reply_calls (se_chunks env) (Upgraded [] res)) (new_recorder True))
       sd (se_start env) (se_end env) (aborts (Upgraded [] res))"
    using handle_access [OF assms] by metis
  then show ?thesis by (simp add: log_request_def reply_calls_def new_recorder_def status_ok_def aborts_def)
qed

text \<open>The middleware's own answers are outside the hardening, which is documented for every response
  the gateway emits: a rejection, its HTML page included, carries none of the security headers.\<close>

theorem rejection_unhardened:
  assumes "wrap m t1 t2 t3 r = Rejected res line"
  shows "hdr_values (r_header res) ''X-Frame-Options'' = [] \<and> hdr_values (r_header res) ''Content-Security-Policy'' = []"
proof -
  have c: "canon ''X-Frame-Options'' \<noteq> canon ''Content-Type''" "canon ''Content-Security-Policy'' \<noteq> canon ''Content-Type''"
    by code_simp+
  obtain reason where "reject r reason = Rejected res line"
    using wrap_total [of m t1 t2 t3 r] assms by auto
  then show ?thesis
    by (auto simp: reject_def write_error_def hdr_values_set c split: if_splits) (simp_all add: hdr_values_def)
qed

section \<open>From the configuration to the running gateway\<close>

text \<open>What was configured is what runs. The router's own defaults, which replace a missing value,
  never apply to an accepted configuration: the cap, the body limit and its deadline, the cookie's
  lifetime and the limiter's rate and burst are the configured ones, and limiting is off exactly
  for a rate of zero.\<close>

theorem config_takes_effect:
  assumes "load_config getenv hostname = Inr cfg" and "build_handler ks cfg = (gw, lmt)"
  shows "int (rt_capacity (gw_router gw)) = max_in_flight cfg \<and> rt_max_body (gw_router gw) = max_body cfg \<and>
     rt_body_timeout (gw_router gw) = body_read_timeout cfg \<and> mw_ttl (gw_auth gw) = cookie_ttl cfg \<and>
     mw_keys (gw_auth gw) = ks \<and> lmt = new_limiter (rate_per_min cfg) (rate_burst cfg) \<and>
     (rate_per_min cfg = Fin 0 \<longleftrightarrow> fle (rate_per_min cfg) (Fin 0))"
proof -
  have ok: "config_ok cfg"
    using assms(1) load_config_ok by blast
  have "rate_per_min cfg = Fin 0 \<longleftrightarrow> fle (rate_per_min cfg) (Fin 0)"
    using ok by (auto simp: config_ok_def fle_def)
  with ok assms(2) show ?thesis
    by (auto simp: build_handler_def new_router_def config_ok_def positive64_def)
qed

theorem config_takes_effect_witness:
  "rt_capacity (gw_router (fst (build_handler sample_keys open_config))) = 256"
proof -
  obtain gw lmt where b: "build_handler sample_keys open_config = (gw, lmt)" by (cases "build_handler sample_keys open_config")
  from config_takes_effect [OF open_loads b] b show ?thesis by (simp add: open_config_def default_config_def)
qed





section \<open>Joining and leaving\<close>

lemma main_run_joins:
  "JoinMesh mo \<in> set (snd (main_run V w)) \<Longrightarrow>
   \<exists>cfg ks port. load_config (w_getenv w) (w_hostname w) = Inr cfg \<and> keys_load (w_environ w) = Inr ks \<and>
     port_of (listen cfg) = Inr port \<and> mo = mesh_options_of V cfg (w_version w) port"
proof -
  assume j: "JoinMesh mo \<in> set (snd (main_run V w))"
  then obtain cfg ks where c: "load_config (w_getenv w) (w_hostname w) = Inr cfg" "keys_load (w_environ w) = Inr ks"
    by (cases "load_config (w_getenv w) (w_hostname w)"; cases "keys_load (w_environ w)") (auto simp: main_run_def)
  have "JoinMesh mo \<in> set (joining V w cfg)"
    using j c by (auto simp: main_run_def serve_loop_def fleet_close_def Let_def not_started_def
        split: sum.splits option.splits stop_reason.splits)
  with c show ?thesis by (cases "port_of (listen cfg)") (auto simp: joining_def)
qed

text \<open>The gateway joins the mesh it was configured for, or none. It announces itself as a gateway
  without a payload, on a real port, with exactly the configured secret; without one it joins only
  when the operator declared the mesh open and named the view nodes.\<close>

theorem joins_as_configured:
  assumes "JoinMesh mo \<in> set (snd (main_run V w))"
  shows "\<exists>cfg. load_config (w_getenv w) (w_hostname w) = Inr cfg \<and>
     mo_role mo = role_gateway V \<and> mo_payload mo = None \<and> 1 \<le> mo_api_port mo \<and> mo_api_port mo \<le> 65535 \<and>
     mo_name mo = node_name cfg \<and> mo_secret_key mo = secret_key (mesh cfg) \<and>
     (mo_secret_key mo = None \<longrightarrow> open_mesh (mesh cfg) \<and> config.view_nodes cfg \<noteq> [])"
proof -
  obtain cfg ks port where c: "load_config (w_getenv w) (w_hostname w) = Inr cfg" "port_of (listen cfg) = Inr port"
    "mo = mesh_options_of V cfg (w_version w) port" using main_run_joins [OF assms] by blast
  have "config_ok cfg" using c(1) load_config_ok by blast
  moreover have "1 \<le> port \<and> port \<le> 65535"
    using c(2) by (auto simp: port_of_def split: option.splits if_splits)
  ultimately show ?thesis using c by (auto simp: mesh_options_of_def Let_def config_ok_def mesh_ok_def)
qed

definition sample_world :: world where
  "sample_world = \<lparr>w_getenv = open_environ, w_hostname = Some ''gw'', w_environ = sample_environ, w_version = ''2.0'',
     w_mesh_start = (\<lambda>_. Inr ()), w_bind = (\<lambda>_. None), w_reason = Interrupted, w_leave = None, w_shutdown = None\<rparr>"

lemma open_port: "port_of (listen open_config) = Inr 8090"
  unfolding open_config_def default_config_def by code_simp

lemma sample_run:
  "main_run sample_viiwork sample_world = (0, [JoinMesh (mesh_options_of sample_viiwork open_config ''2.0'' 8090),
     Listen (listen open_config), Serve, DrainHttp (15 * second), LeaveMesh (5 * second), StopPoller, AwaitPoller, ShutdownMesh])"
  by (simp add: main_run_def sample_world_def open_loads sample_load fleet_start_def open_port joining_def Let_def
      serve_loop_def fleet_close_def not_started_def)

theorem joins_as_configured_witness:
  "JoinMesh (mesh_options_of sample_viiwork open_config ''2.0'' 8090) \<in> set (snd (main_run sample_viiwork sample_world)) \<and>
   mo_role (mesh_options_of sample_viiwork open_config ''2.0'' 8090) = role_gateway sample_viiwork"
proof -
  have j: "JoinMesh (mesh_options_of sample_viiwork open_config ''2.0'' 8090) \<in> set (snd (main_run sample_viiwork sample_world))"
    by (simp add: sample_run)
  from joins_as_configured [OF j] j show ?thesis by blast
qed

text \<open>C24: Whatever stops the process, the mesh is left once and last. If \<open>mesh.Start\<close> succeeded, be it the
  port that could not be bound, a signal, a duplicate name or a failing server that ends it, the
  last things done are leaving, stopping the poller, waiting for it and shutting down, none of them
  done before, and HTTP has been drained first if it was served. The exit code is zero exactly if
  everything started and the stop had no error.\<close>

theorem shutdown_order:
  assumes "main_run V w = (code, acts)" and "JoinMesh mo \<in> set acts" and "w_mesh_start w mo = Inr ()"
  shows "\<exists>pre addr. acts = pre @ [LeaveMesh (5 * second), StopPoller, AwaitPoller, ShutdownMesh] \<and>
     (\<forall>d. set pre \<inter> {LeaveMesh d, StopPoller, AwaitPoller, ShutdownMesh} = {}) \<and>
     Listen addr \<in> set pre \<and> (Serve \<in> set pre \<longleftrightarrow> w_bind w addr = None) \<and>
     (Serve \<in> set pre \<longrightarrow> last pre = DrainHttp (15 * second)) \<and>
     (code = 0 \<longleftrightarrow> Serve \<in> set pre \<and> (w_reason w = Interrupted \<or> w_reason w = ServeReturned None))"
proof -
  obtain cfg ks port where c: "load_config (w_getenv w) (w_hostname w) = Inr cfg" "keys_load (w_environ w) = Inr ks"
    "port_of (listen cfg) = Inr port" "mo = mesh_options_of V cfg (w_version w) port"
    using main_run_joins [of mo V w] assms(1,2) by auto
  let ?join = "[JoinMesh mo, Listen (listen cfg)]"
  let ?leave = "[LeaveMesh (5 * second), StopPoller, AwaitPoller, ShutdownMesh]"
  let ?stop = "case w_reason w of Interrupted \<Rightarrow> None | MeshFatal e \<Rightarrow> Some e | ServeReturned e \<Rightarrow> e"
  have run: "main_run V w =
      (if w_bind w (listen cfg) = None
       then (if ?stop = None then 0 else 1, (?join @ [Serve, DrainHttp (15 * second)]) @ ?leave)
       else (1, ?join @ ?leave))"
    using c assms(3)
    by (simp add: main_run_def fleet_start_def joining_def Let_def serve_loop_def fleet_close_def not_started_def
        split: option.split)
  have stop: "?stop = None \<longleftrightarrow> w_reason w = Interrupted \<or> w_reason w = ServeReturned None"
    by (cases "w_reason w") auto
  show ?thesis
  proof (cases "w_bind w (listen cfg) = None")
    case True
    then show ?thesis using run assms(1) stop
      by (intro exI [of _ "?join @ [Serve, DrainHttp (15 * second)]"] exI [of _ "listen cfg"]) auto
  next
    case False
    then show ?thesis using run assms(1)
      by (intro exI [of _ ?join] exI [of _ "listen cfg"]) auto
  qed
qed

theorem shutdown_order_witness:
  "\<exists>pre. snd (main_run sample_viiwork sample_world) = pre @ [LeaveMesh (5 * second), StopPoller, AwaitPoller, ShutdownMesh] \<and>
     last pre = DrainHttp (15 * second)"
proof -
  let ?mo = "mesh_options_of sample_viiwork open_config ''2.0'' 8090"
  have m: "w_mesh_start sample_world ?mo = Inr ()" "\<And>a. w_bind sample_world a = None" by (simp_all add: sample_world_def)
  have j: "JoinMesh ?mo \<in> set [JoinMesh ?mo, Listen (listen open_config), Serve, DrainHttp (15 * second),
      LeaveMesh (5 * second), StopPoller, AwaitPoller, ShutdownMesh]" by simp
  show ?thesis
    unfolding sample_run snd_conv
    using shutdown_order [OF sample_run j m(1)] by (simp only: m(2) simp_thms) blast
qed

text \<open>Closing a second time returns the first error and does nothing; the mesh is shut down even if leaving
  failed, and of two errors the first is reported.\<close>

lemma close_idempotent:
  assumes "\<not> closed l" and "fleet_close t leave shutdown l = (e, l')"
  shows "actions l' = actions l @ [LeaveMesh t, StopPoller, AwaitPoller, ShutdownMesh]"
    and "e = first_error leave shutdown" and "fleet_close t2 leave2 shutdown2 l' = (e, l')"
  using assms by (auto simp: fleet_close_def Let_def)

end
