(* ===== verification/System.thy ===== *)
theory System
  imports RouterSpec
begin

text \<open>
  Many requests at once. Each runs \<open>ServeHTTP\<close> in its own goroutine, and the atomic steps are the
  ones the code makes atomic: a call of the limiter, the channel send of a concurrency token and the
  receive that gives it back, a pick, a view decision, a release. The steps of different requests
  interleave freely, and every step meets its own clock, mesh and transport.
\<close>

section \<open>Where a request is\<close>

text \<open>
  The phases of \<open>routeByModel\<close> and \<open>routeToView\<close> between those steps, with the values the code
  holds there. \<open>First\<close> and \<open>Second\<close> carry the reservation of the forward under way.
\<close>

datatype phase =
    Metered request side
  | Admitted request side
  | Reading request side
  | Parsed request string side
  | First request string side target "64 word"
  | Retry request string side target
  | Second request side target "64 word"
  | Fallback request side
  | Arriving request side
  | Entered request side
  | Chosen request side target
  | Viewing request side target
  | Leaving reply side
  | Answered reply side

definition refusal :: "string \<Rightarrow> reply" where
  "refusal msg = Reply [] (secure_error [] status_forbidden msg ''forbidden_path'')"

text \<open>\<open>ServeHTTP\<close> up to the first shared step.\<close>

definition enter :: "viiwork \<Rightarrow> request \<Rightarrow> side \<Rightarrow> phase" where
  "enter V r sd =
     (let p = path (req_url r)
      in if is_power_path V p then
           Answered (refusal ''chassis power control is not available through the gateway; use the tailnet'') sd
         else if is_alias_write V (req_method r) p then
           Answered (refusal ''alias writes are not available through the gateway; use viiwork alias on the tailnet'') sd
         else if req_method r = ''POST'' \<and> is_inference_path V p then Metered r sd
         else if req_method r = ''GET'' \<and> p = landing_path then Arriving (rewrite_path r mesh_page_path) sd
         else Arriving r sd)"

section \<open>Steps\<close>

text \<open>One step of one request on the shared state.\<close>

inductive step :: "viiwork \<Rightarrow> router \<Rightarrow> gw_state \<times> phase \<Rightarrow> gw_state \<times> phase \<Rightarrow> bool"
  for V :: viiwork and rt :: router where
    limit_pass: "allow oor (limits st) (label_from_context r) now = ((True, wait), lm) \<Longrightarrow>
      step V rt (st, Metered r sd) (st\<lparr>limits := lm\<rparr>, Admitted r sd)"
  | limit_deny: "allow oor (limits st) (label_from_context r) now = ((False, wait), lm) \<Longrightarrow>
      step V rt (st, Metered r sd) (st\<lparr>limits := lm\<rparr>, Answered (Reply [] (rate_limited oor wait)) sd)"
  | acquire: "try_acquire rt st = Some st' \<Longrightarrow> step V rt (st, Admitted r sd) (st', Reading r sd)"
  | full: "try_acquire rt st = None \<Longrightarrow> step V rt (st, Admitted r sd) (st, Answered (Reply [] over_capacity) sd)"
  | body: "read_body rt now r sd = (Inr (b, r'), sd') \<Longrightarrow>
      step V rt (st, Reading r sd) (st, Parsed r' b (set_model r' (json_model b) sd'))"
  | body_error: "read_body rt now r sd = (Inl e, sd') \<Longrightarrow>
      step V rt (st, Reading r sd) (st, Leaving (Reply [] (body_error_reply e)) sd')"
  | pick: "fleet_pick V e (json_model b) [] (fleet st) = (Some (t, rid), p) \<Longrightarrow>
      step V rt (st, Parsed r b sd) (st\<lparr>fleet := p\<rparr>, First r b (set_node r (t_node t) sd) t rid)"
  | no_pick: "fleet_pick V e (json_model b) [] (fleet st) = (None, p) \<Longrightarrow>
      step V rt (st, Parsed r b sd) (st\<lparr>fleet := p\<rparr>, Fallback r sd)"
  | wrote: "forward_holding tr r (t_api_addr t) rid st = (Wrote rp, st') \<Longrightarrow>
      step V rt (st, First r b sd t rid) (st', Leaving rp sd)"
  | unreachable: "forward_holding tr r (t_api_addr t) rid st = (Unreachable, st') \<Longrightarrow>
      step V rt (st, First r b sd t rid) (st', Retry (reset_body (consume n r) b) b sd t)"
  | repick: "fleet_pick V e (json_model b) [t_node t] (fleet st) = (Some (t2, rid), p) \<Longrightarrow>
      step V rt (st, Retry r b sd t) (st\<lparr>fleet := p\<rparr>, Second r (set_node r (t_node t2) sd) t2 rid)"
  | no_repick: "fleet_pick V e (json_model b) [t_node t] (fleet st) = (None, p) \<Longrightarrow>
      step V rt (st, Retry r b sd t) (st\<lparr>fleet := p\<rparr>, Leaving (Reply [] (unreachable_error (t_node t))) sd)"
  | second: "forward_holding tr r (t_api_addr t) rid st = (f, st') \<Longrightarrow>
      step V rt (st, Second r sd t rid) (st', Leaving (settle f (t_node t)) sd)"
  | fallback: "fleet_view V e (fleet st) = (Some t, p) \<Longrightarrow>
      step V rt (st, Fallback r sd) (st\<lparr>fleet := p\<rparr>, Viewing r sd t)"
  | no_fallback: "fleet_view V e (fleet st) = (None, p) \<Longrightarrow>
      step V rt (st, Fallback r sd) (st\<lparr>fleet := p\<rparr>, Leaving (Reply [] no_healthy_node) sd)"
  | view_acquire: "try_acquire rt st = Some st' \<Longrightarrow> step V rt (st, Arriving r sd) (st', Entered r sd)"
  | view_full: "try_acquire rt st = None \<Longrightarrow> step V rt (st, Arriving r sd) (st, Answered (Reply [] over_capacity) sd)"
  | view: "fleet_view V e (fleet st) = (Some t, p) \<Longrightarrow>
      step V rt (st, Entered r sd) (st\<lparr>fleet := p\<rparr>, Chosen r sd t)"
  | no_view: "fleet_view V e (fleet st) = (None, p) \<Longrightarrow>
      step V rt (st, Entered r sd) (st\<lparr>fleet := p\<rparr>, Leaving (Reply [] no_healthy_node) sd)"
  | view_body: "read_body rt now r sd = (Inr (b, r'), sd') \<Longrightarrow>
      step V rt (st, Chosen r sd t) (st, Viewing r' sd' t)"
  | view_body_error: "read_body rt now r sd = (Inl e, sd') \<Longrightarrow>
      step V rt (st, Chosen r sd t) (st, Leaving (Reply [] (body_error_reply e)) sd')"
  | viewed: "to_view tr r t sd st = (rp, sd', st') \<Longrightarrow> step V rt (st, Viewing r sd t) (st', Leaving rp sd')"
  | leave: "step V rt (st, Leaving rp sd) (release_token st, Answered rp sd)"

inductive_cases step_cases: "step V rt (st, ph) (st', ph')"

inductive_simps step_simps:
  "step V rt (st, Metered r sd) (st', ph')"
  "step V rt (st, Admitted r sd) (st', ph')"
  "step V rt (st, Reading r sd) (st', ph')"
  "step V rt (st, Parsed r b sd) (st', ph')"
  "step V rt (st, First r b sd t rid) (st', ph')"
  "step V rt (st, Retry r b sd t) (st', ph')"
  "step V rt (st, Second r sd t rid) (st', ph')"
  "step V rt (st, Fallback r sd) (st', ph')"
  "step V rt (st, Arriving r sd) (st', ph')"
  "step V rt (st, Entered r sd) (st', ph')"
  "step V rt (st, Chosen r sd t) (st', ph')"
  "step V rt (st, Viewing r sd t) (st', ph')"
  "step V rt (st, Leaving rp sd) (st', ph')"
  "step V rt (st, Answered rp sd) (st', ph')"

text \<open>
  The process: the shared state and the requests there are, of which any may take the next step,
  and any request may arrive.
\<close>

type_synonym gateway_run = "gw_state \<times> phase multiset"

inductive moves :: "viiwork \<Rightarrow> router \<Rightarrow> gateway_run \<Rightarrow> gateway_run \<Rightarrow> bool" for V rt where
    arrive: "moves V rt (st, M) (st, add_mset (enter V r sd) M)"
  | progress: "step V rt (st, ph) (st', ph') \<Longrightarrow> moves V rt (st, add_mset ph M) (st', add_mset ph' M)"

text \<open>The states after a number of moves from a fresh gateway.\<close>

inductive reached :: "viiwork \<Rightarrow> router \<Rightarrow> gw_state \<Rightarrow> nat \<Rightarrow> gateway_run \<Rightarrow> bool" for V rt st0 where
    start: "reached V rt st0 0 (st0, {#})"
  | next_move: "reached V rt st0 n s \<Longrightarrow> moves V rt s s' \<Longrightarrow> reached V rt st0 (Suc n) s'"

section \<open>What each request holds\<close>

fun has_token_held :: "phase \<Rightarrow> bool" where
  "has_token_held (Metered r sd) = False"
| "has_token_held (Admitted r sd) = False"
| "has_token_held (Arriving r sd) = False"
| "has_token_held (Answered rp sd) = False"
| "has_token_held ph = True"

fun reservation_held :: "phase \<Rightarrow> 64 word multiset" where
  "reservation_held (First r b sd t rid) = {#rid#}"
| "reservation_held (Second r sd t rid) = {#rid#}"
| "reservation_held ph = {#}"

definition tokens_held :: "phase multiset \<Rightarrow> nat" where
  "tokens_held M = size (filter_mset has_token_held M)"

definition reservations_held :: "phase multiset \<Rightarrow> 64 word multiset" where
  "reservations_held M = \<Sum>\<^sub># (image_mset reservation_held M)"

lemma held_simps [simp]:
  "tokens_held {#} = 0" "reservations_held {#} = {#}"
  "tokens_held (add_mset ph M) = (if has_token_held ph then 1 else 0) + tokens_held M"
  "reservations_held (add_mset ph M) = reservation_held ph + reservations_held M"
  by (simp_all add: tokens_held_def reservations_held_def)

lemma enter_holds: "\<not> has_token_held (enter V r sd)" "reservation_held (enter V r sd) = {#}"
  by (simp_all add: enter_def Let_def)

text \<open>
  The invariant: the count of tokens is the number of requests holding one, at most the cap, and
  the reservations of the picker are those of the forwards under way.
\<close>

definition run_inv :: "router \<Rightarrow> gateway_run \<Rightarrow> bool" where
  "run_inv rt s \<longleftrightarrow>
     in_flight (fst s) = tokens_held (snd s) \<and> in_flight (fst s) \<le> rt_capacity rt \<and>
     picker_inv (fleet (fst s)) \<and> outstanding (fleet (fst s)) = reservations_held (snd s)"

lemma release_keeps:
  assumes "picker_inv p" "outstanding p = add_mset rid R"
  shows "picker_inv (delete_held rid p)" "outstanding (delete_held rid p) = R" "id_budget (delete_held rid p) = id_budget p"
  using mesh_fleet.release_takes [OF assms(1), of rid] assms(2) by simp_all

lemma step_keeps:
  assumes "step V rt (st, ph) (st', ph')" "run_inv rt (st, add_mset ph M)" "0 < id_budget (fleet st)"
  shows "run_inv rt (st', add_mset ph' M) \<and> id_budget (fleet st) \<le> id_budget (fleet st') + 1"
proof -
  have i: "in_flight st = tokens_held (add_mset ph M)" "in_flight st \<le> rt_capacity rt" "picker_inv (fleet st)"
    "outstanding (fleet st) = reservations_held (add_mset ph M)"
    using assms(2) by (simp_all add: run_inv_def)
  note v = mesh_fleet.view_keeps [OF i(3)]
  from assms(1) show ?thesis
  proof cases
    case (pick e b t rid p r sd)
    with mesh_fleet.pick_gives [OF i(3) assms(3) pick(4)] i show ?thesis by (simp add: run_inv_def)
  next
    case (repick e b t t2 rid p r sd)
    with mesh_fleet.pick_gives [OF i(3) assms(3) repick(4)] i show ?thesis by (simp add: run_inv_def)
  next
    case (no_pick e b p r sd)
    with mesh_fleet.pick_none [OF no_pick(4)] i show ?thesis by (simp add: run_inv_def)
  next
    case (no_repick e b t p r sd)
    with mesh_fleet.pick_none [OF no_repick(4)] i show ?thesis by (simp add: run_inv_def)
  next
    case (wrote tr r t rid rp b sd)
    with release_keeps [OF i(3), of rid "reservations_held M"] i show ?thesis
      by (auto simp: run_inv_def forward_holding_def)
  next
    case (unreachable tr r t rid b sd)
    with release_keeps [OF i(3), of rid "reservations_held M"] i show ?thesis
      by (auto simp: run_inv_def forward_holding_def)
  next
    case (second tr r t rid f sd)
    with release_keeps [OF i(3), of rid "reservations_held M"] i show ?thesis
      by (auto simp: run_inv_def forward_holding_def)
  next
    case (viewed tr r t sd rp sd')
    with i show ?thesis by (auto simp: run_inv_def to_view_def)
  qed (use i in \<open>auto simp: run_inv_def try_acquire_def release_token_def dest: v split: if_splits\<close>)
qed

end
