(* ===== verification/SystemSpec.thy ===== *)
theory SystemSpec
  imports System
begin

text \<open>
  The properties of the interleaved gateway: the cap and the reservations hold at every moment, each
  request comes to an answer in a bounded number of its own steps, and a request that runs alone is
  the function \<open>serve_http\<close> of theory Router.
\<close>

section \<open>Invariants\<close>

definition fresh :: "gw_state \<Rightarrow> bool" where
  "fresh st \<longleftrightarrow> in_flight st = 0 \<and> (\<exists>stale views. fleet st = new_picker stale views)"

lemma fresh_inv: "fresh st \<Longrightarrow> run_inv rt (st, {#}) \<and> id_budget (fleet st) = 2 ^ 64 - 1"
  by (auto simp: fresh_def run_inv_def new_picker_inv outstanding_def id_budget_def)
    (simp_all add: new_picker_def)

lemma reached_inv:
  assumes "reached V rt st0 n s" "fresh st0" "n < 2 ^ 64"
  shows "run_inv rt s \<and> 2 ^ 64 - 1 \<le> id_budget (fleet (fst s)) + n"
  using assms
proof (induction rule: reached.induct)
  case start
  with fresh_inv [of st0 rt] show ?case by simp
next
  case (next_move n s s')
  then have i: "run_inv rt s" "2 ^ 64 - 1 \<le> id_budget (fleet (fst s)) + n" by simp_all
  from next_move.hyps(2) show ?case
  proof cases
    case (arrive st M r sd)
    with i show ?thesis by (auto simp: run_inv_def enter_holds)
  next
    case (progress st ph st' ph' M)
    moreover have "0 < id_budget (fleet st)" using i(2) progress(1) next_move.prems(2) by simp
    ultimately show ?thesis using step_keeps [of V rt st ph st' ph' M] i by auto
  qed
qed

text \<open>C3: The concurrency cap holds at every moment. However requests arrive and interleave, the number
  of tokens taken is the number of requests between taking one and giving it back, and it never
  exceeds the cap; the cap bounds the bodies in memory, since a body is only read with a token.\<close>

theorem cap_holds:
  assumes "reached V rt st0 n (st, M)" and "fresh st0" and "n < 2 ^ 64"
  shows "in_flight st = tokens_held M \<and> tokens_held M \<le> rt_capacity rt"
  using reached_inv [OF assms] by (auto simp: run_inv_def)

text \<open>C5: The picker's reservations are exactly those of the forwards under way, each once. None outlives
  its forward and none is given back early, in any interleaving; once every request is answered the
  count is zero and nothing is reserved.\<close>

theorem reservations_owned:
  assumes "reached V rt st0 n (st, M)" and "fresh st0" and "n < 2 ^ 64"
  shows "outstanding (fleet st) = reservations_held M \<and> distinct (map fst (held (fleet st))) \<and>
     ((\<forall>ph \<in># M. \<exists>rp sd. ph = Answered rp sd) \<longrightarrow> in_flight st = 0 \<and> held (fleet st) = [])"
proof -
  have i: "run_inv rt (st, M)" using reached_inv [OF assms] by simp
  have "tokens_held N = 0 \<and> reservations_held N = {#}" if "\<forall>ph \<in># N. \<exists>rp sd. ph = Answered rp sd" for N
    using that by (induction N) auto
  with i show ?thesis by (auto simp: run_inv_def picker_inv_def outstanding_def)
qed

lemma sample_fresh: "fresh sample_state"
  by (auto simp: fresh_def sample_state_def sample_picker_def)

lemma sample_enter: "enter sample_viiwork sample_wire sample_side = Arriving sample_wire sample_side"
  unfolding enter_def sample_wire_def sample_viiwork_def is_power_path_def is_alias_write_def by code_simp

text \<open>Two requests of which one has taken its token.\<close>

lemma sample_reached:
  "reached sample_viiwork sample_router sample_state 3
     (sample_state\<lparr>in_flight := 1\<rparr>, {#Entered sample_wire sample_side, Arriving sample_wire sample_side#})"
proof -
  note e = sample_enter
  have "moves sample_viiwork sample_router (sample_state, {#}) (sample_state, {#Arriving sample_wire sample_side#})"
    using arrive [of sample_viiwork sample_router sample_state "{#}" sample_wire sample_side] e by simp
  moreover have "moves sample_viiwork sample_router (sample_state, {#Arriving sample_wire sample_side#})
      (sample_state, {#Arriving sample_wire sample_side, Arriving sample_wire sample_side#})"
    using arrive [of sample_viiwork sample_router sample_state "{#Arriving sample_wire sample_side#}" sample_wire sample_side] e by simp
  moreover have "try_acquire sample_router sample_state = Some (sample_state\<lparr>in_flight := 1\<rparr>)"
    by (simp add: try_acquire_def sample_router_def new_router_def sample_state_def)
  then have "moves sample_viiwork sample_router (sample_state, {#Arriving sample_wire sample_side, Arriving sample_wire sample_side#})
      (sample_state\<lparr>in_flight := 1\<rparr>, {#Entered sample_wire sample_side, Arriving sample_wire sample_side#})"
    by (intro progress view_acquire)
  ultimately show ?thesis
    using reached.start [of sample_viiwork sample_router sample_state] reached.next_move
    unfolding numeral_3_eq_3 by metis
qed

theorem cap_holds_witness:
  "in_flight (sample_state\<lparr>in_flight := 1\<rparr>) =
   tokens_held {#Entered sample_wire sample_side, Arriving sample_wire sample_side#}"
  using cap_holds [OF sample_reached sample_fresh] by simp

theorem reservations_owned_witness:
  "outstanding (fleet (sample_state\<lparr>in_flight := 1\<rparr>)) =
   reservations_held {#Entered sample_wire sample_side, Arriving sample_wire sample_side#}"
  using reservations_owned [OF sample_reached sample_fresh] by simp

section \<open>Every request is answered\<close>

fun steps_left :: "phase \<Rightarrow> nat" where
  "steps_left (Metered r sd) = 8"
| "steps_left (Admitted r sd) = 7"
| "steps_left (Reading r sd) = 6"
| "steps_left (Parsed r b sd) = 5"
| "steps_left (First r b sd t rid) = 4"
| "steps_left (Retry r b sd t) = 3"
| "steps_left (Second r sd t rid) = 2"
| "steps_left (Fallback r sd) = 3"
| "steps_left (Arriving r sd) = 5"
| "steps_left (Entered r sd) = 4"
| "steps_left (Chosen r sd t) = 3"
| "steps_left (Viewing r sd t) = 2"
| "steps_left (Leaving rp sd) = 1"
| "steps_left (Answered rp sd) = 0"

lemma step_decreases: "step V rt (st, ph) (st', ph') \<Longrightarrow> steps_left ph' < steps_left ph"
  by (erule step_cases) simp_all

lemma enter_steps: "steps_left (enter V r sd) \<le> 8"
  by (simp add: enter_def Let_def)

lemma step_exists:
  assumes "\<forall>rp sd. ph \<noteq> Answered rp sd"
  shows "\<exists>st' ph'. step V rt (st, ph) (st', ph')"
proof (cases ph)
  case (Metered r sd)
  obtain ok wait lm where "allow (\<lambda>_. 0) (limits st) (label_from_context r) 0 = ((ok, wait), lm)"
    by (cases "allow (\<lambda>_. 0) (limits st) (label_from_context r) 0") auto
  with Metered show ?thesis by (cases ok) (auto intro: limit_pass limit_deny)
next
  case (Admitted r sd)
  then show ?thesis by (cases "try_acquire rt st") (auto intro: full acquire)
next
  case (Reading r sd)
  obtain x sd' where x: "read_body rt 0 r sd = (x, sd')" by (cases "read_body rt 0 r sd")
  with Reading show ?thesis by (cases x) (auto intro: body body_error)
next
  case (Parsed r b sd)
  obtain x p where x: "fleet_pick V undefined (json_model b) [] (fleet st) = (x, p)"
    by (cases "fleet_pick V undefined (json_model b) [] (fleet st)")
  with Parsed show ?thesis by (cases x) (auto intro: pick no_pick)
next
  case (First r b sd t rid)
  obtain f st' where f: "forward_holding (\<lambda>_. dial_failed) r (t_api_addr t) rid st = (f, st')"
    by (cases "forward_holding (\<lambda>_. dial_failed) r (t_api_addr t) rid st")
  with First show ?thesis by (cases f) (auto intro: wrote unreachable)
next
  case (Retry r b sd t)
  obtain x p where x: "fleet_pick V undefined (json_model b) [t_node t] (fleet st) = (x, p)"
    by (cases "fleet_pick V undefined (json_model b) [t_node t] (fleet st)")
  with Retry show ?thesis by (cases x) (auto intro: repick no_repick)
next
  case (Second r sd t rid)
  obtain f st' where "forward_holding (\<lambda>_. dial_failed) r (t_api_addr t) rid st = (f, st')"
    by (cases "forward_holding (\<lambda>_. dial_failed) r (t_api_addr t) rid st")
  with Second show ?thesis by (auto intro: second)
next
  case (Fallback r sd)
  obtain x p where x: "fleet_view V undefined (fleet st) = (x, p)" by (cases "fleet_view V undefined (fleet st)")
  with Fallback show ?thesis by (cases x) (auto intro: fallback no_fallback)
next
  case (Arriving r sd)
  then show ?thesis by (cases "try_acquire rt st") (auto intro: view_full view_acquire)
next
  case (Entered r sd)
  obtain x p where x: "fleet_view V undefined (fleet st) = (x, p)" by (cases "fleet_view V undefined (fleet st)")
  with Entered show ?thesis by (cases x) (auto intro: view no_view)
next
  case (Chosen r sd t)
  obtain x sd' where x: "read_body rt 0 r sd = (x, sd')" by (cases "read_body rt 0 r sd")
  with Chosen show ?thesis by (cases x) (auto intro: view_body view_body_error)
next
  case (Viewing r sd t)
  obtain rp sd' st' where "to_view (\<lambda>_. dial_failed) r t sd st = (rp, sd', st')"
    by (cases "to_view (\<lambda>_. dial_failed) r t sd st") auto
  with Viewing show ?thesis by (auto intro: viewed)
qed (use assms in \<open>auto intro: leave\<close>)

text \<open>A step of a request with the shared state left open: others may have changed it since its last.\<close>

definition own_step :: "viiwork \<Rightarrow> router \<Rightarrow> phase \<Rightarrow> phase \<Rightarrow> bool" where
  "own_step V rt ph ph' \<longleftrightarrow> (\<exists>st st'. step V rt (st, ph) (st', ph'))"

lemma steps_bounded: "(own_step V rt ^^ k) ph ph' \<Longrightarrow> k + steps_left ph' \<le> steps_left ph"
proof (induction k arbitrary: ph')
  case (Suc k)
  then obtain ph1 where "(own_step V rt ^^ k) ph ph1" "own_step V rt ph1 ph'" by auto
  with Suc.IH [of ph1] show ?case using step_decreases by (fastforce simp: own_step_def)
qed simp

text \<open>Every request comes to an answer. Whatever the others do to the shared state before each of its
  steps, a request takes at most eight of them, one retry included, and it can only stop where it
  has been answered: in no phase and in no shared state does it wait for another request.\<close>

theorem request_terminates:
  assumes "(own_step V rt ^^ k) (enter V r sd) ph"
  shows "k \<le> 8 \<and> ((\<exists>st' ph'. step V rt (st, ph) (st', ph')) \<longleftrightarrow> (\<forall>rp sd'. ph \<noteq> Answered rp sd'))"
proof -
  have "k \<le> 8" using steps_bounded [OF assms] enter_steps [of V r sd] by simp
  moreover have "\<not> step V rt (st, Answered rp sd') (st', ph')" for rp sd' st' ph'
    using step_decreases [of V rt st "Answered rp sd'" st' ph'] by auto
  ultimately show ?thesis using step_exists [of ph V rt st] by blast
qed

theorem request_terminates_witness:
  "own_step sample_viiwork sample_router (enter sample_viiwork sample_wire sample_side) (Entered sample_wire sample_side) \<and>
   (\<exists>st' ph'. step sample_viiwork sample_router (sample_state, Entered sample_wire sample_side) (st', ph'))"
proof -
  note e = sample_enter
  have "try_acquire sample_router sample_state = Some (sample_state\<lparr>in_flight := 1\<rparr>)"
    by (simp add: try_acquire_def sample_router_def new_router_def sample_state_def)
  from view_acquire [OF this, of sample_viiwork sample_wire sample_side]
  have o: "own_step sample_viiwork sample_router (enter sample_viiwork sample_wire sample_side) (Entered sample_wire sample_side)"
    unfolding own_step_def e by blast
  then have "(own_step sample_viiwork sample_router ^^ 1) (enter sample_viiwork sample_wire sample_side) (Entered sample_wire sample_side)"
    by (simp add: relcompp_apply)
  from request_terminates [OF this] o show ?thesis by blast
qed

section \<open>A request alone\<close>

text \<open>What a request can be answered with if nothing else moves: reply, holder and state.\<close>

definition ends :: "viiwork \<Rightarrow> router \<Rightarrow> gw_state \<Rightarrow> phase \<Rightarrow> handled \<Rightarrow> bool" where
  "ends V rt st ph x \<longleftrightarrow> (\<exists>rp sd st'. x = (rp, sd, st') \<and> (step V rt)\<^sup>*\<^sup>* (st, ph) (st', Answered rp sd))"

lemma ends_answered: "ends V rt st (Answered rp sd) x \<longleftrightarrow> x = (rp, sd, st)"
proof -
  have "(step V rt)\<^sup>*\<^sup>* (st, Answered rp sd) s \<longleftrightarrow> s = (st, Answered rp sd)" for s
    using step_simps(14) by (metis converse_rtranclpE rtranclp.rtrancl_refl surj_pair)
  then show ?thesis by (auto simp: ends_def)
qed

lemma ends_step:
  assumes "\<forall>rp sd. ph \<noteq> Answered rp sd"
  shows "ends V rt st ph x \<longleftrightarrow> (\<exists>st1 ph1. step V rt (st, ph) (st1, ph1) \<and> ends V rt st1 ph1 x)"
proof
  assume "ends V rt st ph x"
  then obtain rp sd st' where x: "x = (rp, sd, st')" and s: "(step V rt)\<^sup>*\<^sup>* (st, ph) (st', Answered rp sd)"
    by (auto simp: ends_def)
  from s obtain s1 where "step V rt (st, ph) s1" "(step V rt)\<^sup>*\<^sup>* s1 (st', Answered rp sd)"
    using assms by (metis Pair_inject converse_rtranclpE)
  then show "\<exists>st1 ph1. step V rt (st, ph) (st1, ph1) \<and> ends V rt st1 ph1 x"
    using x by (cases s1) (auto simp: ends_def)
next
  assume "\<exists>st1 ph1. step V rt (st, ph) (st1, ph1) \<and> ends V rt st1 ph1 x"
  then show "ends V rt st ph x" by (auto simp: ends_def intro: converse_rtranclp_into_rtranclp)
qed

lemma ends_by: "step V rt (st, ph) (st1, ph1) \<Longrightarrow> ends V rt st1 ph1 x \<Longrightarrow> ends V rt st ph x"
  by (auto simp: ends_def intro: converse_rtranclp_into_rtranclp)

definition given_back :: "handled \<Rightarrow> handled" where
  "given_back x = (case x of (rp, sd, st) \<Rightarrow> (rp, sd, release_token st))"

lemma ends_leaving: "ends V rt st (Leaving rp sd) x \<longleftrightarrow> x = given_back (rp, sd, st)"
  by (subst ends_step) (auto simp: step_simps ends_answered given_back_def)

lemma ends_viewing: "ends V rt st (Viewing r sd t) x \<longleftrightarrow> (\<exists>tr. x = given_back (to_view tr r t sd st))"
  by (subst ends_step) (auto simp: step_simps ends_leaving to_view_def)

lemma ends_second:
  "ends V rt st (Second r sd t rid) x \<longleftrightarrow>
   (\<exists>tr. x = given_back (settle (forward_to tr r (t_api_addr t)) (t_node t), sd, st\<lparr>fleet := delete_held rid (fleet st)\<rparr>))"
  by (subst ends_step) (auto simp: step_simps ends_leaving forward_holding_def)

lemma ends_retry:
  "ends V rt st (Retry (reset_body r b) b sd t) x \<longleftrightarrow>
   (\<exists>env. x = given_back (retry_elsewhere V env r b (json_model b) t sd st))"
proof
  let ?r = "reset_body r b"
  assume "ends V rt st (Retry ?r b sd t) x"
  then consider e t2 rid p tr where "fleet_pick V e (json_model b) [t_node t] (fleet st) = (Some (t2, rid), p)"
      "x = given_back (settle (forward_to tr ?r (t_api_addr t2)) (t_node t2), set_node ?r (t_node t2) sd,
         st\<lparr>fleet := delete_held rid p\<rparr>)"
    | e p where "fleet_pick V e (json_model b) [t_node t] (fleet st) = (None, p)"
      "x = given_back (Reply [] (unreachable_error (t_node t)), sd, st\<lparr>fleet := p\<rparr>)"
    by (subst (asm) ends_step) (auto simp: step_simps ends_leaving ends_second)
  then show "\<exists>env. x = given_back (retry_elsewhere V env r b (json_model b) t sd st)"
  proof cases
    case 1
    then show ?thesis
      by (intro exI [of _ "undefined\<lparr>re_retry := e, re_second := tr\<rparr>"])
        (simp add: retry_elsewhere_def forward_holding_def Let_def)
  next
    case 2
    then show ?thesis by (intro exI [of _ "undefined\<lparr>re_retry := e\<rparr>"]) (simp add: retry_elsewhere_def Let_def)
  qed
next
  let ?r = "reset_body r b"
  assume "\<exists>env. x = given_back (retry_elsewhere V env r b (json_model b) t sd st)"
  then obtain env where x: "x = given_back (retry_elsewhere V env r b (json_model b) t sd st)" ..
  obtain y p where y: "fleet_pick V (re_retry env) (json_model b) [t_node t] (fleet st) = (y, p)"
    by (cases "fleet_pick V (re_retry env) (json_model b) [t_node t] (fleet st)")
  show "ends V rt st (Retry ?r b sd t) x"
  proof (cases y)
    case None
    with y have "fleet_pick V (re_retry env) (json_model b) [t_node t] (fleet st) = (None, p)" by simp
    with x show ?thesis
      by (intro ends_by [OF no_repick]) (simp_all add: retry_elsewhere_def Let_def ends_leaving)
  next
    case (Some tr)
    then obtain t2 rid where "y = Some (t2, rid)" by (cases tr) auto
    with y have "fleet_pick V (re_retry env) (json_model b) [t_node t] (fleet st) = (Some (t2, rid), p)" by simp
    with x show ?thesis
      by (intro ends_by [OF repick]) (auto simp: retry_elsewhere_def forward_holding_def Let_def ends_second)
  qed
qed

lemma retry_first: "retry_elsewhere V (env\<lparr>re_first := f\<rparr>) r b model t sd st = retry_elsewhere V env r b model t sd st"
  by (simp add: retry_elsewhere_def Let_def split: prod.split option.split)

definition first_out :: "viiwork \<Rightarrow> route_env \<Rightarrow> request \<Rightarrow> string \<Rightarrow> side \<Rightarrow> target \<Rightarrow> gw_state \<Rightarrow> handled" where
  "first_out V env r b sd t st =
     (case forward_to (re_first env) r (t_api_addr t) of
        Wrote rp \<Rightarrow> (rp, sd, st)
      | Unreachable \<Rightarrow> retry_elsewhere V env r b (json_model b) t sd st)"

definition view_out :: "viiwork \<Rightarrow> fleet_env \<Rightarrow> (outbound \<Rightarrow> upstream) \<Rightarrow> request \<Rightarrow> side \<Rightarrow> gw_state \<Rightarrow> handled" where
  "view_out V e tr r sd st =
     (case fleet_view V e (fleet st) of
        (None, p) \<Rightarrow> (Reply [] no_healthy_node, sd, st\<lparr>fleet := p\<rparr>)
      | (Some t, p) \<Rightarrow> to_view tr r t sd (st\<lparr>fleet := p\<rparr>))"

lemma model_forward_out:
  "model_forward V env r b sd st =
     (let sd = set_model r (json_model b) sd
      in case fleet_pick V (re_pick env) (json_model b) [] (fleet st) of
           (None, p) \<Rightarrow> view_out V (re_view env) (re_first env) r sd (st\<lparr>fleet := p\<rparr>)
         | (Some (t, rid), p) \<Rightarrow> first_out V env r b (set_node r (t_node t) sd) t (st\<lparr>fleet := delete_held rid p\<rparr>))"
  by (simp add: model_forward_def first_out_def view_out_def forward_holding_def Let_def
      split: prod.split option.split forwarded.split)

lemma ends_first:
  "ends V rt st (First r b sd t rid) x \<longleftrightarrow>
   (\<exists>env. x = given_back (first_out V env r b sd t (st\<lparr>fleet := delete_held rid (fleet st)\<rparr>)))" (is "_ \<longleftrightarrow> ?R")
proof
  let ?st = "st\<lparr>fleet := delete_held rid (fleet st)\<rparr>"
  assume "ends V rt st (First r b sd t rid) x"
  then consider tr rp where "forward_to tr r (t_api_addr t) = Wrote rp" "x = given_back (rp, sd, ?st)"
    | tr env where "forward_to tr r (t_api_addr t) = Unreachable"
      "x = given_back (retry_elsewhere V env r b (json_model b) t sd ?st)"
    by (subst (asm) ends_step) (auto simp: step_simps ends_leaving ends_retry forward_holding_def)
  then show ?R
  proof cases
    case 1
    then show ?thesis by (intro exI [of _ "undefined\<lparr>re_first := tr\<rparr>"]) (simp add: first_out_def)
  next
    case 2
    then show ?thesis by (intro exI [of _ "env\<lparr>re_first := tr\<rparr>"]) (simp add: first_out_def retry_first)
  qed
next
  let ?st = "st\<lparr>fleet := delete_held rid (fleet st)\<rparr>"
  assume ?R
  then obtain env where x: "x = given_back (first_out V env r b sd t ?st)" ..
  show "ends V rt st (First r b sd t rid) x"
  proof (cases "forward_to (re_first env) r (t_api_addr t)")
    case (Wrote rp)
    then have "forward_holding (re_first env) r (t_api_addr t) rid st = (Wrote rp, ?st)" by (simp add: forward_holding_def)
    with x Wrote show ?thesis by (intro ends_by [OF wrote]) (simp_all add: ends_leaving first_out_def)
  next
    case Unreachable
    then have "forward_holding (re_first env) r (t_api_addr t) rid st = (Unreachable, ?st)" by (simp add: forward_holding_def)
    with x Unreachable show ?thesis by (intro ends_by [OF unreachable]) (auto simp: ends_retry first_out_def)
  qed
qed

lemma ends_fallback:
  "ends V rt st (Fallback r sd) x \<longleftrightarrow> (\<exists>e tr. x = given_back (view_out V e tr r sd st))" (is "_ \<longleftrightarrow> ?R")
proof
  assume "ends V rt st (Fallback r sd) x"
  then consider e p where "fleet_view V e (fleet st) = (None, p)" "x = given_back (Reply [] no_healthy_node, sd, st\<lparr>fleet := p\<rparr>)"
    | e t p tr where "fleet_view V e (fleet st) = (Some t, p)" "x = given_back (to_view tr r t sd (st\<lparr>fleet := p\<rparr>))"
    by (subst (asm) ends_step) (auto simp: step_simps ends_leaving ends_viewing)
  then show ?R
  proof cases
    case 1
    then show ?thesis by (intro exI [of _ e]) (simp add: view_out_def)
  next
    case 2
    then show ?thesis by (intro exI [of _ e] exI [of _ tr]) (simp add: view_out_def)
  qed
next
  assume ?R
  then obtain e tr where x: "x = given_back (view_out V e tr r sd st)" by blast
  obtain y p where y: "fleet_view V e (fleet st) = (y, p)" by (cases "fleet_view V e (fleet st)")
  show "ends V rt st (Fallback r sd) x"
  proof (cases y)
    case None
    with x y show ?thesis by (intro ends_by [OF no_fallback]) (auto simp: ends_leaving view_out_def)
  next
    case (Some t)
    with x y show ?thesis by (intro ends_by [OF fallback]) (auto simp: ends_viewing view_out_def)
  qed
qed

lemma ends_parsed:
  "ends V rt st (Parsed r b (set_model r (json_model b) sd)) x \<longleftrightarrow>
   (\<exists>env. x = given_back (model_forward V env r b sd st))" (is "?L \<longleftrightarrow> ?R")
proof
  let ?sd = "set_model r (json_model b) sd"
  assume ?L
  then consider e p e2 tr where "fleet_pick V e (json_model b) [] (fleet st) = (None, p)"
      "x = given_back (view_out V e2 tr r ?sd (st\<lparr>fleet := p\<rparr>))"
    | e t rid p env where "fleet_pick V e (json_model b) [] (fleet st) = (Some (t, rid), p)"
      "x = given_back (first_out V env r b (set_node r (t_node t) ?sd) t (st\<lparr>fleet := delete_held rid p\<rparr>))"
    by (subst (asm) ends_step) (auto simp: step_simps ends_first ends_fallback)
  then show ?R
  proof cases
    case 1
    then show ?thesis
      by (intro exI [of _ "undefined\<lparr>re_pick := e, re_view := e2, re_first := tr\<rparr>"]) (simp add: model_forward_out)
  next
    case 2
    have "first_out V (env\<lparr>re_pick := e\<rparr>) r b sd t st = first_out V env r b sd t st" for sd st
      by (simp add: first_out_def retry_elsewhere_def Let_def split: forwarded.split prod.split option.split)
    with 2 show ?thesis by (intro exI [of _ "env\<lparr>re_pick := e\<rparr>"]) (simp add: model_forward_out)
  qed
next
  let ?sd = "set_model r (json_model b) sd"
  assume ?R
  then obtain env where x: "x = given_back (model_forward V env r b sd st)" ..
  obtain y p where y: "fleet_pick V (re_pick env) (json_model b) [] (fleet st) = (y, p)"
    by (cases "fleet_pick V (re_pick env) (json_model b) [] (fleet st)")
  show ?L
  proof (cases y)
    case None
    with y have k: "fleet_pick V (re_pick env) (json_model b) [] (fleet st) = (None, p)" by simp
    have "ends V rt (st\<lparr>fleet := p\<rparr>) (Fallback r ?sd) x" unfolding ends_fallback using x k
      by (intro exI [of _ "re_view env"] exI [of _ "re_first env"]) (simp add: model_forward_out)
    then show ?thesis by (rule ends_by [OF no_pick [OF k]])
  next
    case (Some tr)
    then obtain t rid where "y = Some (t, rid)" by (cases tr) auto
    with y have k: "fleet_pick V (re_pick env) (json_model b) [] (fleet st) = (Some (t, rid), p)" by simp
    have "ends V rt (st\<lparr>fleet := p\<rparr>) (First r b (set_node r (t_node t) ?sd) t rid) x" unfolding ends_first using x k
      by (intro exI [of _ env]) (simp add: model_forward_out)
    then show ?thesis by (rule ends_by [OF pick [OF k]])
  qed
qed

definition token_body :: "viiwork \<Rightarrow> router \<Rightarrow> route_env \<Rightarrow> request \<Rightarrow> side \<Rightarrow> gw_state \<Rightarrow> handled" where
  "token_body V rt env r sd st =
     (case read_body rt (re_body_now env) r sd of
        (Inl e, sd) \<Rightarrow> (Reply [] (body_error_reply e), sd, st)
      | (Inr (body, r), sd) \<Rightarrow> model_forward V env r body sd st)"

lemma model_forward_clocks:
  "model_forward V (env\<lparr>re_body_now := n\<rparr>) r b sd st = model_forward V env r b sd st"
  "model_forward V (env\<lparr>re_oor := q, re_limit_now := m\<rparr>) r b sd st = model_forward V env r b sd st"
  by (simp_all add: model_forward_out first_out_def retry_elsewhere_def Let_def split: prod.split option.split forwarded.split)

lemma ends_reading:
  "ends V rt st (Reading r sd) x \<longleftrightarrow> (\<exists>env. x = given_back (token_body V rt env r sd st))" (is "_ \<longleftrightarrow> ?R")
proof
  assume "ends V rt st (Reading r sd) x"
  then consider n b r' sd' env where "read_body rt n r sd = (Inr (b, r'), sd')" "x = given_back (model_forward V env r' b sd' st)"
    | n e sd' where "read_body rt n r sd = (Inl e, sd')" "x = given_back (Reply [] (body_error_reply e), sd', st)"
    by (subst (asm) ends_step) (auto simp: step_simps ends_parsed ends_leaving)
  then show ?R
  proof cases
    case 1
    then show ?thesis by (intro exI [of _ "env\<lparr>re_body_now := n\<rparr>"]) (simp add: token_body_def model_forward_clocks)
  next
    case 2
    then show ?thesis by (intro exI [of _ "undefined\<lparr>re_body_now := n\<rparr>"]) (simp add: token_body_def)
  qed
next
  assume ?R
  then obtain env where x: "x = given_back (token_body V rt env r sd st)" ..
  obtain y sd' where y: "read_body rt (re_body_now env) r sd = (y, sd')" by (cases "read_body rt (re_body_now env) r sd")
  show "ends V rt st (Reading r sd) x"
  proof (cases y)
    case (Inl e)
    with x y show ?thesis by (intro ends_by [OF body_error]) (auto simp: ends_leaving token_body_def)
  next
    case (Inr br)
    then obtain b r' where br: "y = Inr (b, r')" by (cases br) auto
    with y have k: "read_body rt (re_body_now env) r sd = (Inr (b, r'), sd')" by simp
    have "ends V rt st (Parsed r' b (set_model r' (json_model b) sd')) x"
      unfolding ends_parsed using x k by (intro exI [of _ env]) (simp add: token_body_def)
    then show ?thesis by (rule ends_by [OF body [OF k]])
  qed
qed

lemma with_token_some: "try_acquire rt st = Some st' \<Longrightarrow> with_token rt sd st f = given_back (f st')"
  by (simp add: with_token_def given_back_def)

lemma with_token_none: "try_acquire rt st = None \<Longrightarrow> with_token rt sd st f = (Reply [] over_capacity, sd, st)"
  by (simp add: with_token_def)

lemma ends_admitted:
  "ends V rt st (Admitted r sd) x \<longleftrightarrow> (\<exists>env. x = with_token rt sd st (token_body V rt env r sd))"
  by (cases "try_acquire rt st"; subst ends_step)
    (auto simp: step_simps ends_reading ends_answered with_token_some with_token_none)

lemma route_by_model_out:
  "route_by_model V rt env r sd st =
     (case allow (re_oor env) (limits st) (label_from_context r) (re_limit_now env) of
        ((allowed, wait), lm) \<Rightarrow>
          if allowed then with_token rt sd (st\<lparr>limits := lm\<rparr>) (token_body V rt env r sd)
          else (Reply [] (rate_limited (re_oor env) wait), sd, st\<lparr>limits := lm\<rparr>))"
  by (simp add: route_by_model_def token_body_def [abs_def] Let_def split: prod.split)

lemma ends_metered:
  "ends V rt st (Metered r sd) x \<longleftrightarrow> (\<exists>env. x = route_by_model V rt env r sd st)" (is "_ \<longleftrightarrow> ?R")
proof
  assume "ends V rt st (Metered r sd) x"
  then consider q n w lm env where "allow q (limits st) (label_from_context r) n = ((True, w), lm)"
      "x = with_token rt sd (st\<lparr>limits := lm\<rparr>) (token_body V rt env r sd)"
    | q n w lm where "allow q (limits st) (label_from_context r) n = ((False, w), lm)"
      "x = (Reply [] (rate_limited q w), sd, st\<lparr>limits := lm\<rparr>)"
    by (subst (asm) ends_step) (auto simp: step_simps ends_admitted ends_answered)
  then show ?R
  proof cases
    case 1
    have "token_body V rt (env\<lparr>re_oor := q, re_limit_now := n\<rparr>) r sd = token_body V rt env r sd"
      by (rule ext) (simp add: token_body_def model_forward_clocks split: prod.split sum.split)
    with 1 show ?thesis by (intro exI [of _ "env\<lparr>re_oor := q, re_limit_now := n\<rparr>"]) (simp add: route_by_model_out)
  next
    case 2
    then show ?thesis by (intro exI [of _ "undefined\<lparr>re_oor := q, re_limit_now := n\<rparr>"]) (simp add: route_by_model_out)
  qed
next
  assume ?R
  then obtain env where x: "x = route_by_model V rt env r sd st" ..
  obtain ok w lm where a: "allow (re_oor env) (limits st) (label_from_context r) (re_limit_now env) = ((ok, w), lm)"
    by (cases "allow (re_oor env) (limits st) (label_from_context r) (re_limit_now env)") auto
  show "ends V rt st (Metered r sd) x"
  proof (cases ok)
    case True
    with a have k: "allow (re_oor env) (limits st) (label_from_context r) (re_limit_now env) = ((True, w), lm)" by simp
    have "ends V rt (st\<lparr>limits := lm\<rparr>) (Admitted r sd) x"
      unfolding ends_admitted using x k by (intro exI [of _ env]) (simp add: route_by_model_out)
    then show ?thesis by (rule ends_by [OF limit_pass [OF k]])
  next
    case False
    with a x show ?thesis by (intro ends_by [OF limit_deny]) (auto simp: ends_answered route_by_model_out)
  qed
qed

definition chosen_out :: "router \<Rightarrow> time \<Rightarrow> (outbound \<Rightarrow> upstream) \<Rightarrow> request \<Rightarrow> side \<Rightarrow> target \<Rightarrow> gw_state \<Rightarrow> handled" where
  "chosen_out rt n tr r sd t st =
     (case read_body rt n r sd of
        (Inl e, sd) \<Rightarrow> (Reply [] (body_error_reply e), sd, st)
      | (Inr (_, r), sd) \<Rightarrow> to_view tr r t sd st)"

lemma ends_chosen: "ends V rt st (Chosen r sd t) x \<longleftrightarrow> (\<exists>n tr. x = given_back (chosen_out rt n tr r sd t st))" (is "_ \<longleftrightarrow> ?R")
proof
  assume "ends V rt st (Chosen r sd t) x"
  then consider n b r' sd' tr where "read_body rt n r sd = (Inr (b, r'), sd')" "x = given_back (to_view tr r' t sd' st)"
    | n e sd' where "read_body rt n r sd = (Inl e, sd')" "x = given_back (Reply [] (body_error_reply e), sd', st)"
    by (subst (asm) ends_step) (auto simp: step_simps ends_viewing ends_leaving)
  then show ?R
  proof cases
    case 1
    then show ?thesis by (intro exI [of _ n] exI [of _ tr]) (simp add: chosen_out_def)
  next
    case 2
    then show ?thesis by (intro exI [of _ n]) (simp add: chosen_out_def)
  qed
next
  assume ?R
  then obtain n tr where x: "x = given_back (chosen_out rt n tr r sd t st)" by blast
  obtain y sd' where y: "read_body rt n r sd = (y, sd')" by (cases "read_body rt n r sd")
  show "ends V rt st (Chosen r sd t) x"
  proof (cases y)
    case (Inl e)
    with x y show ?thesis by (intro ends_by [OF view_body_error]) (auto simp: ends_leaving chosen_out_def)
  next
    case (Inr br)
    with x y show ?thesis by (cases br; intro ends_by [OF view_body]) (auto simp: ends_viewing chosen_out_def)
  qed
qed

definition entered_out :: "viiwork \<Rightarrow> router \<Rightarrow> route_env \<Rightarrow> request \<Rightarrow> side \<Rightarrow> gw_state \<Rightarrow> handled" where
  "entered_out V rt env r sd st =
     (case fleet_view V (re_view env) (fleet st) of
        (None, p) \<Rightarrow> (Reply [] no_healthy_node, sd, st\<lparr>fleet := p\<rparr>)
      | (Some t, p) \<Rightarrow> chosen_out rt (re_body_now env) (re_first env) r sd t (st\<lparr>fleet := p\<rparr>))"

lemma ends_entered: "ends V rt st (Entered r sd) x \<longleftrightarrow> (\<exists>env. x = given_back (entered_out V rt env r sd st))" (is "_ \<longleftrightarrow> ?R")
proof
  assume "ends V rt st (Entered r sd) x"
  then consider e p where "fleet_view V e (fleet st) = (None, p)" "x = given_back (Reply [] no_healthy_node, sd, st\<lparr>fleet := p\<rparr>)"
    | e t p n tr where "fleet_view V e (fleet st) = (Some t, p)" "x = given_back (chosen_out rt n tr r sd t (st\<lparr>fleet := p\<rparr>))"
    by (subst (asm) ends_step) (auto simp: step_simps ends_leaving ends_chosen)
  then show ?R
  proof cases
    case 1
    then show ?thesis by (intro exI [of _ "undefined\<lparr>re_view := e\<rparr>"]) (simp add: entered_out_def)
  next
    case 2
    then show ?thesis
      by (intro exI [of _ "undefined\<lparr>re_view := e, re_body_now := n, re_first := tr\<rparr>"]) (simp add: entered_out_def)
  qed
next
  assume ?R
  then obtain env where x: "x = given_back (entered_out V rt env r sd st)" ..
  obtain y p where y: "fleet_view V (re_view env) (fleet st) = (y, p)" by (cases "fleet_view V (re_view env) (fleet st)")
  show "ends V rt st (Entered r sd) x"
  proof (cases y)
    case None
    with x y show ?thesis by (intro ends_by [OF no_view]) (auto simp: ends_leaving entered_out_def)
  next
    case (Some t)
    with x y show ?thesis by (intro ends_by [OF view]) (auto simp: ends_chosen entered_out_def)
  qed
qed

lemma route_to_view_out: "route_to_view V rt env r sd st = with_token rt sd st (entered_out V rt env r sd)"
  by (simp add: route_to_view_def entered_out_def [abs_def] chosen_out_def cong: option.case_cong)

lemma ends_arriving: "ends V rt st (Arriving r sd) x \<longleftrightarrow> (\<exists>env. x = route_to_view V rt env r sd st)"
  by (cases "try_acquire rt st"; subst ends_step)
    (auto simp: step_simps ends_entered ends_answered route_to_view_out with_token_some with_token_none)

text \<open>A request that runs alone is the function of theory Router. The answers its steps can come to, with
  the state they leave, are exactly those \<open>serve_http\<close> gives for some clocks, meshes and transports;
  so what is proved of that function is proved of every uninterrupted request, and the steps
  neither add nor lose a behaviour.\<close>

theorem solo_refines:
  "(\<exists>env. serve_http V rt env r sd st = (rp, sd', st')) \<longleftrightarrow>
   (step V rt)\<^sup>*\<^sup>* (st, enter V r sd) (st', Answered rp sd')"
proof -
  have e: "ends V rt st (enter V r sd) x \<longleftrightarrow> (\<exists>env. x = serve_http V rt env r sd st)" for x
    by (simp add: enter_def serve_http_def Let_def ends_metered ends_arriving ends_answered refusal_def) blast
  have "(step V rt)\<^sup>*\<^sup>* (st, enter V r sd) (st', Answered rp sd') \<longleftrightarrow> ends V rt st (enter V r sd) (rp, sd', st')"
    by (simp add: ends_def)
  then show ?thesis unfolding e by metis
qed

end
