(* ===== verification/SystemBounds.thy ===== *)
theory SystemBounds
  imports SystemSpec
begin

text \<open>
  What the interleaved gateway is bounded by: the bytes of request bodies it holds at any moment, and
  the moves it can still make once no request arrives any more.
\<close>

section \<open>Bodies in memory\<close>

definition body_len :: "request \<Rightarrow> nat" where
  "body_len r = (case req_body r of None \<Rightarrow> 0 | Some s \<Rightarrow> length (arriving s))"

text \<open>
  The bytes of its body a request has buffered. While it is being read that is at most what the
  limited reader hands out, one byte more than the limit.
\<close>

definition reading_len :: "router \<Rightarrow> request \<Rightarrow> nat" where
  "reading_len rt r = min (body_len r) (nat (wrap64 (rt_max_body rt + 1)))"

fun buffered :: "router \<Rightarrow> phase \<Rightarrow> nat" where
  "buffered rt (Reading r sd) = reading_len rt r"
| "buffered rt (Chosen r sd t) = reading_len rt r"
| "buffered rt (Parsed r b sd) = length b"
| "buffered rt (First r b sd t rid) = length b"
| "buffered rt (Retry r b sd t) = length b"
| "buffered rt (Second r sd t rid) = body_len r"
| "buffered rt (Fallback r sd) = body_len r"
| "buffered rt (Viewing r sd t) = body_len r"
| "buffered rt ph = 0"

definition buffered_total :: "router \<Rightarrow> phase multiset \<Rightarrow> nat" where
  "buffered_total rt M = \<Sum>\<^sub># (image_mset (buffered rt) M)"

text \<open>A body that has been read is within the limit, and the copy kept for a retry is the request's.\<close>

fun body_ok :: "router \<Rightarrow> phase \<Rightarrow> bool" where
  "body_ok rt (Parsed r b sd) \<longleftrightarrow> body_len r = length b \<and> length b \<le> nat (rt_max_body rt)"
| "body_ok rt (First r b sd t rid) \<longleftrightarrow> length b \<le> nat (rt_max_body rt)"
| "body_ok rt (Retry r b sd t) \<longleftrightarrow> body_len r = length b \<and> length b \<le> nat (rt_max_body rt)"
| "body_ok rt (Second r sd t rid) \<longleftrightarrow> body_len r \<le> nat (rt_max_body rt)"
| "body_ok rt (Fallback r sd) \<longleftrightarrow> body_len r \<le> nat (rt_max_body rt)"
| "body_ok rt (Viewing r sd t) \<longleftrightarrow> body_len r \<le> nat (rt_max_body rt)"
| "body_ok rt ph \<longleftrightarrow> True"

lemma body_len_with: "body_len (with_body r b) = length b" "body_len (reset_body r b) = length b"
  by (simp_all add: body_len_def with_body_def reset_body_def)

lemma read_body_len:
  assumes "read_body rt now r sd = (Inr (b, r'), sd')" "0 \<le> rt_max_body rt"
  shows "body_len r' = length b \<and> length b \<le> nat (rt_max_body rt)"
  using assms
  by (cases "req_body r") (auto simp: read_body_def result_iff body_len_with not_less, auto simp: body_len_def)

lemma step_body_ok:
  assumes "step V rt (st, ph) (st', ph')" "body_ok rt ph" "0 \<le> rt_max_body rt"
  shows "body_ok rt ph'"
  using assms by (cases rule: step_cases) (auto dest: read_body_len simp: body_len_with)

lemma enter_body_ok: "body_ok rt (enter V r sd)"
  by (simp add: enter_def Let_def)

lemma reached_body_ok:
  assumes "reached V rt st0 n s" "0 \<le> rt_max_body rt"
  shows "\<forall>ph \<in># snd s. body_ok rt ph"
  using assms
proof (induction rule: reached.induct)
  case (next_move n s s')
  then have i: "\<forall>ph \<in># snd s. body_ok rt ph" by simp
  from next_move.hyps(2) show ?case
  proof cases
    case (arrive st M r sd)
    with i show ?thesis by (auto simp: enter_body_ok)
  next
    case (progress st ph st' ph' M)
    with i step_body_ok [OF progress(3)] next_move.prems show ?thesis by auto
  qed
qed simp

lemma wrap64_le: "- (2 ^ 63) \<le> n \<Longrightarrow> wrap64 n \<le> n"
  using zmod_le_nonneg_dividend [of "n + 2 ^ 63" "2 ^ 64"] by (simp add: wrap64_def)

lemma buffered_le:
  assumes "body_ok rt ph" "0 \<le> rt_max_body rt"
  shows "buffered rt ph \<le> (if has_token_held ph then nat (rt_max_body rt + 1) else 0)"
proof -
  have "nat (wrap64 (rt_max_body rt + 1)) \<le> nat (rt_max_body rt + 1)"
    using assms(2) by (intro nat_mono) (simp add: wrap64_le)
  then have "reading_len rt r \<le> nat (rt_max_body rt + 1)" for r by (simp add: reading_len_def)
  moreover have "nat (rt_max_body rt) \<le> nat (rt_max_body rt + 1)" by simp
  ultimately show ?thesis using assms(1) by (cases ph) (auto intro: order_trans)
qed

lemma buffered_total_le:
  assumes "\<forall>ph \<in># M. body_ok rt ph" "0 \<le> rt_max_body rt"
  shows "buffered_total rt M \<le> tokens_held M * nat (rt_max_body rt + 1)"
  using assms(1)
proof (induction M)
  case (add ph M)
  then have "buffered_total rt M \<le> tokens_held M * nat (rt_max_body rt + 1)" by simp
  moreover have "buffered rt ph \<le> (if has_token_held ph then nat (rt_max_body rt + 1) else 0)"
    using add.prems assms(2) by (intro buffered_le) simp_all
  ultimately show ?case by (auto simp: buffered_total_def algebra_simps split: if_splits)
qed (simp add: buffered_total_def)

text \<open>The memory for request bodies has a ceiling. However many requests arrive and however they
  interleave, the bodies buffered at any moment, those still being read included, are together at
  most the concurrency cap times one byte more than the body limit; a retry keeps no second copy.\<close>

lemma body_ceiling:
  assumes "reached V rt st0 n (st, M)" and "tokens_held M \<le> rt_capacity rt" and "0 \<le> rt_max_body rt"
  shows "buffered_total rt M \<le> rt_capacity rt * nat (rt_max_body rt + 1)"
proof -
  have "buffered_total rt M \<le> tokens_held M * nat (rt_max_body rt + 1)"
    using reached_body_ok [OF assms(1,3)] assms(3) by (intro buffered_total_le) simp_all
  then show ?thesis using assms(2) by (meson mult_le_mono1 order_trans)
qed

theorem memory_bounded:
  assumes "reached V rt st0 n (st, M)" and "fresh st0" and "n < 2 ^ 64" and "0 \<le> rt_max_body rt"
  shows "buffered_total rt M \<le> rt_capacity rt * nat (rt_max_body rt + 1)"
  using reached_inv [OF assms(1-3)] by (intro body_ceiling [OF assms(1) _ assms(4)]) (auto simp: run_inv_def)

theorem memory_bounded_witness:
  "buffered_total sample_router {#Entered sample_wire sample_side, Arriving sample_wire sample_side#} \<le>
   rt_capacity sample_router * nat (rt_max_body sample_router + 1)"
proof -
  have "0 \<le> rt_max_body sample_router" by (simp add: sample_router_def new_router_def)
  from memory_bounded [OF sample_reached sample_fresh _ this] show ?thesis by simp
qed

section \<open>Draining\<close>

definition answered :: "phase \<Rightarrow> bool" where
  "answered ph \<longleftrightarrow> (\<exists>rp sd. ph = Answered rp sd)"

definition unanswered :: "phase multiset \<Rightarrow> nat" where
  "unanswered M = size (filter_mset (\<lambda>ph. \<not> answered ph) M)"

text \<open>A move of the process in which nobody arrives, as after \<open>Shutdown\<close> has closed the listener.\<close>

inductive advances :: "viiwork \<Rightarrow> router \<Rightarrow> gateway_run \<Rightarrow> gateway_run \<Rightarrow> bool" for V rt where
    advance: "step V rt (st, ph) (st', ph') \<Longrightarrow> advances V rt (st, add_mset ph M) (st', add_mset ph' M)"

definition moves_left :: "phase multiset \<Rightarrow> nat" where
  "moves_left M = \<Sum>\<^sub># (image_mset steps_left M)"

lemma moves_left_le: "moves_left M \<le> 8 * size M"
proof (induction M)
  case (add ph M)
  have "steps_left ph \<le> 8" by (cases ph) simp_all
  with add show ?case by (simp add: moves_left_def)
qed (simp add: moves_left_def)

lemma advances_decreases: "advances V rt s s' \<Longrightarrow> moves_left (snd s') < moves_left (snd s)"
  by (erule advances.cases) (auto simp: moves_left_def dest: step_decreases)

lemma advances_bounded: "(advances V rt ^^ k) s s' \<Longrightarrow> k + moves_left (snd s') \<le> moves_left (snd s)"
proof (induction k arbitrary: s')
  case (Suc k)
  then obtain s1 where "(advances V rt ^^ k) s s1" "advances V rt s1 s'" by auto
  with Suc.IH [of s1] show ?case using advances_decreases by fastforce
qed simp

lemma advances_reached: "(advances V rt ^^ k) s s' \<Longrightarrow> reached V rt st0 n s \<Longrightarrow> reached V rt st0 (n + k) s'"
proof (induction k arbitrary: s')
  case (Suc k)
  then obtain s1 where s1: "(advances V rt ^^ k) s s1" "advances V rt s1 s'" by auto
  then have "moves V rt s1 s'" by (auto elim: advances.cases intro: progress)
  with Suc.IH [OF s1(1) Suc.prems(2)] reached.next_move show ?case by simp
qed simp

lemma advances_iff: "(\<exists>s'. advances V rt (st, M) s') \<longleftrightarrow> 0 < unanswered M"
proof
  assume "\<exists>s'. advances V rt (st, M) s'"
  then obtain ph N st' ph' where "M = add_mset ph N" "step V rt (st, ph) (st', ph')" by (auto elim: advances.cases)
  moreover from this(2) have "\<not> answered ph" by (auto simp: answered_def dest: step_decreases)
  ultimately show "0 < unanswered M" by (simp add: unanswered_def)
next
  assume "0 < unanswered M"
  then have "filter_mset (\<lambda>ph. \<not> answered ph) M \<noteq> {#}" unfolding unanswered_def by (metis less_irrefl size_empty)
  then obtain ph where "ph \<in># filter_mset (\<lambda>ph. \<not> answered ph) M" by blast
  then have ph: "ph \<in># M" "\<not> answered ph" by simp_all
  then obtain N where "M = add_mset ph N" by (metis mset_add)
  with ph(2) step_exists [of ph V rt st] advance show "\<exists>s'. advances V rt (st, M) s'"
    unfolding answered_def by metis
qed

lemma held_le_unanswered: "tokens_held M \<le> unanswered M \<and> size (reservations_held M) \<le> unanswered M"
proof (induction M)
  case (add ph M)
  moreover have "(if has_token_held ph then 1 else 0 :: nat) \<le> (if answered ph then 0 else 1)"
    "size (reservation_held ph) \<le> (if answered ph then 0 else 1)"
    by (cases ph; simp add: answered_def)+
  ultimately show ?case by (auto simp: unanswered_def split: if_splits)
qed (simp add: unanswered_def)

text \<open>C19: The gateway drains. From any reachable state, once no more requests arrive, the process makes at
  most eight more moves for each request it has, it can move as long as a request is unanswered and
  no longer, and what it still holds in tokens and reservations is at most one each for a request not
  yet answered, so nothing when it stops.\<close>

theorem drains:
  assumes "reached V rt st0 n (st, M)" and "fresh st0" and "(advances V rt ^^ k) (st, M) (st', M')" and "n + k < 2 ^ 64"
  shows "k \<le> 8 * size M \<and> ((\<exists>s. advances V rt (st', M') s) \<longleftrightarrow> 0 < unanswered M') \<and>
     in_flight st' \<le> unanswered M' \<and> size (outstanding (fleet st')) \<le> unanswered M'"
proof -
  have "k \<le> moves_left M" using advances_bounded [OF assms(3)] by simp
  then have "k \<le> 8 * size M" using moves_left_le [of M] by simp
  moreover have "run_inv rt (st', M')" using reached_inv [OF advances_reached [OF assms(3,1)] assms(2,4)] by simp
  then have "in_flight st' \<le> unanswered M' \<and> size (outstanding (fleet st')) \<le> unanswered M'"
    using held_le_unanswered [of M'] by (simp add: run_inv_def)
  ultimately show ?thesis using advances_iff by blast
qed

theorem drains_witness:
  "(\<exists>s. advances sample_viiwork sample_router
       (sample_state\<lparr>in_flight := 1\<rparr>, {#Entered sample_wire sample_side, Arriving sample_wire sample_side#}) s) \<and>
   in_flight (sample_state\<lparr>in_flight := 1\<rparr>) \<le> unanswered {#Entered sample_wire sample_side, Arriving sample_wire sample_side#}"
  using drains [OF sample_reached sample_fresh, of 0] by (simp add: unanswered_def answered_def)

end
