(* ===== verification/GoRound.thy ===== *)
theory GoRound
  imports RateLimit
begin

text \<open>
  How far one rounding can move a value. The locale \<open>rounding_error\<close> is \<open>rounding\<close> with a relative
  and an absolute error; \<open>round_even_eqI\<close> computes the rounding of a concrete value.
\<close>

lemma round_even_half_ulp:
  assumes "0 < x"
  shows "\<bar>round_even x - x\<bar> \<le> 2 powi (ulp_exp x - 1)"
proof -
  let ?u = "2 powi ulp_exp x :: rat"
  have u: "0 < ?u" by (rule powi_pos)
  have half: "?u / 2 = 2 powi (ulp_exp x - 1)" by (simp add: power_int_diff)
  have "round_even x - x = (of_int (rne (x / ?u)) - x / ?u) * ?u" using assms u by (simp add: round_even_def field_simps)
  then have "\<bar>round_even x - x\<bar> = \<bar>x / ?u - of_int (rne (x / ?u))\<bar> * ?u" using u by (simp add: abs_mult abs_minus_commute)
  also have "\<dots> \<le> 1 / 2 * ?u" using rne_near [of "x / ?u"] u by (intro mult_right_mono) simp_all
  finally show ?thesis using half by simp
qed

lemma ulp_relative:
  assumes "0 < x" "ulp_exp x = ilog2 x - 52"
  shows "2 powi (ulp_exp x - 1) \<le> x * 2 powi - 53"
proof -
  have "ulp_exp x - 1 = ilog2 x + - 53" using assms(2) by simp
  then have "2 powi (ulp_exp x - 1) = (2 :: rat) powi (ilog2 x + - 53)" by (simp only:)
  also have "\<dots> = 2 powi ilog2 x * (2 powi - 53 :: rat)" by (rule power_int_add) simp
  also have "\<dots> \<le> x * 2 powi - 53"
    by (rule mult_right_mono [OF ilog2_bounds(1) [OF assms(1)]]) (rule less_imp_le [OF powi_pos])
  finally show ?thesis .
qed

lemma round_even_near:
  assumes "0 \<le> x"
  shows "\<bar>round_even x - x\<bar> \<le> x * 2 powi - 53 + 2 powi - 1075"
proof (cases "x = 0")
  case True
  then show ?thesis using powi_pos [of "- 1075"] by (simp add: round_even_def)
next
  case False
  then have x: "0 < x" using assms by simp
  have p: "0 < x * 2 powi - 53" by (rule mult_pos_pos [OF x powi_pos])
  show ?thesis
  proof (cases "ilog2 x - 52 \<le> - 1074")
    case True
    then have "ulp_exp x - 1 = - 1075" using x by (simp add: ulp_exp_def)
    then have "2 powi (ulp_exp x - 1) = (2 :: rat) powi - 1075" by (simp only:)
    with round_even_half_ulp [OF x] p show ?thesis by linarith
  next
    case False
    then have "ulp_exp x = ilog2 x - 52" using x by (simp add: ulp_exp_def)
    from ulp_relative [OF x this] round_even_half_ulp [OF x] powi_pos [of "- 1075"]
    show ?thesis by linarith
  qed
qed

text \<open>From \<open>2 ^ - 1022\<close> on the error is relative alone.\<close>

lemma round_even_rel:
  assumes "2 powi - 1022 \<le> x"
  shows "\<bar>round_even x - x\<bar> \<le> x * 2 powi - 53"
proof -
  have x: "0 < x" by (rule less_le_trans [OF powi_pos assms])
  have "2 powi - 1022 < (2 :: rat) powi (ilog2 x + 1)" by (rule le_less_trans [OF assms ilog2_bounds(2) [OF x]])
  then have "- 1022 \<le> ilog2 x" unfolding powi_less_iff by simp
  then have "ulp_exp x = ilog2 x - 52" using x by (simp add: ulp_exp_def)
  from ulp_relative [OF x this] round_even_half_ulp [OF x] show ?thesis by linarith
qed

locale rounding_error = rounding +
  fixes rel :: rat and tiny :: rat
  assumes tiny: "0 < tiny" "tiny \<le> rel"
    and near: "0 \<le> x \<Longrightarrow> \<bar>rnd x - x\<bar> \<le> x * rel + tiny"
begin

lemma up: "0 \<le> x \<Longrightarrow> rnd x \<le> x + x * rel + tiny"
  using near [of x] by (simp add: abs_le_iff)

lemma down: "0 \<le> x \<Longrightarrow> x - x * rel - tiny \<le> rnd x"
  using near [of x] by (simp add: abs_le_iff)

text \<open>A value below a capacity is raised by no more than the capacity's error.\<close>

lemma below_capacity:
  assumes "0 \<le> x" "1 \<le> B" "x \<le> B"
  shows "rnd x \<le> x + 2 * (B * rel)"
proof -
  have "x * rel \<le> B * rel" using assms(3) tiny by (intro mult_right_mono) simp_all
  moreover have "1 * rel \<le> B * rel" using assms(2) tiny by (intro mult_right_mono) simp_all
  ultimately show ?thesis using up [OF assms(1)] tiny(2) by linarith
qed

end

interpretation binary64e: rounding_error round_even "2 powi - 53" "2 powi - 1075"
proof unfold_locales
  show "(0 :: rat) < 2 powi - 1075" by (rule powi_pos)
  show "(2 :: rat) powi - 1075 \<le> 2 powi - 53" unfolding powi_le_iff by simp
qed (rule round_even_near)

section \<open>Concrete values\<close>

lemma ilog2_unique:
  assumes "2 powi e \<le> x" "x < 2 powi (e + 1)"
  shows "ilog2 x = e"
proof -
  have x: "0 < x" by (rule less_le_trans [OF powi_pos assms(1)])
  have "2 powi e < (2 :: rat) powi (ilog2 x + 1)" by (rule le_less_trans [OF assms(1) ilog2_bounds(2) [OF x]])
  moreover have "2 powi ilog2 x < (2 :: rat) powi (e + 1)" by (rule le_less_trans [OF ilog2_bounds(1) [OF x] assms(2)])
  ultimately show ?thesis unfolding powi_less_iff by simp
qed

text \<open>Rounding of a concrete value: its exponent and the nearest multiple of the last place.\<close>

lemma round_even_eqI:
  assumes "2 powi (e + 52) \<le> x" "x < 2 powi (e + 53)" "- 1074 \<le> e" "\<bar>x - of_int k * 2 powi e\<bar> < 2 powi e / 2"
  shows "round_even x = of_int k * 2 powi e"
proof -
  have x: "0 < x" by (rule less_le_trans [OF powi_pos assms(1)])
  have "ilog2 x = e + 52" using assms(1,2) by (intro ilog2_unique) (simp_all add: add.commute)
  then have u: "ulp_exp x = e" using assms(3) x by (simp add: ulp_exp_def)
  have "x / 2 powi e - of_int k = (x - of_int k * 2 powi e) / 2 powi e" using powi_pos [of e] by (simp add: field_simps)
  then have "\<bar>x / 2 powi e - of_int k\<bar> = \<bar>x - of_int k * 2 powi e\<bar> / 2 powi e" using powi_pos [of e] by (simp add: abs_divide)
  also have "\<dots> < 1 / 2" using assms(4) powi_pos [of e] by (simp add: field_simps)
  finally have "rne (x / 2 powi e) = k" by (simp add: rne_iff)
  then show ?thesis using x u by (simp add: round_even_def)
qed

end
