(* ===== verification/RateBound.thy ===== *)
theory RateBound
  imports RateLimitSpec GoRound
begin

text \<open>
  The rate limiter over time: how many requests of one key a run of calls lets through, with the
  error of the rounded arithmetic made explicit.
\<close>

section \<open>One refill\<close>

definition eps :: rat where "eps = 2 powi - 53"

lemma eps: "0 < eps" "eps \<le> 1 / 8" "4 * eps \<le> 1 / 2 ^ 50" "5 * eps \<le> 1 / 2 ^ 50"
  by (simp_all add: eps_def power_int_def power_divide)

lemmas near_rel = round_even_rel [folded eps_def]
lemma up_rel: "2 powi - 1022 \<le> x \<Longrightarrow> round_even x \<le> x + x * eps"
  and down_rel: "2 powi - 1022 \<le> x \<Longrightarrow> x - x * eps \<le> round_even x"
  using near_rel [of x] by (simp_all add: abs_le_iff)

lemmas down_any = binary64e.down [folded eps_def]
lemmas up_any = binary64e.up [folded eps_def]
lemmas up_tiny = binary64e.tiny [folded eps_def]
lemmas up_capped = binary64e.below_capacity [folded eps_def]

lemma eps_cube:
  assumes "0 \<le> (x :: rat)" "0 < e" "e \<le> 1 / 8"
  shows "(x * (1 + e) * (1 + e)) * (1 + e) \<le> x * (1 + 4 * e)"
proof -
  have q: "e * e \<le> e * (1 / 8)" by (rule mult_left_mono) (use assms in simp_all)
  have c: "e * e * e \<le> e * e * 1" by (rule mult_left_mono) (use assms in simp_all)
  have "(1 + e) * (1 + e) * (1 + e) = 1 + 3 * e + 3 * (e * e) + e * e * e" by (simp add: algebra_simps)
  with q c assms(2) have "(1 + e) * (1 + e) * (1 + e) \<le> 1 + 4 * e" by linarith
  from mult_left_mono [OF this assms(1)] show ?thesis by (simp add: mult.assoc)
qed

text \<open>\<open>Duration.Seconds\<close> is off by two roundings.\<close>

lemma dur_seconds_up:
  assumes "0 < d" "in_int64 d" "dur_seconds d = Fin s"
  shows "s \<le> of_int d / 1000000000 * (1 + eps) * (1 + eps)"
proof -
  let ?sec = "d div 1000000000" and ?ns = "d mod 1000000000"
  let ?q = "rat_of_int ?ns / 1000000000"
  have dd: "rat_of_int d / 1000000000 = of_int ?sec + ?q"
  proof -
    have "rat_of_int d = of_int (?sec * 1000000000 + ?ns)" by (simp only: div_mult_mod_eq)
    then show ?thesis by (simp only: of_int_add of_int_mult of_int_numeral add_divide_distrib) simp?
  qed
  have small: "(2 :: rat) powi - 1022 \<le> 2 powi - 30" unfolding powi_le_iff by simp
  have p30: "(2 :: rat) powi - 30 \<le> 1 / 1000000000" by (simp add: power_int_def power_divide)
  have q: "round_even ?q \<le> ?q + ?q * eps"
  proof (cases "?ns = 0")
    case True
    then show ?thesis by (simp add: binary64.zero)
  next
    case False
    moreover have "0 \<le> ?ns" by simp
    ultimately have "1 \<le> ?ns" by linarith
    then have "rat_of_int 1 \<le> of_int ?ns" by (simp only: of_int_le_iff)
    then have "1 / 1000000000 \<le> ?q" by (simp add: field_simps)
    with small p30 have "2 powi - 1022 \<le> ?q" by linarith
    then show ?thesis by (rule up_rel)
  qed
  have "0 \<le> rat_of_int ?sec * eps" using assms(1) eps(1) by (intro mult_nonneg_nonneg) simp_all
  with q have x: "second_parts d \<le> of_int d / 1000000000 * (1 + eps)"
    unfolding dd second_parts_def by (simp add: ring_distribs)
  have "s = round_even (second_parts d)" using assms(3) dur_seconds_value(1) [OF assms(1,2)] by simp
  also have "\<dots> \<le> second_parts d * (1 + eps)"
    using up_rel [of "second_parts d"] dur_seconds_value(2) [OF assms(1,2)] small
    by (simp only: ring_distribs mult_1_right)
  also have "\<dots> \<le> of_int d / 1000000000 * (1 + eps) * (1 + eps)"
    using x eps(1) by (intro mult_right_mono) simp_all
  finally show ?thesis .
qed

text \<open>The seconds by which a clock read moves past an earlier one; stepping back counts nothing.\<close>

definition secs_between :: "time \<Rightarrow> time \<Rightarrow> rat" where
  "secs_between t u = of_int (max 0 (u - t)) / 1000000000"

lemma fl_raise:
  assumes "0 \<le> y" "fl y = Fin g"
  shows "g \<le> y * (1 + eps) + eps"
  using up_any [OF assms(1)] up_tiny assms(2)
  by (auto simp: fl_def Let_def distrib_left split: if_splits)

lemma fl_overflow:
  assumes "0 \<le> y" "fl y = Inf s"
  shows "2 ^ 1024 \<le> round_even y"
  using binary64.nonneg [OF assms(1)] assms(2) by (auto simp: fl_def Let_def split: if_splits)

text \<open>Adding to what is in the bucket, cut off at the capacity.\<close>

lemma fill_up:
  assumes B: "1 \<le> B" "B < 2 ^ 1024" "round_even B = B" and t: "0 \<le> t" "0 \<le> g"
    and u: "(if flt (Fin B) (fl (t + g)) then Fin B else fl (t + g)) = Fin u"
  shows "u \<le> t + g + 2 * (B * eps)"
proof -
  have p: "0 < B * eps" using B(1) eps(1) by (intro mult_pos_pos) simp_all
  show ?thesis
  proof (cases "t + g \<le> B")
    case True
    then have "round_even (t + g) \<le> B" using binary64.le_fixed B(3) by blast
    then have "fl (t + g) = Fin (round_even (t + g))"
      using B(2) binary64.nonneg [of "t + g"] t by (simp add: fl_def Let_def)
    with u \<open>round_even (t + g) \<le> B\<close> have "u = round_even (t + g)" by (simp split: if_splits)
    then show ?thesis using up_capped [OF _ B(1) True] t by simp
  next
    case False
    from u have "u \<le> B" by (cases "fl (t + g)") (auto split: if_splits)
    with False p show ?thesis by linarith
  qed
qed

lemma refill_rate:
  assumes ok: "limiter_ok B l" and r: "rate_per_sec l = Fin r" and b: "tokens b = Fin t" "0 \<le> t" "t \<le> B"
    and u: "refill l b now = Fin u"
  shows "u \<le> t + secs_between (last_at b) now * r * (1 + 4 * eps) + 3 * (B * eps)"
proof -
  have B: "1 \<le> B" "B < 2 ^ 1024" "round_even B = B" "burst_cap l = Fin B" and r0: "0 \<le> r"
    using ok r by (simp_all add: limiter_ok_def)
  have be: "eps \<le> B * eps" using B(1) eps(1) by simp
  let ?d = "time_sub now (last_at b)" and ?E = "secs_between (last_at b) now"
  have g0: "0 \<le> ?E * r * (1 + 4 * eps)"
    using r0 eps(1) by (intro mult_nonneg_nonneg) (simp_all add: secs_between_def)
  show ?thesis
  proof (cases "0 < ?d")
    case False
    then have "u = t" using u b by (simp add: refill_def Let_def)
    with g0 be eps(1) show ?thesis by linarith
  next
    case True
    from dur_seconds_pos [OF True time_sub_int64] obtain s where s: "0 < s" "dur_seconds ?d = Fin s" by blast
    have "?d \<le> max 0 (now - last_at b)" using True by (simp add: time_sub_def max_int64_def min_int64_def)
    then have "rat_of_int ?d \<le> of_int (max 0 (now - last_at b))" by (simp only: of_int_le_iff)
    then have "rat_of_int ?d / 1000000000 \<le> ?E" by (simp add: secs_between_def divide_right_mono)
    then have "of_int ?d / 1000000000 * (1 + eps) * (1 + eps) \<le> ?E * (1 + eps) * (1 + eps)"
      using eps(1) by (intro mult_right_mono) simp_all
    with dur_seconds_up [OF True time_sub_int64 s(2)] have "s \<le> ?E * (1 + eps) * (1 + eps)" by linarith
    from mult_right_mono [OF this r0] have sr: "s * r \<le> (?E * r) * (1 + eps) * (1 + eps)" by (simp add: ac_simps)
    have y0: "0 \<le> s * r" using s(1) r0 by simp
    have "s * r * (1 + eps) \<le> ((?E * r) * (1 + eps) * (1 + eps)) * (1 + eps)"
      using sr eps(1) by (intro mult_right_mono) simp_all
    also have "\<dots> \<le> ?E * r * (1 + 4 * eps)"
      by (rule eps_cube) (use r0 eps in \<open>simp_all add: secs_between_def\<close>)
    finally have y: "s * r * (1 + eps) \<le> ?E * r * (1 + 4 * eps)" .
    have rf: "(if flt (Fin B) (fadd (Fin t) (fl (s * r))) then Fin B else fadd (Fin t) (fl (s * r))) = Fin u"
      using True u s(2) r b(1) B(4) by (simp add: refill_def Let_def split: if_splits)
    show ?thesis
    proof (cases "fl (s * r)")
      case (Fin g)
      have "0 \<le> g" using Fin binary64.nonneg [OF y0] by (auto simp: fl_def Let_def split: if_splits)
      moreover have "fadd (Fin t) (fl (s * r)) = fl (t + g)" using Fin by simp
      ultimately have "u \<le> t + g + 2 * (B * eps)" using fill_up [OF B(1-3) b(2)] rf by metis
      with fl_raise [OF y0 Fin] y be show ?thesis by linarith
    next
      case (Inf i)
      have uB: "u \<le> B" using rf Inf by (cases i) (auto split: if_splits)
      from fl_overflow [OF y0 Inf] up_any [OF y0] up_tiny(2) B(2)
      have "B < s * r * (1 + eps) + eps" by (simp only: ring_distribs mult_1_right)
      with uB y be b(2) eps(1) show ?thesis by linarith
    next
      case NaN
      then show ?thesis by (simp add: fl_def Let_def split: if_splits)
    qed
  qed
qed

section \<open>A run of calls\<close>

lemma spend_rate:
  assumes "limiter_ok B l" "1 \<le> t" "t \<le> B" "fsub (Fin t) (Fin 1) = Fin r"
  shows "1 + r \<le> t + 2 * (B * eps)"
proof -
  have B: "1 \<le> B" using assms(1) by (simp add: limiter_ok_def)
  have "fl (t - 1) = Fin r" using assms(4) by (simp add: fsub_def)
  then have "r = round_even (t - 1)" by (simp add: fl_def Let_def split: if_splits)
  with up_capped [of "t - 1" B] assms(2,3) B show ?thesis by simp
qed

text \<open>What a call takes out of the bucket: at most what it holds after the refill.\<close>

lemma allow_rate:
  assumes ok: "limiter_ok B l" and nd: "\<not> fle (rate_per_sec l) (Fin 0)"
    and a: "allow oor (Some l) label now = (d, Some l1)"
    and X: "\<And>u. refill l (case buckets l label of None \<Rightarrow> \<lparr>tokens = burst_cap l, last_at = now\<rparr> | Some b \<Rightarrow> b) now = Fin u \<Longrightarrow> u \<le> X"
  obtains r where "buckets l1 label = Some \<lparr>tokens = Fin r, last_at = now\<rparr>" "0 \<le> r" "r \<le> B"
    "of_bool (fst d) + r \<le> X + 2 * (B * eps)"
proof -
  have p: "0 < B * eps" using ok eps(1) by (intro mult_pos_pos) (simp_all add: limiter_ok_def)
  obtain t r where t: "refill l (case buckets l label of None \<Rightarrow> \<lparr>tokens = burst_cap l, last_at = now\<rparr> | Some b \<Rightarrow> b) now = Fin t"
      "0 \<le> t" "t \<le> B" "fst d = (1 \<le> t)" "0 \<le> r" "r \<le> B"
    and l1: "Some l1 = Some (l\<lparr>buckets := (buckets l)(label \<mapsto> \<lparr>tokens = Fin r, last_at = now\<rparr>)\<rparr>)"
    and r: "if 1 \<le> t then fsub (Fin t) (Fin 1) = Fin r else r = t"
    by (rule allow_cases [OF ok nd a])
  have "of_bool (fst d) + r \<le> t + 2 * (B * eps)"
    using r t(4) p spend_rate [OF ok _ t(3), of r] by (auto split: if_splits)
  with X [OF t(1)] l1 t show ?thesis by (intro that [of r]) simp_all
qed

text \<open>How far the clock moved forward over a run of reads.\<close>

fun forward_secs :: "time \<Rightarrow> time list \<Rightarrow> rat" where
  "forward_secs t [] = 0"
| "forward_secs t (u # us) = secs_between t u + forward_secs u us"

definition run_secs :: "time list \<Rightarrow> rat" where
  "run_secs ts = (case ts of [] \<Rightarrow> 0 | t # us \<Rightarrow> forward_secs t us)"

lemma secs_between_nonneg: "0 \<le> secs_between t u"
  by (simp add: secs_between_def)

lemma forward_secs_sorted:
  "sorted (t # us) \<Longrightarrow> forward_secs t us = of_int (last (t # us) - t) / 1000000000"
proof (induction us arbitrary: t)
  case Nil
  then show ?case by simp
next
  case (Cons u us)
  have "forward_secs u us = of_int (last (u # us) - u) / 1000000000" using Cons by simp
  moreover have "secs_between t u = of_int (u - t) / 1000000000" using Cons.prems by (simp add: secs_between_def)
  ultimately show ?case by (simp add: diff_divide_distrib)
qed

lemma count_cons: "length (filter (\<lambda>d. d) (x # xs)) = of_bool x + length (filter (\<lambda>d. d) xs)"
  by simp

lemma run_rate:
  assumes "limiter_ok B l" "rate_per_sec l = Fin r" "0 < r"
    and "buckets l label = Some \<lparr>tokens = Fin t, last_at = seen\<rparr>" "0 \<le> t" "t \<le> B"
  shows "of_nat (length (filter (\<lambda>d. d) (fst (calls oor (Some l) (map (Pair label) ts))))) \<le>
    t + forward_secs seen ts * (r * (1 + 4 * eps)) + of_nat (length ts) * (5 * (B * eps))"
  using assms
proof (induction ts arbitrary: l t seen)
  case Nil
  then show ?case by simp
next
  case (Cons now ts)
  let ?g = "secs_between seen now * (r * (1 + 4 * eps))"
  have nd: "\<not> fle (rate_per_sec l) (Fin 0)" using Cons.prems(2,3) by simp
  obtain d l1 where a: "allow oor (Some l) label now = (d, Some l1)" using allow_Some by blast
  have X: "u \<le> t + ?g + 3 * (B * eps)"
    if "refill l (case buckets l label of None \<Rightarrow> \<lparr>tokens = burst_cap l, last_at = now\<rparr> | Some b \<Rightarrow> b) now = Fin u" for u
    using refill_rate [OF Cons.prems(1,2) _ Cons.prems(5,6), of "\<lparr>tokens = Fin t, last_at = seen\<rparr>" now u]
      that Cons.prems(4) by (simp add: mult.assoc)
  obtain r1 where r1: "buckets l1 label = Some \<lparr>tokens = Fin r1, last_at = now\<rparr>" "0 \<le> r1" "r1 \<le> B"
    and take: "of_bool (fst d) + r1 \<le> t + ?g + 3 * (B * eps) + 2 * (B * eps)"
    using allow_rate [OF Cons.prems(1) nd a X] by blast
  have ok1: "limiter_ok B l1" by (rule allow_ok [OF Cons.prems(1) a])
  have rl: "rate_per_sec l1 = Fin r" using allow_config [OF a] Cons.prems(2) by simp
  from Cons.IH [OF ok1 rl Cons.prems(3) r1] take
  have "of_nat (length (filter (\<lambda>d. d) (fst (calls oor (Some l) (map (Pair label) (now # ts)))))) \<le>
      t + ?g + forward_secs now ts * (r * (1 + 4 * eps)) + (5 * (B * eps) + of_nat (length ts) * (5 * (B * eps)))"
    unfolding list.map calls_step [OF a] count_cons of_nat_add of_nat_of_bool by linarith
  then show ?case by (simp only: forward_secs.simps list.size of_nat_Suc of_nat_add ring_distribs)
qed

text \<open>The calls of one label in a history: their instants, and how many were let through.\<close>

definition instants :: "string \<Rightarrow> (string \<times> time) list \<Rightarrow> time list" where
  "instants label cs = map snd (filter (\<lambda>c. fst c = label) cs)"

definition passed :: "string \<Rightarrow> (string \<times> time) list \<Rightarrow> bool list \<Rightarrow> nat" where
  "passed label cs ds = length (filter (\<lambda>(c, d). fst c = label \<and> d) (zip cs ds))"

lemma passed_alone:
  "passed label cs (fst (calls oor (Some l) cs)) =
   length (filter (\<lambda>d. d) (fst (calls oor (Some l) (map (Pair label) (instants label cs)))))"
proof -
  have m: "map (Pair label) (instants label cs) = filter (\<lambda>c. fst c = label) cs"
    by (induction cs) (auto simp: instants_def)
  have "passed label cs ds = length (filter (\<lambda>d. d) (map snd (filter (\<lambda>(c, d). fst c = label) (zip cs ds))))" for ds
    by (simp add: passed_def filter_map o_def split_def conj_commute)
  then show ?thesis unfolding m by (simp only: calls_agree [OF refl refl refl])
qed

lemma passed_bound:
  assumes ok: "limiter_ok B l" and r: "rate_per_sec l = Fin r" "0 < r"
  shows "of_nat (passed label cs (fst (calls oor (Some l) cs))) \<le>
    B + run_secs (instants label cs) * r * (1 + 1 / 2 ^ 50) + of_nat (length (instants label cs)) * B / 2 ^ 50"
proof (cases "instants label cs")
  case Nil
  then show ?thesis using ok by (simp add: passed_alone run_secs_def limiter_ok_def)
next
  case (Cons now ts)
  have nd: "\<not> fle (rate_per_sec l) (Fin 0)" using r by simp
  have B: "1 \<le> B" using ok by (simp add: limiter_ok_def)
  obtain d l1 where a: "allow oor (Some l) label now = (d, Some l1)" using allow_Some by blast
  have X: "u \<le> B"
    if "refill l (case buckets l label of None \<Rightarrow> \<lparr>tokens = burst_cap l, last_at = now\<rparr> | Some b \<Rightarrow> b) now = Fin u" for u
    using refill_bounds [OF ok start_ok [OF ok, where label = label and now = now], where now = now] that by auto
  obtain r1 where r1: "buckets l1 label = Some \<lparr>tokens = Fin r1, last_at = now\<rparr>" "0 \<le> r1" "r1 \<le> B"
    and take: "of_bool (fst d) + r1 \<le> B + 2 * (B * eps)"
    using allow_rate [OF ok nd a X] by blast
  have ok1: "limiter_ok B l1" by (rule allow_ok [OF ok a])
  have rl: "rate_per_sec l1 = Fin r" using allow_config [OF a] r by simp
  let ?F = "forward_secs now ts"
  have F: "0 \<le> ?F" by (induction ts arbitrary: now) (simp_all add: secs_between_nonneg)
  have be: "0 < B * eps" using B eps(1) by (intro mult_pos_pos) simp_all
  have "of_nat (passed label cs (fst (calls oor (Some l) cs))) \<le>
      B + ?F * (r * (1 + 4 * eps)) + of_nat (Suc (length ts)) * (5 * (B * eps))"
  proof -
    have "of_nat (Suc (length ts)) * (5 * (B * eps)) = 5 * (B * eps) + of_nat (length ts) * (5 * (B * eps))"
      by (simp only: of_nat_Suc ring_distribs mult_1_left)
    then show ?thesis using run_rate [OF ok1 rl r(2) r1, of oor ts] take be
      unfolding passed_alone Cons list.map calls_step [OF a] count_cons of_nat_add of_nat_of_bool by linarith
  qed
  moreover have "?F * (r * (1 + 4 * eps)) \<le> ?F * (r * (1 + 1 / 2 ^ 50))"
    using F r(2) eps(3) by (intro mult_left_mono) simp_all
  moreover have "of_nat (Suc (length ts)) * (5 * (B * eps)) \<le> of_nat (Suc (length ts)) * (B / 2 ^ 50)"
    using mult_left_mono [OF eps(4), of B] B by (intro mult_left_mono) (simp_all add: ac_simps)
  ultimately have "of_nat (passed label cs (fst (calls oor (Some l) cs))) \<le>
      B + ?F * (r * (1 + 1 / 2 ^ 50)) + of_nat (Suc (length ts)) * (B / 2 ^ 50)" by linarith
  then show ?thesis unfolding Cons
    by (simp only: run_secs_def list.case list.size mult.assoc times_divide_eq_right add_Suc_right add_0_right)
qed

section \<open>The bound\<close>

text \<open>A key is let through no more often than its burst plus its rate allow. Over any run of calls
  of any keys after any history, the calls of one key that pass are at most the configured burst plus
  the rate times the seconds the clock moved forward from its first call to its last, up to a relative
  error of the rounded arithmetic of \<open>2 ^ - 50\<close> in the rate and of \<open>2 ^ - 50\<close> of a burst in each call.\<close>

theorem rate_bound:
  assumes "rate_per_sec (new_limiter per_minute n) = Fin r" and "0 < r" and "1 \<le> n" "n \<le> 2 ^ 53"
    and "calls oor (Some (new_limiter per_minute n)) hist = (ds, lm)"
  shows "of_nat (passed label cs (fst (calls oor lm cs))) \<le>
    of_int n + run_secs (instants label cs) * r * (1 + 1 / 2 ^ 50) +
    of_nat (length (instants label cs)) * of_int n / 2 ^ 50"
proof -
  have on: "\<not> fle (rate_per_sec (new_limiter per_minute n)) (Fin 0)" using assms(1,2) by simp
  have "per_minute \<noteq> NaN" using assms(1) by (auto simp: new_limiter_def Let_def)
  from new_ok [OF this on assms(3,4)] calls_keep [OF assms(5), of "of_int n"] assms(1)
  obtain l where "lm = Some l" "limiter_ok (of_int n) l" "rate_per_sec l = Fin r" by auto
  with passed_bound [OF _ _ assms(2)] show ?thesis by blast
qed

theorem rate_bound_witness:
  "rat_of_nat (passed ''a'' (map (Pair ''a'') [0, 0, 500000000, 2000000000])
      (fst (calls (\<lambda>_. 0) (Some (new_limiter (Fin 60) 2)) (map (Pair ''a'') [0, 0, 500000000, 2000000000])))) \<le>
    of_int 2 + 2 * 1 * (1 + 1 / 2 ^ 50) + of_nat 4 * of_int 2 / 2 ^ 50"
  using rate_bound [of "Fin 60" 2 1 "\<lambda>_. 0" "[]" "[]" "Some (new_limiter (Fin 60) 2)" "''a''"
      "map (Pair ''a'') [0, 0, 500000000, 2000000000]"] sample_rate
  by (simp add: sample_limiter_def instants_def run_secs_def secs_between_def del: calls.simps(2))

end
