(* ===== verification/SystemRate.thy ===== *)
theory SystemRate
  imports SystemSpec RateBound
begin

text \<open>
  The rate limiter among interleaved requests: the run of the process with the calls of the limiter
  it has made, which are one sequence of \<open>Allow\<close> whatever the order of the requests.
\<close>

section \<open>Runs with their calls\<close>

text \<open>
  A call is the label and the instant of the clock, with the decision. Requests meet the limiter in
  their \<open>Metered\<close> phase and only there.
\<close>

type_synonym limiter_log = "((string \<times> time) \<times> bool) list"

fun awaits_limiter :: "phase \<Rightarrow> bool" where
  "awaits_limiter (Metered r sd) = True"
| "awaits_limiter ph = False"

inductive metered :: "viiwork \<Rightarrow> router \<Rightarrow> gw_state \<Rightarrow> limiter_log \<Rightarrow> gateway_run \<Rightarrow> bool" for V rt st0 where
    quiet: "metered V rt st0 [] (st0, {#})"
  | joins: "metered V rt st0 calls_made (st, M) \<Longrightarrow> metered V rt st0 calls_made (st, add_mset (enter V r sd) M)"
  | passes: "metered V rt st0 calls_made (st, add_mset (Metered r sd) M) \<Longrightarrow>
      allow oor (limits st) (label_from_context r) now = ((True, wait), lm) \<Longrightarrow>
      metered V rt st0 (calls_made @ [((label_from_context r, now), True)]) (st\<lparr>limits := lm\<rparr>, add_mset (Admitted r sd) M)"
  | throttled: "metered V rt st0 calls_made (st, add_mset (Metered r sd) M) \<Longrightarrow>
      allow oor (limits st) (label_from_context r) now = ((False, wait), lm) \<Longrightarrow>
      metered V rt st0 (calls_made @ [((label_from_context r, now), False)])
        (st\<lparr>limits := lm\<rparr>, add_mset (Answered (Reply [] (rate_limited oor wait)) sd) M)"
  | elsewhere: "metered V rt st0 calls_made (st, add_mset ph M) \<Longrightarrow> step V rt (st, ph) (st', ph') \<Longrightarrow>
      \<not> awaits_limiter ph \<Longrightarrow> metered V rt st0 calls_made (st', add_mset ph' M)"

text \<open>These are the runs of the process: every state reached has its log, and no other has one.\<close>

lemma metered_reached: "metered V rt st0 calls_made s \<Longrightarrow> \<exists>n. reached V rt st0 n s"
proof (induction rule: metered.induct)
  case quiet
  then show ?case using reached.start by blast
next
  case (joins calls_made st M r sd)
  then show ?case using reached.next_move moves.arrive by blast
next
  case (passes calls_made st r sd M oor now wait lm)
  then show ?case using reached.next_move moves.progress [OF step.limit_pass] by metis
next
  case (throttled calls_made st r sd M oor now wait lm)
  then show ?case using reached.next_move moves.progress [OF step.limit_deny] by metis
next
  case (elsewhere calls_made st ph M st' ph')
  then show ?case using reached.next_move moves.progress by metis
qed

lemma reached_metered: "reached V rt st0 n s \<Longrightarrow> \<exists>calls_made. metered V rt st0 calls_made s"
proof (induction rule: reached.induct)
  case start
  then show ?case using metered.quiet by blast
next
  case (next_move n s s')
  then obtain calls_made where calls_made: "metered V rt st0 calls_made s" by blast
  from next_move.hyps(2) show ?case
  proof cases
    case (arrive st M r sd)
    with calls_made metered.joins show ?thesis by metis
  next
    case (progress st ph st' ph' M)
    show ?thesis
    proof (cases "awaits_limiter ph")
      case True
      then obtain r sd where ph: "ph = Metered r sd" by (cases ph) simp_all
      with progress(3) calls_made [unfolded progress(1) ph] show ?thesis
        unfolding progress(2) by (auto simp: step_simps intro: metered.passes metered.throttled)
    next
      case False
      with metered.elsewhere [OF calls_made [unfolded progress(1)] progress(3)] show ?thesis
        unfolding progress(2) by blast
    qed
  qed
qed

section \<open>One sequence of calls\<close>

text \<open>The conversion of an out-of-range wait decides nothing.\<close>

lemma allow_any:
  "fst (fst (allow oor lm label now)) = fst (fst (allow oor' lm label now))"
  "snd (allow oor lm label now) = snd (allow oor' lm label now)"
  by (simp_all add: allow_def Let_def split: option.split)

lemma calls_append:
  "calls oor lm (cs @ [(label, now)]) =
     (case calls oor lm cs of (ds, lm') \<Rightarrow>
        (ds @ [fst (fst (allow oor lm' label now))], snd (allow oor lm' label now)))"
  by (induction cs arbitrary: lm) (auto split: prod.splits)

lemma step_limits:
  "step V rt (st, ph) (st', ph') \<Longrightarrow> \<not> awaits_limiter ph \<Longrightarrow> limits st' = limits st"
  by (cases rule: step_cases)
    (auto simp: try_acquire_def release_token_def forward_holding_def to_view_def split: if_splits)

lemma metered_calls:
  "metered V rt st0 calls_made s \<Longrightarrow>
   calls oor (limits st0) (map fst calls_made) = (map snd calls_made, limits (fst s))"
proof (induction rule: metered.induct)
  case (passes calls_made st r sd M oor' now wait lm)
  then show ?case using allow_any [of oor "limits st" "label_from_context r" now oor'] by (simp add: calls_append)
next
  case (throttled calls_made st r sd M oor' now wait lm)
  then show ?case using allow_any [of oor "limits st" "label_from_context r" now oor'] by (simp add: calls_append)
next
  case (elsewhere calls_made st ph M st' ph')
  then show ?case by (simp add: step_limits)
qed simp_all

text \<open>C7: The rate limit holds for the process, not only for the limiter. However requests interleave,
  those of one key that get past the limiter are at most the burst plus the rate times the seconds the
  clock moved forward between its first and its last read for that key, up to the rounding.\<close>

theorem admissions_bounded:
  assumes "metered V rt st0 calls_made s" and "limits st0 = Some (new_limiter per_minute n)"
    and "rate_per_sec (new_limiter per_minute n) = Fin r" and "0 < r" and "1 \<le> n" "n \<le> 2 ^ 53"
  shows "of_nat (passed label (map fst calls_made) (map snd calls_made)) \<le>
    of_int n + run_secs (instants label (map fst calls_made)) * r * (1 + 1 / 2 ^ 50) +
    of_nat (length (instants label (map fst calls_made))) * of_int n / 2 ^ 50"
proof -
  have on: "\<not> fle (rate_per_sec (new_limiter per_minute n)) (Fin 0)" using assms(3,4) by simp
  have "per_minute \<noteq> NaN" using assms(3) by (auto simp: new_limiter_def Let_def)
  from passed_bound [OF new_ok [OF this on assms(5,6)] assms(3,4), of label "map fst calls_made" "\<lambda>_. 0"]
  show ?thesis using metered_calls [OF assms(1), of "\<lambda>_. 0"] assms(2) by simp
qed

text \<open>A run in which one request is let through.\<close>

definition metered_state :: gw_state where
  "metered_state = sample_state\<lparr>limits := Some (new_limiter (Fin 60) 2)\<rparr>"

definition sample_post :: request where
  "sample_post = get_of ''POST'' ''/v1/embeddings''"

lemma sample_metered:
  "\<exists>lm. metered sample_viiwork sample_router metered_state [((''laptop'', 0), True)]
     (metered_state\<lparr>limits := lm\<rparr>, {#Admitted sample_post sample_side#})"
proof -
  have e: "enter sample_viiwork sample_post sample_side = Metered sample_post sample_side"
    unfolding enter_def sample_post_def get_of_def sample_wire_def sample_viiwork_def is_power_path_def
      is_alias_write_def is_inference_path_def by code_simp
  have l: "label_from_context sample_post = ''laptop''"
    by (simp add: label_from_context_def sample_post_def get_of_def sample_wire_def)
  have m: "limits metered_state = Some (new_limiter (Fin 60) 2)" by (simp add: metered_state_def)
  have on: "\<not> fle (rate_per_sec (new_limiter (Fin 60) 2)) (Fin 0)" using sample_rate by (simp add: sample_limiter_def)
  have "(1 :: rat) \<le> of_int 2" by simp
  then have "\<exists>lm. allow (\<lambda>_. 0) (limits metered_state) (label_from_context sample_post) 0 = ((True, 0), lm)"
    using on new_burst [of "Fin 60" 2] new_buckets [of "Fin 60" 2]
    by (simp add: m allow_def Let_def refill_same_instant)
  then obtain lm where "allow (\<lambda>_. 0) (limits metered_state) (label_from_context sample_post) 0 = ((True, 0), lm)" ..
  moreover have "metered sample_viiwork sample_router metered_state [] (metered_state, {#Metered sample_post sample_side#})"
    using metered.joins [OF metered.quiet, of sample_viiwork sample_router metered_state sample_post sample_side] e by simp
  ultimately show ?thesis using l metered.passes by fastforce
qed

theorem admissions_bounded_witness:
  "rat_of_nat (passed ''laptop'' [(''laptop'', 0)] [True]) \<le> of_int 2 + 0 * 1 * (1 + 1 / 2 ^ 50) + of_nat 1 * of_int 2 / 2 ^ 50"
proof -
  obtain lm where r: "metered sample_viiwork sample_router metered_state [((''laptop'', 0), True)]
     (metered_state\<lparr>limits := lm\<rparr>, {#Admitted sample_post sample_side#})" using sample_metered by blast
  show ?thesis
    using admissions_bounded [OF r, of "Fin 60" 2 1 "''laptop''"] sample_rate
    by (simp add: metered_state_def sample_limiter_def instants_def run_secs_def)
qed

end
