(* ===== verification/GatewayRun.thy ===== *)
theory GatewayRun
  imports GatewaySpec SystemRate SystemBounds
begin

text \<open>
  The gateway with its authentication and many requests at once: the runs of theory System in which
  a request arrives through the middleware, with what the nodes were sent.
\<close>

section \<open>Runs\<close>

text \<open>What the step out of a phase sends to a node, with the label of the key it acts for.\<close>

definition sends :: "request \<Rightarrow> target \<Rightarrow> (string \<times> outbound) list" where
  "sends r t =
     (case outbound_of r (t_api_addr t) of None \<Rightarrow> [] | Some ob \<Rightarrow> [(label_from_context r, ob)])"

fun contact :: "phase \<Rightarrow> (string \<times> outbound) list" where
  "contact (First r b sd t rid) = sends r t"
| "contact (Second r sd t rid) = sends r t"
| "contact (Viewing r sd t) = sends r t"
| "contact ph = []"

text \<open>
  A client's request either goes on from \<open>Wrap\<close> into the access log and the router, or has been
  answered by the middleware and leaves nothing behind. \<open>ins\<close> are the requests that came in, each
  with the instant its credential was checked, and \<open>cs\<close> what was sent to nodes.
\<close>

type_synonym arrivals = "(request \<times> time) list"

inductive traced ::
    "viiwork \<Rightarrow> gateway \<Rightarrow> gw_state \<Rightarrow> arrivals \<Rightarrow> (string \<times> outbound) list \<Rightarrow> gateway_run \<Rightarrow> bool" for V gw st0 where
    idle: "traced V gw st0 [] [] (st0, {#})"
  | let_in: "traced V gw st0 ins cs (st, M) \<Longrightarrow> wrap (gw_auth gw) t1 t2 t3 r = Forwarded r' \<Longrightarrow>
      traced V gw st0 (ins @ [(r, t1)]) cs (st, add_mset (enter V (r'\<lparr>ctx_info := True\<rparr>) no_info) M)"
  | turned_away: "traced V gw st0 ins cs s \<Longrightarrow> \<forall>r'. wrap (gw_auth gw) t1 t2 t3 r \<noteq> Forwarded r' \<Longrightarrow>
      traced V gw st0 (ins @ [(r, t1)]) cs s"
  | works: "traced V gw st0 ins cs (st, add_mset ph M) \<Longrightarrow> step V (gw_router gw) (st, ph) (st', ph') \<Longrightarrow>
      traced V gw st0 ins (cs @ contact ph) (st', add_mset ph' M)"

text \<open>They are runs of the router, so what holds of those holds here.\<close>

lemma traced_reached:
  assumes "traced V gw st0 ins cs s"
  shows "\<exists>n. reached V (gw_router gw) st0 n s \<and> n + moves_left (snd s) \<le> 9 * length ins"
  using assms
proof (induction rule: traced.induct)
  case idle
  then show ?case using reached.start by (auto simp: moves_left_def)
next
  case (let_in ins cs st M t1 t2 t3 r r')
  then obtain n where n: "reached V (gw_router gw) st0 n (st, M)" "n + moves_left M \<le> 9 * length ins" by auto
  let ?ph = "enter V (r'\<lparr>ctx_info := True\<rparr>) no_info"
  have "reached V (gw_router gw) st0 (Suc n) (st, add_mset ?ph M)" by (rule reached.next_move [OF n(1) moves.arrive])
  moreover have "Suc n + moves_left (add_mset ?ph M) \<le> 9 * length (ins @ [(r, t1)])"
    using n(2) enter_steps [of V "r'\<lparr>ctx_info := True\<rparr>" no_info] by (simp add: moves_left_def)
  ultimately show ?case by auto
next
  case (turned_away ins cs s t1 t2 t3 r)
  then show ?case by fastforce
next
  case (works ins cs st ph M st' ph')
  then obtain n where n: "reached V (gw_router gw) st0 n (st, add_mset ph M)" "n + moves_left (add_mset ph M) \<le> 9 * length ins" by auto
  have "reached V (gw_router gw) st0 (Suc n) (st', add_mset ph' M)"
    by (rule reached.next_move [OF n(1) moves.progress [OF works.hyps(2)]])
  moreover have "Suc n + moves_left (add_mset ph' M) \<le> 9 * length ins"
    using n(2) step_decreases [OF works.hyps(2)] by (simp add: moves_left_def)
  ultimately show ?case by auto
qed

section \<open>Whose request it is\<close>

definition authentic :: "gateway \<Rightarrow> arrivals \<Rightarrow> string \<Rightarrow> bool" where
  "authentic gw ins l \<longleftrightarrow>
     (\<exists>(r, now) \<in> set ins. presents_bearer (gw_auth gw) r l \<or> presents_cookie (gw_auth gw) now r l)"

definition vouched :: "gateway \<Rightarrow> arrivals \<Rightarrow> request \<Rightarrow> bool" where
  "vouched gw ins r \<longleftrightarrow> credential_free r \<and> authentic gw ins (label_from_context r)"

lemma authentic_snoc: "authentic gw ins l \<Longrightarrow> authentic gw (ins @ xs) l"
  by (auto simp: authentic_def)

lemma vouched_snoc: "vouched gw ins r \<Longrightarrow> vouched gw (ins @ xs) r"
  by (simp add: vouched_def authentic_snoc)

text \<open>The request a phase still works on.\<close>

fun request_of :: "phase \<Rightarrow> request option" where
  "request_of (Metered r sd) = Some r"
| "request_of (Admitted r sd) = Some r"
| "request_of (Reading r sd) = Some r"
| "request_of (Parsed r b sd) = Some r"
| "request_of (First r b sd t rid) = Some r"
| "request_of (Retry r b sd t) = Some r"
| "request_of (Second r sd t rid) = Some r"
| "request_of (Fallback r sd) = Some r"
| "request_of (Arriving r sd) = Some r"
| "request_of (Entered r sd) = Some r"
| "request_of (Chosen r sd t) = Some r"
| "request_of (Viewing r sd t) = Some r"
| "request_of ph = None"

definition phase_vouched :: "gateway \<Rightarrow> arrivals \<Rightarrow> phase \<Rightarrow> bool" where
  "phase_vouched gw ins ph \<longleftrightarrow> (case request_of ph of None \<Rightarrow> True | Some r \<Rightarrow> vouched gw ins r)"

lemma vouched_updates:
  "vouched gw ins (r\<lparr>ctx_info := b\<rparr>) \<longleftrightarrow> vouched gw ins r"
  "vouched gw ins (with_body r body) \<longleftrightarrow> vouched gw ins r"
  "vouched gw ins (reset_body r body) \<longleftrightarrow> vouched gw ins r"
  "vouched gw ins (rewrite_path r p) \<longleftrightarrow> vouched gw ins r"
  by (simp_all add: vouched_def free_updates label_from_context_def)
    (simp_all add: with_body_def reset_body_def rewrite_path_def)

lemma read_body_vouched:
  "read_body rt now r sd = (Inr (body, r'), sd') \<Longrightarrow> vouched gw ins r \<Longrightarrow> vouched gw ins r'"
  by (auto simp: read_body_def result_iff vouched_updates split: option.splits if_splits)

lemma enter_vouched: "vouched gw ins r \<Longrightarrow> phase_vouched gw ins (enter V r sd)"
  by (simp add: enter_def Let_def phase_vouched_def vouched_updates)

lemma step_vouched:
  "step V rt (st, ph) (st', ph') \<Longrightarrow> phase_vouched gw ins ph \<Longrightarrow> phase_vouched gw ins ph'"
  by (cases rule: step_cases) (auto simp: phase_vouched_def vouched_updates dest: read_body_vouched)

lemma contact_vouched:
  "phase_vouched gw ins ph \<Longrightarrow> (l, ob) \<in> set (contact ph) \<Longrightarrow> credential_free (ob_request ob) \<and> authentic gw ins l"
  by (cases ph) (auto simp: phase_vouched_def vouched_def sends_def outbound_free split: option.splits)

lemma phase_vouched_snoc: "phase_vouched gw ins ph \<Longrightarrow> phase_vouched gw (ins @ xs) ph"
  by (auto simp: phase_vouched_def vouched_snoc split: option.splits)

lemma wrap_vouched:
  assumes "keys_load environ = Inr (mw_keys (gw_auth gw))" "wrap (gw_auth gw) t1 t2 t3 r = Forwarded r'"
  shows "vouched gw (ins @ [(r, t1)]) r'"
proof -
  obtain l where "presents_bearer (gw_auth gw) r l \<or> presents_cookie (gw_auth gw) t1 r l" "r' = strip_credentials r l"
    using assms wrap_forwarded_iff [OF keys_load_ok [OF assms(1)]] by blast
  then show ?thesis by (auto simp: vouched_def authentic_def stripped_free label_from_context_def strip_label)
qed

definition contact_ok :: "gateway \<Rightarrow> arrivals \<Rightarrow> string \<times> outbound \<Rightarrow> bool" where
  "contact_ok gw ins c \<longleftrightarrow> credential_free (ob_request (snd c)) \<and> authentic gw ins (fst c)"

lemma contact_ok_snoc: "contact_ok gw ins c \<Longrightarrow> contact_ok gw (ins @ xs) c"
  by (simp add: contact_ok_def authentic_snoc)

lemma traced_vouched:
  assumes "traced V gw st0 ins cs s" "keys_load environ = Inr (mw_keys (gw_auth gw))"
  shows "(\<forall>ph \<in># snd s. phase_vouched gw ins ph) \<and> (\<forall>c \<in> set cs. contact_ok gw ins c)"
  using assms
proof (induction rule: traced.induct)
  case (let_in ins cs st M t1 t2 t3 r r')
  have "vouched gw (ins @ [(r, t1)]) (r'\<lparr>ctx_info := True\<rparr>)"
    using wrap_vouched [OF let_in.prems let_in.hyps(2)] by (simp add: vouched_updates)
  with let_in enter_vouched show ?case by (auto simp: phase_vouched_snoc contact_ok_snoc)
next
  case (turned_away ins cs s t1 t2 t3 r)
  then show ?case by (auto simp: phase_vouched_snoc contact_ok_snoc)
next
  case (works ins cs st ph M st' ph')
  then have "phase_vouched gw ins ph" by simp
  with works step_vouched [OF works.hyps(2)] contact_vouched [of gw ins ph]
  show ?case by (auto simp: contact_ok_def simp del: contact.simps)
qed simp

text \<open>C6: Whatever is sent to a node is sent for a key that was presented. In every interleaving, each
  request any node has been sent carries no credential and acts for a label whose key, or whose
  session token while it was valid, was on one of the requests that came in.\<close>

theorem contacts_authentic:
  assumes "traced V gw st0 ins cs s" and "keys_load environ = Inr (mw_keys (gw_auth gw))" and "(l, ob) \<in> set cs"
  shows "credential_free (ob_request ob) \<and>
     (\<exists>(r, now) \<in> set ins. presents_bearer (gw_auth gw) r l \<or> presents_cookie (gw_auth gw) now r l)"
  using traced_vouched [OF assms(1,2)] assms(3) by (fastforce simp: contact_ok_def authentic_def)

section \<open>How often a node is asked\<close>

fun contacts_left :: "phase \<Rightarrow> nat" where
  "contacts_left (Metered r sd) = 2"
| "contacts_left (Admitted r sd) = 2"
| "contacts_left (Reading r sd) = 2"
| "contacts_left (Parsed r b sd) = 2"
| "contacts_left (First r b sd t rid) = 2"
| "contacts_left (Leaving rp sd) = 0"
| "contacts_left (Answered rp sd) = 0"
| "contacts_left ph = 1"

lemma sends_le: "length (sends r t) \<le> Suc 0" "Suc (length (sends r t)) \<le> 2" "length (sends r t) \<le> 2"
  by (simp_all add: sends_def split: option.split)

lemma step_contacts: "step V rt (st, ph) (st', ph') \<Longrightarrow> length (contact ph) + contacts_left ph' \<le> contacts_left ph"
  by (cases rule: step_cases) (auto simp: sends_le)

lemma enter_contacts: "contacts_left (enter V r sd) \<le> 2"
  by (simp add: enter_def Let_def)

definition contacts_ahead :: "phase multiset \<Rightarrow> nat" where
  "contacts_ahead M = \<Sum>\<^sub># (image_mset contacts_left M)"

text \<open>C20: One request makes at most two. In every interleaving the number of requests sent to nodes is at
  most twice the number that came in, and a request the middleware turned away adds none.\<close>

theorem amplification_bounded:
  assumes "traced V gw st0 ins cs s"
  shows "length cs \<le> 2 * length (filter (\<lambda>(r, now). \<exists>t2 t3 r'. wrap (gw_auth gw) now t2 t3 r = Forwarded r') ins)"
proof -
  have "length cs + contacts_ahead (snd s) \<le>
      2 * length (filter (\<lambda>(r, now). \<exists>t2 t3 r'. wrap (gw_auth gw) now t2 t3 r = Forwarded r') ins)"
    using assms
  proof (induction rule: traced.induct)
    case idle
    then show ?case by (simp add: contacts_ahead_def)
  next
    case (let_in ins cs st M t1 t2 t3 r r')
    moreover have "\<exists>t2 t3 r'. wrap (gw_auth gw) t1 t2 t3 r = Forwarded r'" using let_in.hyps(2) by blast
    ultimately show ?case using enter_contacts [of V "r'\<lparr>ctx_info := True\<rparr>" no_info] by (simp add: contacts_ahead_def)
  next
    case (turned_away ins cs s t1 t2 t3 r)
    then show ?case by simp
  next
    case (works ins cs st ph M st' ph')
    with step_contacts [OF works.hyps(2)] show ?case by (simp add: contacts_ahead_def)
  qed
  then show ?thesis by simp
qed

section \<open>The limiter's map\<close>

lemma authentic_label: "keys_ok (mw_keys (gw_auth gw)) \<Longrightarrow> authentic gw ins l \<Longrightarrow> l \<in> set (labels (mw_keys (gw_auth gw)))"
  by (auto simp: authentic_def presents_bearer_def presents_cookie_def labels_secret verify_iff)

lemma allow_dom:
  "allow oor (Some l) label now = (d, lm) \<Longrightarrow> \<exists>l'. lm = Some l' \<and> dom (buckets l') \<subseteq> insert label (dom (buckets l))"
  by (auto simp: allow_def Let_def split: if_splits)

lemma metered_dom:
  assumes "step V rt (st, Metered r sd) (st', ph')" "limits st = Some l"
  shows "\<exists>l'. limits st' = Some l' \<and> dom (buckets l') \<subseteq> insert (label_from_context r) (dom (buckets l))"
proof -
  obtain oor now d lm where "allow oor (Some l) (label_from_context r) now = (d, lm)" "limits st' = lm"
    using assms by (auto simp: step_simps)
  with allow_dom show ?thesis by metis
qed

lemma traced_buckets:
  assumes "traced V gw st0 ins cs (st, M)" and "keys_load environ = Inr (mw_keys (gw_auth gw))"
    and "limits st0 = Some (new_limiter per_minute n)"
  shows "\<exists>l. limits st = Some l \<and> dom (buckets l) \<subseteq> set (labels (mw_keys (gw_auth gw)))"
proof -
  let ?K = "set (labels (mw_keys (gw_auth gw)))"
  have "\<exists>l. limits (fst s) = Some l \<and> dom (buckets l) \<subseteq> ?K" if "traced V gw st0 ins cs s" for ins cs s using that
  proof (induction rule: traced.induct)
    case idle
    then show ?case by (simp add: assms(3) new_buckets)
  next
    case (works ins cs st ph M st' ph')
    then obtain l where l: "limits st = Some l" "dom (buckets l) \<subseteq> ?K" by auto
    show ?case
    proof (cases "awaits_limiter ph")
      case True
      then obtain r sd where ph: "ph = Metered r sd" by (cases ph) simp_all
      have "vouched gw ins r" using traced_vouched [OF works.hyps(1) assms(2)] ph by (simp add: phase_vouched_def)
      then have "label_from_context r \<in> ?K"
        using authentic_label [OF keys_load_ok [OF assms(2)]] by (auto simp: vouched_def)
      moreover obtain l' where "limits st' = Some l'" "dom (buckets l') \<subseteq> insert (label_from_context r) (dom (buckets l))"
        using metered_dom [OF works.hyps(2) [unfolded ph] l(1)] by blast
      ultimately show ?thesis using l(2) by (intro exI [of _ l']) auto
    next
      case False
      with l step_limits [OF works.hyps(2)] show ?thesis by simp
    qed
  qed simp_all
  from this [OF assms(1)] show ?thesis by simp
qed

section \<open>The limits that were configured\<close>

lemma fresh_fresh_state:
  "fleet_start V ms tune cfg version = Inr f \<Longrightarrow> fresh (fresh_state ks cfg f)"
proof -
  assume "fleet_start V ms tune cfg version = Inr f"
  then have "fl_picker f = new_picker (mesh_stale_after (mesh cfg)) (config.view_nodes cfg)"
    by (auto simp: fleet_start_def Let_def split: sum.splits option.splits)
  then show ?thesis unfolding fresh_state_def fresh_def by auto
qed

text \<open>C8: The limits that were configured hold for the running gateway. With an accepted configuration
  and the keys it was started with, at every moment of every run of less than two billion billion
  requests, no more than the configured number are being proxied, their bodies take no more memory
  than that number times the configured size and a byte, and no bucket exists but for a key.\<close>

theorem configured_limits:
  assumes "load_config getenv hostname = Inr cfg" and "keys_load environ = Inr ks"
    and "build_handler ks cfg = (gw, lmt)" and "fleet_start V ms tune cfg version = Inr f"
    and "traced V gw (fresh_state ks cfg f) ins cs (st, M)" and "length ins \<le> 2 * 10 ^ 18"
  shows "int (in_flight st) \<le> max_in_flight cfg \<and>
     int (buffered_total (gw_router gw) M) \<le> max_in_flight cfg * (max_body cfg + 1) \<and>
     (\<exists>l. limits st = Some l \<and> dom (buckets l) \<subseteq> set (labels ks))"
proof -
  have c: "int (rt_capacity (gw_router gw)) = max_in_flight cfg" "rt_max_body (gw_router gw) = max_body cfg"
    "0 \<le> max_body cfg" "mw_keys (gw_auth gw) = ks"
    using load_config_ok [OF assms(1)] assms(3)
    by (auto simp: build_handler_def new_router_def config_ok_def positive64_def)
  obtain n where n: "reached V (gw_router gw) (fresh_state ks cfg f) n (st, M)" "n \<le> 9 * length ins"
    using traced_reached [OF assms(5)] by auto
  have "n < 2 ^ 64" using n(2) assms(6) by simp
  note r = n(1) fresh_fresh_state [OF assms(4), of ks] this
  have inv: "run_inv (gw_router gw) (st, M)" using reached_inv [OF r] by simp
  have "int (in_flight st) \<le> max_in_flight cfg" using inv c(1) by (auto simp: run_inv_def)
  moreover have "buffered_total (gw_router gw) M \<le> rt_capacity (gw_router gw) * nat (rt_max_body (gw_router gw) + 1)"
    using r(1) inv c(2,3) by (intro body_ceiling) (auto simp: run_inv_def)
  then have "int (buffered_total (gw_router gw) M) \<le> int (rt_capacity (gw_router gw) * nat (max_body cfg + 1))"
    unfolding c(2) by (simp only: zle_int)
  then have "int (buffered_total (gw_router gw) M) \<le> max_in_flight cfg * (max_body cfg + 1)"
    using c(1,3) by simp
  moreover have "\<exists>l. limits st = Some l \<and> dom (buckets l) \<subseteq> set (labels ks)"
    using traced_buckets [OF assms(5)] assms(2) by (simp add: c(4) fresh_state_def build_handler_def)
  ultimately show ?thesis by blast
qed

section \<open>A run\<close>

definition run_request :: request where
  "run_request = (strip_credentials sample_request ''laptop'')\<lparr>ctx_info := True\<rparr>"

lemma run_request_view:
  "enter sample_viiwork run_request no_info = Arriving run_request no_info" "req_body run_request = None"
  "label_from_context run_request = ''laptop''" "upgrade_type (req_header run_request) = []"
proof -
  have f: "req_method run_request = ''GET''" "path (req_url run_request) = ''/v1/models''"
    by (simp_all add: run_request_def strip_rest) (simp_all add: sample_request_def sample_url_def)
  have p: "\<not> is_power_path sample_viiwork ''/v1/models''" unfolding is_power_path_def sample_viiwork_def by code_simp
  show "enter sample_viiwork run_request no_info = Arriving run_request no_info"
    by (simp add: enter_def Let_def f p landing_path_def is_alias_write_def)
  show "req_body run_request = None" by (simp add: run_request_def strip_rest sample_request_def)
  show "label_from_context run_request = ''laptop''" by (simp add: run_request_def label_from_context_def strip_label)
  show "upgrade_type (req_header run_request) = []" by (simp add: run_request_def strip_header sample_request_def) code_simp
qed

lemma sample_traced:
  "\<exists>ob st M. traced sample_viiwork sample_gateway metered_state [(sample_request, 0)] [(''laptop'', ob)] (st, M)"
proof -
  let ?V = sample_viiwork and ?gw = sample_gateway and ?r = run_request and ?t = "sample_target ''a''"
  obtain ob where ob: "outbound_of ?r (t_api_addr ?t) = Some ob"
    using run_request_view(4) by (simp add: outbound_of_def Let_def)
  have "wrap (gw_auth ?gw) 0 0 0 sample_request = Forwarded (strip_credentials sample_request ''laptop'')"
    using sample_bearer wrap_forwarded_iff [OF keys_load_ok [OF sample_mw_loaded]] by (simp add: sample_gateway_def) blast
  from let_in [OF idle this, of ?V metered_state]
  have 1: "traced ?V ?gw metered_state [(sample_request, 0)] [] (metered_state, {#Arriving ?r no_info#})"
    by (simp add: run_request_def [symmetric] run_request_view(1))
  have a: "try_acquire (gw_router ?gw) metered_state = Some (metered_state\<lparr>in_flight := 1\<rparr>)"
    by (simp add: try_acquire_def sample_gateway_def sample_router_def new_router_def metered_state_def sample_state_def)
  from works [OF 1 view_acquire [OF a]]
  have 2: "traced ?V ?gw metered_state [(sample_request, 0)] [] (metered_state\<lparr>in_flight := 1\<rparr>, {#Entered ?r no_info#})" by simp
  have v: "fleet_view ?V (re_view sample_env) (fleet (metered_state\<lparr>in_flight := 1\<rparr>)) = (Some ?t, sample_picker\<lparr>view := ''a''\<rparr>)"
    using sample_view by (simp add: fleet_view_def sample_env_def sample_state_def metered_state_def)
  from works [OF 2 view [OF v]]
  have 3: "\<exists>st. traced ?V ?gw metered_state [(sample_request, 0)] [] (st, {#Chosen ?r no_info ?t#})" by auto
  then obtain st where 3: "traced ?V ?gw metered_state [(sample_request, 0)] [] (st, {#Chosen ?r no_info ?t#})" by blast
  have b: "read_body (gw_router ?gw) 0 ?r no_info = (Inr ([], ?r), no_info)" by (simp add: read_body_def run_request_view(2))
  from works [OF 3 view_body [OF b]]
  have 4: "traced ?V ?gw metered_state [(sample_request, 0)] [] (st, {#Viewing ?r no_info ?t#})" by simp
  obtain rp sd st' where "to_view sample_node ?r ?t no_info st = (rp, sd, st')" by (simp add: to_view_def)
  from works [OF 4 viewed [OF this]] show ?thesis using ob run_request_view(3) by (simp add: sends_def) blast
qed

lemma sample_gateway_loaded: "keys_load sample_environ = Inr (mw_keys (gw_auth sample_gateway))"
  by (simp add: sample_gateway_def sample_mw_loaded)

theorem contacts_authentic_witness:
  "\<exists>ob st M. traced sample_viiwork sample_gateway metered_state [(sample_request, 0)] [(''laptop'', ob)] (st, M) \<and>
     credential_free (ob_request ob)"
proof -
  obtain ob st M where t: "traced sample_viiwork sample_gateway metered_state [(sample_request, 0)] [(''laptop'', ob)] (st, M)"
    using sample_traced by blast
  from contacts_authentic [OF t sample_gateway_loaded, of "''laptop''" ob] t show ?thesis by auto
qed

theorem amplification_bounded_witness:
  "1 \<le> 2 * length (filter (\<lambda>(r, now). \<exists>t2 t3 r'. wrap (gw_auth sample_gateway) now t2 t3 r = Forwarded r') [(sample_request, 0)])"
proof -
  obtain ob st M where "traced sample_viiwork sample_gateway metered_state [(sample_request, 0)] [(''laptop'', ob)] (st, M)"
    using sample_traced by blast
  from amplification_bounded [OF this] show ?thesis by simp
qed

definition open_fleet :: "unit fleet" where
  "open_fleet = \<lparr>fl_mesh = (), fl_poller = \<lparr>pc_self = ''gw'', pc_interval = 500000000\<rparr>,
     fl_picker = new_picker (mesh_stale_after (mesh open_config)) (config.view_nodes open_config)\<rparr>"

theorem configured_limits_witness:
  "int (in_flight (fresh_state sample_keys open_config open_fleet)) \<le> 256"
proof -
  obtain gw lmt where g: "build_handler sample_keys open_config = (gw, lmt)" by (cases "build_handler sample_keys open_config")
  then have m: "mw_keys (gw_auth gw) = sample_keys" by (auto simp: build_handler_def)
  have "keys_ok (mw_keys (gw_auth gw))" unfolding m by (rule keys_load_ok [OF sample_load])
  moreover have "presents_bearer (gw_auth gw) sample_request ''laptop''"
    using sample_bearer m by (simp add: presents_bearer_def sample_mw_def)
  ultimately have "wrap (gw_auth gw) 0 0 0 sample_request = Forwarded (strip_credentials sample_request ''laptop'')"
    using wrap_forwarded_iff by blast
  note t = let_in [OF idle this, of sample_viiwork "fresh_state sample_keys open_config open_fleet"]
  have f: "fleet_start sample_viiwork (\<lambda>_. Inr ()) None open_config ''2.0'' = Inr open_fleet"
    by (simp add: fleet_start_def open_port open_fleet_def, simp add: open_config_def)
  from configured_limits [OF open_loads sample_load g f t] show ?thesis by (simp add: open_config_def default_config_def)
qed

end
