(* ===== verification/GatewayLog.thy ===== *)
theory GatewayLog
  imports GatewayRun
begin

text \<open>
  The log of the running gateway: the runs of theory GatewayRun with the line each request leaves, be
  it the access log's, written from a defer when the handler is done, or the middleware's.
\<close>

section \<open>Runs with their lines\<close>

text \<open>
  A request between the two ends of \<open>accesslog.Wrap\<close>: the request as that handler holds it, when it
  started, and where the router has it.
\<close>

record conversation =
  cv_request :: request
  cv_start :: time
  cv_phase :: phase

text \<open>What a client was answered, with the line that was written.\<close>

type_synonym answers = "(reply \<times> log_line) list"

definition access_line_of ::
    "(string \<Rightarrow> string list) \<Rightarrow> time \<Rightarrow> request \<Rightarrow> time \<Rightarrow> reply \<Rightarrow> side \<Rightarrow> access_line" where
  "access_line_of chunks now r start rp info =
     log_request r (fold rec_call (reply_calls chunks rp) (new_recorder True)) info start now (aborts rp)"

text \<open>
  A request that is let in opens a conversation, works step by step, and closes with its line after
  the router has answered, at whatever moment its goroutine runs again. The writes a body is cut into
  are pieces of it.
\<close>

inductive logged ::
    "viiwork \<Rightarrow> gateway \<Rightarrow> gw_state \<Rightarrow> arrivals \<Rightarrow> answers \<Rightarrow> gw_state \<times> conversation multiset \<Rightarrow> bool"
  for V gw st0 where
    silent: "logged V gw st0 [] [] (st0, {#})"
  | opens: "logged V gw st0 ins ans (st, M) \<Longrightarrow> wrap (gw_auth gw) t1 t2 t3 r = Forwarded r' \<Longrightarrow>
      logged V gw st0 (ins @ [(r, t1)]) ans
        (st, add_mset \<lparr>cv_request = r'\<lparr>ctx_info := True\<rparr>, cv_start = start,
                       cv_phase = enter V (r'\<lparr>ctx_info := True\<rparr>) no_info\<rparr> M)"
  | sent_away: "logged V gw st0 ins ans s \<Longrightarrow> wrap (gw_auth gw) t1 t2 t3 r = Redirected res \<Longrightarrow>
      logged V gw st0 (ins @ [(r, t1)]) (ans @ [(Reply [] res, NoLine)]) s"
  | refused: "logged V gw st0 ins ans s \<Longrightarrow> wrap (gw_auth gw) t1 t2 t3 r = Rejected res line \<Longrightarrow>
      logged V gw st0 (ins @ [(r, t1)]) (ans @ [(Reply [] res, Reject line)]) s"
  | proceeds: "logged V gw st0 ins ans (st, add_mset c M) \<Longrightarrow> step V (gw_router gw) (st, cv_phase c) (st', ph) \<Longrightarrow>
      logged V gw st0 ins ans (st', add_mset (c\<lparr>cv_phase := ph\<rparr>) M)"
  | closes: "logged V gw st0 ins ans (st, add_mset c M) \<Longrightarrow> cv_phase c = Answered rp info \<Longrightarrow>
      \<forall>s. concat (chunks s) = s \<Longrightarrow>
      logged V gw st0 ins (ans @ [(rp, Access (access_line_of chunks now (cv_request c) (cv_start c) rp info))]) (st, M)"

text \<open>These are the runs there are: every one is a run without its lines, and every run has one.\<close>

lemma logged_traced:
  assumes "logged V gw st0 ins ans s"
  shows "\<exists>cs N. traced V gw st0 ins cs (fst s, image_mset cv_phase (snd s) + N) \<and> (\<forall>ph \<in># N. answered ph)"
  using assms
proof (induction rule: logged.induct)
  case silent
  show ?case using traced.idle by (intro exI [of _ "[]"] exI [of _ "{#}"]) simp
next
  case (opens ins ans st M t1 t2 t3 r r' start)
  then obtain cs N where t: "traced V gw st0 ins cs (st, image_mset cv_phase M + N)" "\<forall>ph \<in># N. answered ph" by auto
  from let_in [OF t(1) opens.hyps(2)] t(2) show ?case by (intro exI [of _ cs] exI [of _ N]) simp
next
  case (sent_away ins ans s t1 t2 t3 r res)
  then obtain cs N where t: "traced V gw st0 ins cs (fst s, image_mset cv_phase (snd s) + N)" "\<forall>ph \<in># N. answered ph" by auto
  from turned_away [OF t(1), of t1 t2 t3 r] t(2) sent_away.hyps(2) show ?case by (intro exI [of _ cs] exI [of _ N]) simp
next
  case (refused ins ans s t1 t2 t3 r res line)
  then obtain cs N where t: "traced V gw st0 ins cs (fst s, image_mset cv_phase (snd s) + N)" "\<forall>ph \<in># N. answered ph" by auto
  from turned_away [OF t(1), of t1 t2 t3 r] t(2) refused.hyps(2) show ?case by (intro exI [of _ cs] exI [of _ N]) simp
next
  case (proceeds ins ans st c M st' ph)
  then obtain cs N where t: "traced V gw st0 ins cs (st, add_mset (cv_phase c) (image_mset cv_phase M + N))"
    "\<forall>ph \<in># N. answered ph" by auto
  from works [OF t(1) proceeds.hyps(2)] t(2) show ?case
    by (intro exI [of _ "cs @ contact (cv_phase c)"] exI [of _ N]) simp
next
  case (closes ins ans st c M rp info chunks now)
  then obtain cs N where t: "traced V gw st0 ins cs (st, image_mset cv_phase M + add_mset (cv_phase c) N)"
    "\<forall>ph \<in># N. answered ph" by auto
  then show ?case using closes.hyps(2) by (intro exI [of _ cs] exI [of _ "add_mset (cv_phase c) N"]) (auto simp: answered_def)
qed

lemma traced_logged:
  assumes "traced V gw st0 ins cs s"
  shows "\<exists>ans M. logged V gw st0 ins ans (fst s, M) \<and> image_mset cv_phase M = snd s"
  using assms
proof (induction rule: traced.induct)
  case idle
  show ?case using silent by fastforce
next
  case (let_in ins cs st M t1 t2 t3 r r')
  then obtain ans N where n: "logged V gw st0 ins ans (st, N)" "image_mset cv_phase N = M" by auto
  from opens [OF n(1) let_in.hyps(2), of 0] n(2) show ?case by fastforce
next
  case (turned_away ins cs s t1 t2 t3 r)
  then obtain ans N where n: "logged V gw st0 ins ans (fst s, N)" "image_mset cv_phase N = snd s" by auto
  show ?case
  proof (cases "wrap (gw_auth gw) t1 t2 t3 r")
    case (Redirected res)
    from sent_away [OF n(1) this] n(2) show ?thesis by blast
  next
    case (Rejected res line)
    from refused [OF n(1) this] n(2) show ?thesis by blast
  qed (use turned_away.hyps(2) in simp)
next
  case (works ins cs st ph M st' ph')
  then obtain ans N where n: "logged V gw st0 ins ans (st, N)" "image_mset cv_phase N = add_mset ph M" by auto
  then obtain c N' where c: "N = add_mset c N'" "cv_phase c = ph" "image_mset cv_phase N' = M"
    by (metis msed_map_invR)
  have "logged V gw st0 ins ans (st', add_mset (c\<lparr>cv_phase := ph'\<rparr>) N')"
    using proceeds [of V gw st0 ins ans st c N'] n(1) c(1,2) works.hyps(2) by simp
  with c(3) show ?case by fastforce
qed

section \<open>Whose line it is\<close>

text \<open>What a line and a request are recognised by: method, path, address and label.\<close>

type_synonym who = "string \<times> string \<times> string \<times> string option"

definition who_request :: "request \<Rightarrow> who" where
  "who_request r = (req_method r, path (req_url r), client_ip r, unless_empty (label_from_context r))"

definition who_line :: "access_line \<Rightarrow> who" where
  "who_line al = (al_method al, al_path al, al_remote al, al_key al)"

fun access_of :: "reply \<times> log_line \<Rightarrow> who option" where
  "access_of (rp, Access al) = Some (who_line al)"
| "access_of (rp, _) = None"

fun refusal_of :: "reply \<times> log_line \<Rightarrow> reject_log option" where
  "refusal_of (rp, Reject line) = Some line"
| "refusal_of (rp, _) = None"

text \<open>How a request that came in is to be logged: as the client sent it, with the key it presented.\<close>

fun to_access :: "gateway \<Rightarrow> request \<times> time \<Rightarrow> who option" where
  "to_access gw (r, now) =
     (case wrap (gw_auth gw) now 0 0 r of
        Forwarded r' \<Rightarrow> Some (req_method r, path (req_url r), client_ip r, Some (label_from_context r'))
      | _ \<Rightarrow> None)"

fun to_refuse :: "gateway \<Rightarrow> request \<times> time \<Rightarrow> reject_log option" where
  "to_refuse gw (r, now) = (case wrap (gw_auth gw) now 0 0 r of Rejected res line \<Rightarrow> Some line | _ \<Rightarrow> None)"

text \<open>The later two clocks of \<open>Wrap\<close> only enter the cookie it sets.\<close>

lemma wrap_clocks:
  "wrap m t1 t2 t3 r = Forwarded r' \<Longrightarrow> wrap m t1 0 0 r = Forwarded r'"
  "wrap m t1 t2 t3 r = Rejected res line \<Longrightarrow> wrap m t1 0 0 r = Rejected res line"
  "wrap m t1 t2 t3 r = Redirected res \<Longrightarrow> \<exists>res. wrap m t1 0 0 r = Redirected res"
  by (auto simp: wrap_def Let_def reject_def split: option.splits if_splits)

text \<open>Conversations are of requests that came in with a credential.\<close>

definition opened_by :: "gateway \<Rightarrow> arrivals \<Rightarrow> request \<Rightarrow> bool" where
  "opened_by gw ins rq \<longleftrightarrow>
     (\<exists>(r, now) \<in> set ins. \<exists>l. (presents_bearer (gw_auth gw) r l \<or> presents_cookie (gw_auth gw) now r l) \<and>
        rq = (strip_credentials r l)\<lparr>ctx_info := True\<rparr>)"

lemma opened_snoc: "opened_by gw ins rq \<Longrightarrow> opened_by gw (ins @ xs) rq"
  by (auto simp: opened_by_def)

lemma wrap_opened:
  assumes "keys_ok (mw_keys (gw_auth gw))" "wrap (gw_auth gw) t1 t2 t3 r = Forwarded r'"
  shows "opened_by gw (ins @ [(r, t1)]) (r'\<lparr>ctx_info := True\<rparr>)"
    "to_access gw (r, t1) = Some (who_request (r'\<lparr>ctx_info := True\<rparr>))"
proof -
  obtain l where l: "presents_bearer (gw_auth gw) r l \<or> presents_cookie (gw_auth gw) t1 r l" "r' = strip_credentials r l"
    using assms(2) unfolding wrap_forwarded_iff [OF assms(1)] by blast
  then show "opened_by gw (ins @ [(r, t1)]) (r'\<lparr>ctx_info := True\<rparr>)" by (auto simp: opened_by_def)
  have "l \<noteq> []" by (rule presented_label [OF l(1) assms(1)])
  then show "to_access gw (r, t1) = Some (who_request (r'\<lparr>ctx_info := True\<rparr>))"
    using wrap_clocks(1) [OF assms(2)] l(2)
    by (simp add: who_request_def client_ip_strip strip_rest label_from_context_def strip_label unless_empty_def)
qed

lemma who_access: "who_line (access_line_of chunks now r start rp info) = who_request r"
  by (simp add: who_line_def access_line_of_def log_request_def who_request_def)

lemma map_filter_snoc: "List.map_filter f (xs @ [x]) = List.map_filter f xs @ (case f x of None \<Rightarrow> [] | Some y \<Rightarrow> [y])"
  by (simp add: map_filter_def split: option.split)

lemma logged_opened:
  assumes "logged V gw st0 ins ans s" "keys_ok (mw_keys (gw_auth gw))"
  shows "\<forall>c \<in># snd s. opened_by gw ins (cv_request c)"
  using assms
proof (induction rule: logged.induct)
  case (opens ins ans st M t1 t2 t3 r r' start)
  then show ?case using wrap_opened(1) [OF opens.prems opens.hyps(2)] by (auto intro: opened_snoc)
qed (auto intro: opened_snoc)

text \<open>C16: Every request leaves exactly one line, or none yet. In every interleaving, each request that
  came in is either still being worked on or was answered once; the access lines together with the
  requests still open are, one for one, the requests let in, with the method, path and address the
  client sent and the key it presented; and the rejections are those of the requests refused.\<close>

theorem one_line_each:
  assumes "logged V gw st0 ins ans (st, M)" and "keys_load environ = Inr (mw_keys (gw_auth gw))"
  shows "length ans + size M = length ins \<and>
     mset (List.map_filter access_of ans) + image_mset (who_request \<circ> cv_request) M = mset (List.map_filter (to_access gw) ins) \<and>
     mset (List.map_filter refusal_of ans) = mset (List.map_filter (to_refuse gw) ins)"
proof -
  note ok = keys_load_ok [OF assms(2)]
  have "length ans + size (snd s) = length ins \<and>
     mset (List.map_filter access_of ans) + image_mset (who_request \<circ> cv_request) (snd s) = mset (List.map_filter (to_access gw) ins) \<and>
     List.map_filter refusal_of ans = List.map_filter (to_refuse gw) ins"
    if "logged V gw st0 ins ans s" for ins ans s using that
  proof (induction rule: logged.induct)
    case silent
    show ?case by (simp add: map_filter_simps)
  next
    case (opens ins ans st M t1 t2 t3 r r' start)
    note w = wrap_opened(2) [OF ok opens.hyps(2)] wrap_clocks(1) [OF opens.hyps(2)]
    with opens.IH show ?case by (simp add: map_filter_snoc del: to_access.simps)
  next
    case (sent_away ins ans s t1 t2 t3 r res)
    then show ?case using wrap_clocks(3) [OF sent_away.hyps(2)] by (auto simp: map_filter_snoc)
  next
    case (refused ins ans s t1 t2 t3 r res line)
    then show ?case using wrap_clocks(2) [OF refused.hyps(2)] by (auto simp: map_filter_snoc)
  next
    case (proceeds ins ans st c M st' ph)
    then show ?case by simp
  next
    case (closes ins ans st c M rp info chunks now)
    then show ?case by (simp add: map_filter_snoc who_access)
  qed
  from this [OF assms(1)] show ?thesis by simp
qed

text \<open>C22: Every access line is true. In every interleaving the line written with an answer has the method
  and path of a request that came in, its attributed address and the label of a credential that was
  on it, never the secret; it says aborted exactly if the answer broke off; its status is the first
  status that was written for the answer, an informational one if one came first, and 200 where none
  was written; and its size is the length of the body written, as an \<open>int64\<close>, so none for a client
  that was gone and for a connection that switched protocols.\<close>

theorem lines_faithful:
  assumes "logged V gw st0 ins ans (st, M)" and "keys_load environ = Inr (mw_keys (gw_auth gw))"
    and "(rp, Access line) \<in> set ans"
  shows "(\<exists>(r, now) \<in> set ins. al_method line = req_method r \<and> al_path line = path (req_url r) \<and>
        al_remote line = client_ip r \<and>
        (\<exists>l. (presents_bearer (gw_auth gw) r l \<or> presents_cookie (gw_auth gw) now r l) \<and> al_key line = Some l)) \<and>
     (al_aborted line \<longleftrightarrow> aborts rp) \<and>
     al_status line = hd (filter (\<lambda>s. s \<noteq> 0) (headers_written rp) @ [200]) \<and>
     al_bytes line = wrap64 (int (bytes_written rp))"
  using assms
proof (induction rule: logged.induct)
  case (opens ins ans st M t1 t2 t3 r r' start)
  then show ?case by fastforce
next
  case (closes ins ans st c M rp' info chunks now)
  show ?case
  proof (cases "(rp, Access line) \<in> set ans")
    case True
    with closes show ?thesis by simp
  next
    case False
    then have rp: "rp = rp'" and line: "line = access_line_of chunks now (cv_request c) (cv_start c) rp info"
      using closes.prems(2) by simp_all
    note ok = keys_load_ok [OF closes.prems(1)]
    have "opened_by gw ins (cv_request c)" using logged_opened [OF closes.hyps(1) ok] by simp
    then obtain r t1 l where r: "(r, t1) \<in> set ins" "presents_bearer (gw_auth gw) r l \<or> presents_cookie (gw_auth gw) t1 r l"
      "cv_request c = (strip_credentials r l)\<lparr>ctx_info := True\<rparr>" by (auto simp: opened_by_def)
    have "l \<noteq> []" by (rule presented_label [OF r(2) ok])
    then have "al_method line = req_method r \<and> al_path line = path (req_url r) \<and> al_remote line = client_ip r \<and> al_key line = Some l"
      by (simp add: line access_line_of_def log_request_def r(3) client_ip_strip strip_rest label_from_context_def
          strip_label unless_empty_def)
    moreover have "al_aborted line \<longleftrightarrow> aborts rp" by (simp add: line access_line_of_def log_request_def)
    moreover have "al_status line = hd (filter (\<lambda>s. s \<noteq> 0) (headers_written rp) @ [200])"
      by (simp add: line access_line_of_def recorded_status first_status_def status_ok_def)
    moreover have "al_bytes line = wrap64 (int (bytes_written rp))"
      unfolding line access_line_of_def by (rule recorded_bytes [OF closes.hyps(3)])
    ultimately show ?thesis using r(1,2) by fastforce
  qed
qed auto

section \<open>A request by itself\<close>

lemma proceeds_on:
  assumes "(step V (gw_router gw))\<^sup>*\<^sup>* (st, cv_phase c) (st', ph)" "logged V gw st0 ins ans (st, add_mset c M)"
  shows "logged V gw st0 ins ans (st', add_mset (c\<lparr>cv_phase := ph\<rparr>) M)"
  using assms(1)
proof (induction "(st', ph)" arbitrary: st' ph rule: rtranclp_induct)
  case base
  then show ?case using assms(2) by simp
next
  case (step y)
  obtain st1 ph1 where y: "y = (st1, ph1)" by (cases y)
  from step.hyps(3) [OF y] proceeds [of V gw st0 ins ans st1 "c\<lparr>cv_phase := ph1\<rparr>" M] step.hyps(2) y show ?case by simp
qed

text \<open>What a run with one request has come to, before its line and after.\<close>

lemma logged_one:
  assumes "logged V gw st0 ins ans s"
  shows "(ins = [] \<longrightarrow> ans = [] \<and> s = (st0, {#})) \<and>
     (\<forall>r t. ins = [(r, t)] \<and> ans = [] \<longrightarrow>
        (\<exists>r' t2 t3 c. wrap (gw_auth gw) t t2 t3 r = Forwarded r' \<and> snd s = {#c#} \<and> cv_request c = r'\<lparr>ctx_info := True\<rparr> \<and>
           (step V (gw_router gw))\<^sup>*\<^sup>* (st0, enter V (cv_request c) no_info) (fst s, cv_phase c))) \<and>
     (\<forall>r t rp line. ins = [(r, t)] \<and> ans = [(rp, line)] \<longrightarrow> snd s = {#} \<and>
        (\<exists>env. se_auth_now env = t \<and> (\<forall>b. concat (se_chunks env b) = b) \<and> handle V gw env r st0 = (rp, line, fst s)))"
  using assms
proof (induction rule: logged.induct)
  case silent
  show ?case by simp
next
  case (opens ins ans st M t1 t2 t3 r r' start)
  then show ?case by (auto intro!: exI [of _ r'])
next
  case (sent_away ins ans s t1 t2 t3 r res)
  let ?env = "undefined\<lparr>se_auth_now := t1, se_mint_now := t2, se_cookie_now := t3, se_chunks := (\<lambda>s. [s])\<rparr>"
  have "handle V gw ?env r st0 = (Reply [] res, NoLine, st0)" using sent_away.hyps(2) by (simp add: handle_def)
  with sent_away.IH show ?case by (auto intro!: exI [of _ ?env])
next
  case (refused ins ans s t1 t2 t3 r res line)
  let ?env = "undefined\<lparr>se_auth_now := t1, se_mint_now := t2, se_cookie_now := t3, se_chunks := (\<lambda>s. [s])\<rparr>"
  have "handle V gw ?env r st0 = (Reply [] res, Reject line, st0)" using refused.hyps(2) by (simp add: handle_def)
  with refused.IH show ?case by (auto intro!: exI [of _ ?env])
next
  case (proceeds ins ans st c M st' ph)
  then show ?case by (auto, blast intro: rtranclp.rtrancl_into_rtrancl)
next
  case (closes ins ans st c M rp info chunks now)
  have "snd (st, M) = {#} \<and> (\<exists>env. se_auth_now env = t \<and> (\<forall>b. concat (se_chunks env b) = b) \<and>
      handle V gw env r st0 = (rp, Access (access_line_of chunks now (cv_request c) (cv_start c) rp info), st))"
    if ins: "ins = [(r, t)]" "ans = []" for r t
  proof -
    obtain r' t2 t3 where w: "wrap (gw_auth gw) t t2 t3 r = Forwarded r'" "M = {#}" "cv_request c = r'\<lparr>ctx_info := True\<rparr>"
      "(step V (gw_router gw))\<^sup>*\<^sup>* (st0, enter V (cv_request c) no_info) (st, cv_phase c)"
      using closes.IH ins by auto
    obtain route where serve: "serve_http V (gw_router gw) route (cv_request c) no_info st0 = (rp, info, st)"
      using w(4) closes.hyps(2) solo_refines [of V "gw_router gw" "cv_request c" no_info st0 rp info st] by auto
    let ?env = "\<lparr>se_auth_now = t, se_mint_now = t2, se_cookie_now = t3, se_start = cv_start c, se_end = now,
          se_route = route, se_chunks = chunks\<rparr>"
    have "handle V gw ?env r st0 =
        (rp, Access (access_line_of chunks now (cv_request c) (cv_start c) rp info), st)"
      using w(1,3) serve by (simp add: handle_def log_wrap_def access_line_of_def)
    with w(2) closes.hyps(3) show ?thesis by (intro conjI exI [of _ ?env]) simp_all
  qed
  with closes.IH show ?case by auto
qed

text \<open>A request that runs alone is the composed handler of \<open>buildHandler\<close>. The answers, lines and
  states a run with one request can end in are exactly those of \<open>handle\<close>, authentication around the
  access log around the router as one function, for some clocks, meshes and transports.\<close>

theorem alone_is_handle:
  "logged V gw st0 [(r, t)] [(rp, line)] (st, {#}) \<longleftrightarrow>
     (\<exists>env. se_auth_now env = t \<and> (\<forall>b. concat (se_chunks env b) = b) \<and> handle V gw env r st0 = (rp, line, st))"
proof
  assume "logged V gw st0 [(r, t)] [(rp, line)] (st, {#})"
  from logged_one [OF this] show "\<exists>env. se_auth_now env = t \<and> (\<forall>b. concat (se_chunks env b) = b) \<and>
      handle V gw env r st0 = (rp, line, st)" by simp
next
  assume "\<exists>env. se_auth_now env = t \<and> (\<forall>b. concat (se_chunks env b) = b) \<and> handle V gw env r st0 = (rp, line, st)"
  then obtain env where env: "se_auth_now env = t" "\<forall>b. concat (se_chunks env b) = b" and h: "handle V gw env r st0 = (rp, line, st)"
    by blast
  show "logged V gw st0 [(r, t)] [(rp, line)] (st, {#})"
  proof (cases "wrap (gw_auth gw) (se_auth_now env) (se_mint_now env) (se_cookie_now env) r")
    case (Forwarded r')
    let ?r = "r'\<lparr>ctx_info := True\<rparr>"
    let ?c = "\<lparr>cv_request = ?r, cv_start = se_start env, cv_phase = enter V ?r no_info\<rparr>"
    obtain info where s: "serve_http V (gw_router gw) (se_route env) ?r no_info st0 = (rp, info, st)"
      "line = Access (access_line_of (se_chunks env) (se_end env) ?r (se_start env) rp info)"
      using h Forwarded by (auto simp: handle_def log_wrap_def access_line_of_def Let_def split: prod.splits)
    then have "(step V (gw_router gw))\<^sup>*\<^sup>* (st0, cv_phase ?c) (st, phase.Answered rp info)"
      using solo_refines [of V "gw_router gw" ?r no_info st0 rp info st] by auto
    from proceeds_on [OF this, of st0 "[(r, t)]" "[]" "{#}"] opens [OF silent Forwarded, of V st0 "se_start env"] env(1)
    have "logged V gw st0 [(r, t)] [] (st, add_mset (?c\<lparr>cv_phase := phase.Answered rp info\<rparr>) {#})" by simp
    from closes [OF this _ env(2), of rp info "se_end env"] s(2) show ?thesis by simp
  next
    case (Redirected res)
    from sent_away [OF silent this] h Redirected env(1) show ?thesis by (simp add: handle_def)
  next
    case (Rejected res reject_line)
    from refused [OF silent this] h Rejected env(1) show ?thesis by (simp add: handle_def)
  qed
qed

section \<open>A run\<close>

text \<open>A request with a key for a path that is not available is refused, and logged so.\<close>

definition power_request :: request where
  "power_request = sample_request\<lparr>req_url := sample_url\<lparr>path := ''/v1/power''\<rparr>\<rparr>"

lemma power_entered:
  "enter sample_viiwork ((strip_credentials power_request ''laptop'')\<lparr>ctx_info := True\<rparr>) no_info =
   Answered (refusal ''chassis power control is not available through the gateway; use the tailnet'') no_info"
proof -
  have "path (req_url ((strip_credentials power_request ''laptop'')\<lparr>ctx_info := True\<rparr>)) = ''/v1/power''"
    by (simp add: strip_rest) (simp add: power_request_def)
  moreover have "is_power_path sample_viiwork ''/v1/power''" unfolding is_power_path_def sample_viiwork_def by code_simp
  ultimately show ?thesis by (simp add: enter_def Let_def)
qed

lemma sample_logged:
  "\<exists>res line. logged sample_viiwork sample_gateway sample_state [(power_request, 0)] [(Reply [] res, Access line)] (sample_state, {#}) \<and>
     status res = 403"
proof -
  let ?r = "(strip_credentials power_request ''laptop'')\<lparr>ctx_info := True\<rparr>"
  let ?c = "\<lparr>cv_request = ?r, cv_start = 0, cv_phase = enter sample_viiwork ?r no_info\<rparr>"
  have "presents_bearer (gw_auth sample_gateway) power_request ''laptop''"
    using sample_bearer by (simp add: presents_bearer_def power_request_def sample_gateway_def)
  moreover have "keys_ok (mw_keys (gw_auth sample_gateway))" by (rule keys_load_ok [OF sample_gateway_loaded])
  ultimately have "wrap (gw_auth sample_gateway) 0 0 0 power_request = Forwarded (strip_credentials power_request ''laptop'')"
    using wrap_forwarded_iff by blast
  from opens [OF silent this, of sample_viiwork sample_state 0]
  have o: "logged sample_viiwork sample_gateway sample_state [(power_request, 0)] [] (sample_state, add_mset ?c {#})" by simp
  have "\<forall>s. concat ((\<lambda>s :: string. [s]) s) = s" by simp
  from closes [OF o _ this, of "refusal ''chassis power control is not available through the gateway; use the tailnet''" no_info 0]
  show ?thesis by (auto simp: power_entered refusal_def secure_error_def write_error_def status_forbidden_def)
qed

theorem one_line_each_witness:
  "\<exists>res line. size (List.map_filter access_of [(Reply [] res, Access line)]) = 1 \<and>
     List.map_filter (to_access sample_gateway) [(power_request, 0)] = [who_line line]"
proof -
  obtain res line where l: "logged sample_viiwork sample_gateway sample_state [(power_request, 0)] [(Reply [] res, Access line)] (sample_state, {#})"
    using sample_logged by blast
  from one_line_each [OF l sample_gateway_loaded] show ?thesis
    by (intro exI [of _ res] exI [of _ line]) (simp add: map_filter_simps split: option.splits)
qed

theorem lines_faithful_witness:
  "\<exists>res line. logged sample_viiwork sample_gateway sample_state [(power_request, 0)] [(Reply [] res, Access line)] (sample_state, {#}) \<and>
     al_path line = ''/v1/power'' \<and> al_status line = 403 \<and> \<not> al_aborted line"
proof -
  obtain res line where l: "logged sample_viiwork sample_gateway sample_state [(power_request, 0)] [(Reply [] res, Access line)] (sample_state, {#})"
    "status res = 403" using sample_logged by blast
  from lines_faithful [OF l(1) sample_gateway_loaded, of "Reply [] res" line] l show ?thesis
    by (auto simp: aborts_def power_request_def headers_written_def)
qed

end
