(* ===== verification/PickerRefine.thy ===== *)
theory PickerRefine
  imports PickerSpec
begin

text \<open>
  The picker against what it promises, over any history of calls. The abstract book knows no
  identifiers, no rotation and no sorting: it has the forwards that were granted, in their order,
  which of them are over, and which node serves the dashboards. Every history of \<open>Pick\<close>, release
  and \<open>View\<close> calls with its results is one the book allows.
\<close>

section \<open>Histories of calls\<close>

text \<open>A call with what it reads from outside; a release names the function by the pick that gave it.\<close>

datatype picker_op =
    CallPick fleet_env string "string list"
  | CallRelease nat
  | CallView fleet_env

datatype picker_result = Picked "target option" | Released | Viewed "target option"

text \<open>The picker and the release functions it has handed out.\<close>

type_synonym picker_client = "picker \<times> release_fn list"

fun picker_call :: "viiwork \<Rightarrow> picker_op \<Rightarrow> picker_client \<Rightarrow> picker_result \<times> picker_client" where
  "picker_call V (CallPick e model ex) (p, fs) =
     (case pick V (fe_view e) (fe_now e) model ex p of
        (None, p) \<Rightarrow> (Picked None, p, fs)
      | (Some (t, rid), p) \<Rightarrow> (Picked (Some t), p, fs @ [\<lparr>rel_id = rid, rel_done = False\<rparr>]))"
| "picker_call V (CallRelease k) (p, fs) =
     (if k < length fs then (case call_release (fs ! k) p of (f, p) \<Rightarrow> (Released, p, fs[k := f]))
      else (Released, p, fs))"
| "picker_call V (CallView e) (p, fs) =
     (case view_pick V (fe_view e) (fe_now e) p of (t, p) \<Rightarrow> (Viewed t, p, fs))"

fun picker_calls :: "viiwork \<Rightarrow> picker_op list \<Rightarrow> picker_client \<Rightarrow> picker_result list \<times> picker_client" where
  "picker_calls V [] s = ([], s)"
| "picker_calls V (c # cs) s =
     (case picker_call V c s of (res, s) \<Rightarrow> (case picker_calls V cs s of (rs, s) \<Rightarrow> (res # rs, s)))"

section \<open>The book\<close>

text \<open>A grant and whether its forward is still under way.\<close>

record book =
  bk_grants :: "(reservation \<times> bool) list"
  bk_view :: string

definition empty_book :: book where
  "empty_book = \<lparr>bk_grants = [], bk_view = []\<rparr>"

definition under_way :: "book \<Rightarrow> reservation list" where
  "under_way bk = map fst (filter snd (bk_grants bk))"

text \<open>
  What a node has to offer for a model: the slots its last fresh report says are free, less the
  forwards to it for that model under way that began after the report, an \<open>int\<close> subtraction, and its
  round-trip time.
\<close>

definition offers ::
    "viiwork \<Rightarrow> duration \<Rightarrow> fleet_env \<Rightarrow> string \<Rightarrow> string list \<Rightarrow> book \<Rightarrow> target \<Rightarrow> int \<Rightarrow> duration \<Rightarrow> bool" where
  "offers V stale e model ex bk t free rtt \<longleftrightarrow>
     t_node t \<notin> set ex \<and> (\<exists>m \<in> set (mv_members (fe_view e)). routable V m \<and> m_name m = t_node t) \<and>
     (\<exists>rep mc. mv_report (fe_view e) (t_node t) = Some rep \<and> cap_fresh V rep (fe_now e) stale \<and>
        cap_model V rep model = Some mc \<and> 0 < mc_healthy mc \<and> t_api_addr t = rep_api_addr rep \<and>
        free = max 0 (wrap64 (mc_free V mc - int (length (filter (\<lambda>g. rs_node g = t_node t \<and> rs_model g = model \<and>
                                                     rep_received rep < rs_at g) (under_way bk))))) \<and>
        rtt = rep_rtt rep)"

text \<open>A node that may serve the dashboards at all.\<close>

definition viewable :: "viiwork \<Rightarrow> duration \<Rightarrow> fleet_env \<Rightarrow> target \<Rightarrow> bool" where
  "viewable V stale e t \<longleftrightarrow>
     (\<exists>m \<in> set (mv_members (fe_view e)). routable V m \<and> m_name m = t_node t) \<and>
     (\<exists>rep. mv_report (fe_view e) (t_node t) = Some rep \<and> cap_fresh V rep (fe_now e) stale \<and>
        t_api_addr t = rep_api_addr rep)"

text \<open>Which of two nodes an operator's list names first.\<close>

fun named_before :: "string list \<Rightarrow> string \<Rightarrow> string \<Rightarrow> bool" where
  "named_before [] a b = False"
| "named_before (n # ns) a b = (n \<noteq> b \<and> (n = a \<or> named_before ns a b))"

text \<open>The results the book allows a call, with the book afterwards.\<close>

inductive book_step :: "viiwork \<Rightarrow> duration \<Rightarrow> string list \<Rightarrow> picker_op \<Rightarrow> book \<Rightarrow> picker_result \<Rightarrow> book \<Rightarrow> bool"
  for V stale names where
    grant: "offers V stale e model ex bk t free rtt \<Longrightarrow>
      \<forall>u f r. offers V stale e model ex bk u f r \<longrightarrow> f < free \<or> f = free \<and> rtt \<le> r \<Longrightarrow>
      book_step V stale names (CallPick e model ex) bk (Picked (Some t))
        (bk\<lparr>bk_grants := bk_grants bk @ [(\<lparr>rs_node = t_node t, rs_model = model, rs_at = fe_now e\<rparr>, True)]\<rparr>)"
  | no_grant: "\<forall>u f r. \<not> offers V stale e model ex bk u f r \<Longrightarrow>
      book_step V stale names (CallPick e model ex) bk (Picked None) bk"
  | over: "k < length (bk_grants bk) \<Longrightarrow>
      book_step V stale names (CallRelease k) bk Released
        (bk\<lparr>bk_grants := (bk_grants bk)[k := (fst (bk_grants bk ! k), False)]\<rparr>)"
  | no_such: "length (bk_grants bk) \<le> k \<Longrightarrow> book_step V stale names (CallRelease k) bk Released bk"
  | listed: "viewable V stale e t \<Longrightarrow> t_node t \<in> set names \<Longrightarrow>
      \<forall>u. viewable V stale e u \<longrightarrow> \<not> named_before names (t_node u) (t_node t) \<Longrightarrow>
      book_step V stale names (CallView e) bk (Viewed (Some t)) (bk\<lparr>bk_view := t_node t\<rparr>)"
  | kept: "names = [] \<Longrightarrow> viewable V stale e t \<Longrightarrow> t_node t = bk_view bk \<Longrightarrow>
      book_step V stale names (CallView e) bk (Viewed (Some t)) bk"
  | chosen: "names = [] \<Longrightarrow> viewable V stale e t \<Longrightarrow>
      \<forall>u. viewable V stale e u \<longrightarrow> t_node u \<noteq> bk_view bk \<and> t_node t \<le> t_node u \<Longrightarrow>
      book_step V stale names (CallView e) bk (Viewed (Some t)) (bk\<lparr>bk_view := t_node t\<rparr>)"
  | nobody: "\<forall>u. viewable V stale e u \<longrightarrow> names \<noteq> [] \<and> t_node u \<notin> set names \<Longrightarrow>
      book_step V stale names (CallView e) bk (Viewed None) (bk\<lparr>bk_view := []\<rparr>)"

inductive book_run :: "viiwork \<Rightarrow> duration \<Rightarrow> string list \<Rightarrow> (picker_op \<times> picker_result) list \<Rightarrow> book \<Rightarrow> book \<Rightarrow> bool"
  for V stale names where
    book_nil: "book_run V stale names [] bk bk"
  | book_cons: "book_step V stale names c bk res bk1 \<Longrightarrow> book_run V stale names h bk1 bk2 \<Longrightarrow>
      book_run V stale names ((c, res) # h) bk bk2"


section \<open>Representation\<close>

text \<open>
  The book determines the picker up to its rotation: the \<open>k\<close>-th grant has the identifier \<open>k\<close>, and the
  map holds those under way in their order.
\<close>

definition slots_of :: "(reservation \<times> bool) list \<Rightarrow> (64 word \<times> reservation) list" where
  "slots_of gs = map (\<lambda>k. (of_nat k, fst (gs ! k))) (filter (\<lambda>k. snd (gs ! k)) [0..<length gs])"

definition functions_of :: "(reservation \<times> bool) list \<Rightarrow> release_fn list" where
  "functions_of gs = map (\<lambda>k. \<lparr>rel_id = of_nat k, rel_done = \<not> snd (gs ! k)\<rparr>) [0..<length gs]"

definition pictures :: "duration \<Rightarrow> string list \<Rightarrow> picker \<Rightarrow> book \<Rightarrow> bool" where
  "pictures stale names p bk \<longleftrightarrow>
     stale_after p = stale \<and> view_nodes p = names \<and> view p = bk_view bk \<and>
     held p = slots_of (bk_grants bk) \<and> next_id p = of_nat (length (bk_grants bk))"

definition represents :: "duration \<Rightarrow> string list \<Rightarrow> picker_client \<Rightarrow> book \<Rightarrow> bool" where
  "represents stale names s bk \<longleftrightarrow> pictures stale names (fst s) bk \<and> snd s = functions_of (bk_grants bk)"

lemma id_inj: "i < 2 ^ 64 \<Longrightarrow> k < 2 ^ 64 \<Longrightarrow> (of_nat i :: 64 word) = of_nat k \<longleftrightarrow> i = k"
  by (simp add: word_of_nat_eq_iff take_bit_eq_mod)

lemma slots_grants: "map snd (slots_of gs) = map fst (filter snd gs)"
proof -
  have "map fst (filter snd gs) = map fst (filter snd (map ((!) gs) [0..<length gs]))" by (simp add: map_nth)
  then show ?thesis by (simp add: slots_of_def filter_map comp_def)
qed

lemma nth_grants: "filter (\<lambda>k. snd ((gs @ [g]) ! k)) [0..<length gs] = filter (\<lambda>k. snd (gs ! k)) [0..<length gs]"
  by (rule filter_cong) (simp_all add: nth_append)

lemma slots_snoc: "slots_of (gs @ [(g, True)]) = slots_of gs @ [(of_nat (length gs), g)]"
  by (simp add: slots_of_def nth_grants) (simp add: nth_append)

lemma functions_snoc: "functions_of (gs @ [(g, True)]) = functions_of gs @ [\<lparr>rel_id = of_nat (length gs), rel_done = False\<rparr>]"
  by (simp add: functions_of_def nth_append)

lemma slots_over:
  assumes "k < length gs" "length gs \<le> 2 ^ 64"
  shows "slots_of (gs[k := (g, False)]) = AList.delete (of_nat k) (slots_of gs)"
proof -
  have "filter (\<lambda>i. snd (gs[k := (g, False)] ! i)) [0..<length gs] =
      filter (\<lambda>i. (of_nat k :: 64 word) \<noteq> of_nat i) (filter (\<lambda>i. snd (gs ! i)) [0..<length gs])"
    unfolding filter_filter by (rule filter_cong) (use assms in \<open>auto simp: nth_list_update id_inj\<close>)
  moreover have "fst (gs[k := (g, False)] ! i) = fst (gs ! i)" if "(of_nat k :: 64 word) \<noteq> of_nat i" for i
    using that by (metis nth_list_update_neq)
  ultimately show ?thesis by (auto simp: slots_of_def AList.delete_eq filter_map comp_def intro!: map_cong)
qed

lemma functions_over:
  assumes "k < length gs"
  shows "functions_of (gs[k := (g, False)]) = (functions_of gs)[k := \<lparr>rel_id = of_nat k, rel_done = True\<rparr>]"
  using assms by (intro nth_equalityI) (auto simp: functions_of_def nth_list_update)

lemma slots_reserved:
  "length (filter (\<lambda>(_, r). P r) (slots_of gs)) = length (filter P (map fst (filter snd gs)))"
proof -
  have "length (filter P (map snd (slots_of gs))) = length (filter (\<lambda>(_, r). P r) (slots_of gs))"
    by (simp add: filter_map comp_def case_prod_unfold)
  then show ?thesis by (simp add: slots_grants)
qed

section \<open>Simulation\<close>

lemma offers_candidates:
  assumes "pictures stale names p bk"
  shows "offers V stale e model ex bk t free rtt \<longleftrightarrow>
     (\<exists>c \<in> set (candidates V (fe_view e) (fe_now e) p model ex). c_target c = t \<and> c_free c = free \<and> c_rtt c = rtt)"
proof -
  have r: "reserved_locked p n model received = int (length (filter (\<lambda>g. rs_node g = n \<and> rs_model g = model \<and>
      received < rs_at g) (under_way bk)))" for n received
    using assms by (simp add: pictures_def reserved_locked_def slots_reserved under_way_def after_def)
  have s: "stale_after p = stale" using assms by (simp add: pictures_def)
  note cand = candidates_iff [of _ V "fe_view e" "fe_now e" p model ex]
  show ?thesis (is "?L \<longleftrightarrow> ?R")
  proof
    assume ?L
    then obtain m rep mc where m: "m \<in> set (mv_members (fe_view e))" "routable V m" "m_name m = t_node t" "t_node t \<notin> set ex"
      and rep: "mv_report (fe_view e) (t_node t) = Some rep" "cap_fresh V rep (fe_now e) stale" "cap_model V rep model = Some mc"
        "0 < mc_healthy mc" "t_api_addr t = rep_api_addr rep"
        "free = max 0 (wrap64 (mc_free V mc - reserved_locked p (t_node t) model (rep_received rep)))" "rtt = rep_rtt rep"
      unfolding offers_def r by blast
    have "t = \<lparr>t_node = m_name m, t_api_addr = rep_api_addr rep\<rparr>" using m(3) rep(5) by (cases t) simp
    then have "candidate_of V (fe_view e) (fe_now e) p model ex m = Some \<lparr>c_target = t, c_free = free, c_rtt = rtt\<rparr>"
      using m rep by (auto simp: candidate_of_Some s)
    with m(1) have "\<lparr>c_target = t, c_free = free, c_rtt = rtt\<rparr> \<in> set (candidates V (fe_view e) (fe_now e) p model ex)"
      by (auto simp: cand)
    then show ?R by (rule rev_bexI) simp
  next
    assume ?R
    then obtain m c where "m \<in> set (mv_members (fe_view e))" "candidate_of V (fe_view e) (fe_now e) p model ex m = Some c"
      "t = c_target c" "free = c_free c" "rtt = c_rtt c" by (auto simp: cand)
    then show ?L unfolding offers_def by (auto simp: candidate_of_Some s r)
  qed
qed

lemma viewable_can:
  "stale_after p = stale \<Longrightarrow> can_view V (fe_view e) (fe_now e) p n t \<longleftrightarrow> viewable V stale e t \<and> t_node t = n"
  by (cases t) (auto simp: can_view_def viewable_def)

text \<open>A grant on the book.\<close>

definition granted :: "fleet_env \<Rightarrow> string \<Rightarrow> target \<Rightarrow> book \<Rightarrow> book" where
  "granted e model t bk =
     bk\<lparr>bk_grants := bk_grants bk @ [(\<lparr>rs_node = t_node t, rs_model = model, rs_at = fe_now e\<rparr>, True)]\<rparr>"

lemma pick_refused:
  assumes "pictures stale names p bk" "fleet_pick V e model ex p = (None, p')"
  shows "book_step V stale names (CallPick e model ex) bk (Picked None) bk" "p' = p"
proof -
  have "candidates V (fe_view e) (fe_now e) p model ex = []"
    using assms(2) pick_None [of V "fe_view e" "fe_now e" model ex p] by (simp add: fleet_pick_def)
  then have "\<forall>u f r. \<not> offers V stale e model ex bk u f r" by (simp add: offers_candidates [OF assms(1)])
  then show "book_step V stale names (CallPick e model ex) bk (Picked None) bk" by (rule no_grant)
  show "p' = p" using assms(2) pick_fail_state unfolding fleet_pick_def by blast
qed

lemma pick_granted:
  assumes "pictures stale names p bk" "length (bk_grants bk) < 2 ^ 64" "fleet_pick V e model ex p = (Some (t, rid), p')"
  shows "book_step V stale names (CallPick e model ex) bk (Picked (Some t)) (granted e model t bk)"
    "pictures stale names p' (granted e model t bk)" "rid = of_nat (length (bk_grants bk))"
proof -
  note off = offers_candidates [OF assms(1)]
  obtain c where c: "leads (candidates V (fe_view e) (fe_now e) p model ex) c" "t = c_target c" "rid = next_id p"
    "held p' = AList.update rid \<lparr>rs_node = t_node t, rs_model = model, rs_at = fe_now e\<rparr> (held p)"
    "next_id p' = rid + 1" "view p' = view p" "stale_after p' = stale_after p" "view_nodes p' = view_nodes p"
    by (rule pick_Some [OF assms(3) [unfolded fleet_pick_def]])
  have "offers V stale e model ex bk t (c_free c) (c_rtt c)" using c(1,2) by (auto simp: off leads_def)
  moreover have "\<forall>u f r. offers V stale e model ex bk u f r \<longrightarrow> f < c_free c \<or> f = c_free c \<and> c_rtt c \<le> r"
    using c(1) by (auto simp: off leads_def)
  ultimately show "book_step V stale names (CallPick e model ex) bk (Picked (Some t)) (granted e model t bk)"
    unfolding granted_def by (rule grant)
  have "next_id p \<notin> fst ` set (held p)"
    using assms(1,2) by (auto simp: pictures_def slots_of_def id_inj)
  with c assms(1) show "pictures stale names p' (granted e model t bk)"
    by (simp add: pictures_def granted_def slots_snoc alist_update_absent)
  show "rid = of_nat (length (bk_grants bk))" using c(3) assms(1) by (simp add: pictures_def)
qed

lemma pick_simulated:
  assumes "represents stale names (p, fs) bk" "length (bk_grants bk) < 2 ^ 64"
    and "picker_call V (CallPick e model ex) (p, fs) = (res, s')"
  shows "\<exists>bk'. book_step V stale names (CallPick e model ex) bk res bk' \<and> represents stale names s' bk' \<and>
     length (bk_grants bk') \<le> Suc (length (bk_grants bk))"
proof -
  have p: "pictures stale names p bk" "fs = functions_of (bk_grants bk)" using assms(1) by (simp_all add: represents_def)
  obtain y p' where y: "fleet_pick V e model ex p = (y, p')" by (cases "fleet_pick V e model ex p")
  show ?thesis
  proof (cases y)
    case None
    with pick_refused [OF p(1)] y have "book_step V stale names (CallPick e model ex) bk (Picked None) bk" "p' = p" by auto
    then show ?thesis using assms(1,3) y None by (auto simp: fleet_pick_def intro!: exI [of _ bk])
  next
    case (Some tr)
    then obtain t rid where pk: "fleet_pick V e model ex p = (Some (t, rid), p')" using y by (cases tr) auto
    note g = pick_granted [OF p(1) assms(2) pk]
    have "represents stale names (p', fs @ [\<lparr>rel_id = rid, rel_done = False\<rparr>]) (granted e model t bk)"
      using g(2,3) p(2) by (simp add: represents_def granted_def functions_snoc)
    then show ?thesis using g(1) assms(3) pk
      by (intro exI [of _ "granted e model t bk"]) (auto simp: fleet_pick_def granted_def)
  qed
qed

lemma release_pictured:
  assumes "pictures stale names p bk" "length (bk_grants bk) \<le> 2 ^ 64" "k < length (bk_grants bk)"
  shows "pictures stale names (delete_held (of_nat k) p) (bk\<lparr>bk_grants := (bk_grants bk)[k := (fst (bk_grants bk ! k), False)]\<rparr>)"
  using assms by (simp add: pictures_def delete_held_def slots_over)

lemma release_simulated:
  assumes "represents stale names (p, fs) bk" "length (bk_grants bk) \<le> 2 ^ 64"
    and "picker_call V (CallRelease k) (p, fs) = (res, s')"
  shows "\<exists>bk'. book_step V stale names (CallRelease k) bk res bk' \<and> represents stale names s' bk' \<and>
     length (bk_grants bk') \<le> Suc (length (bk_grants bk))"
proof (cases "k < length (bk_grants bk)")
  case True
  let ?gs = "bk_grants bk" and ?g = "fst (bk_grants bk ! k)"
  have fs: "fs = functions_of ?gs" and pic: "pictures stale names p bk" using assms(1) by (simp_all add: represents_def)
  have len: "length fs = length ?gs" and f: "fs ! k = \<lparr>rel_id = of_nat k, rel_done = \<not> snd (?gs ! k)\<rparr>"
    using True by (simp_all add: fs functions_of_def)
  have "represents stale names s' (bk\<lparr>bk_grants := ?gs[k := (?g, False)]\<rparr>) \<and> res = Released"
  proof (cases "snd (?gs ! k)")
    case live: True
    then have "s' = (delete_held (of_nat k) p, fs[k := \<lparr>rel_id = of_nat k, rel_done = True\<rparr>])" "res = Released"
      using assms(3) True len f by (auto simp: call_release_def)
    with release_pictured [OF pic assms(2) True] show ?thesis
      by (simp add: represents_def fs functions_over [OF True])
  next
    case False
    then have same: "?gs[k := (?g, False)] = ?gs" by (metis list_update_id prod.collapse)
    from False have "s' = (p, fs)" "res = Released"
      using assms(3) True len f list_update_id [of fs k] by (auto simp: call_release_def)
    with assms(1) show ?thesis by (simp add: same)
  qed
  with True show ?thesis using over [OF True] by (intro exI [of _ "bk\<lparr>bk_grants := ?gs[k := (?g, False)]\<rparr>"]) simp
next
  case False
  moreover have "length fs = length (bk_grants bk)" using assms(1) by (simp add: represents_def functions_of_def)
  ultimately show ?thesis using assms(1,3) by (auto intro!: exI [of _ bk] no_such)
qed

lemma find_first_named:
  "find P names = Some n \<Longrightarrow> P m \<Longrightarrow> \<not> named_before names m n"
  by (induction names) (auto split: if_splits)

lemma view_pictured:
  assumes "pictures stale names p bk" "fleet_view V e p = (res, p')"
  shows "\<exists>bk'. book_step V stale names (CallView e) bk (Viewed res) bk' \<and> pictures stale names p' bk' \<and>
     bk_grants bk' = bk_grants bk"
proof -
  note assms = assms(1) assms(2) [unfolded fleet_view_def]
  let ?el = "eligible_views V (fe_view e) (fe_now e) p"
  have s: "stale_after p = stale" "view_nodes p = names" "view p = bk_view bk"
    using assms(1) by (simp_all add: pictures_def)
  have el: "map_of ?el n = Some t \<longleftrightarrow> viewable V stale e t \<and> t_node t = n" for n t
    using viewable_can [OF s(1)] by (simp add: eligible_iff)
  have none: "map_of ?el n = None \<longleftrightarrow> (\<forall>t. viewable V stale e t \<longrightarrow> t_node t \<noteq> n)" for n
    using el by (metis not_None_eq)
  have empty: "?el = [] \<longleftrightarrow> (\<forall>t. \<not> viewable V stale e t)"
    using viewable_can [OF s(1)] by (auto simp: eligible_empty)
  have rep: "pictures stale names (p\<lparr>view := n\<rparr>) (bk\<lparr>bk_view := n\<rparr>)" for n
    using assms(1) by (simp add: pictures_def)
  show ?thesis
  proof (cases "(\<forall>u. viewable V stale e u \<longrightarrow> names \<noteq> [] \<and> t_node u \<notin> set names)")
    case True
    then have f: "find (\<lambda>n. map_of ?el n \<noteq> None) names = None" by (auto simp: find_None_iff el)
    have "view_pick V (fe_view e) (fe_now e) p = (None, p\<lparr>view := []\<rparr>)"
    proof (cases "?el = []")
      case False
      then have "names \<noteq> []" using True by (auto simp: empty)
      with f show ?thesis by (simp add: view_pick_def Let_def s)
    qed (simp add: view_pick_def)
    with assms(2) rep nobody [OF True, of bk] show ?thesis by (auto intro!: exI)
  next
    case False
    then have ne: "?el \<noteq> []" by (auto simp: empty)
    show ?thesis
    proof (cases "names = []")
      case listed: False
      with False obtain u where u: "viewable V stale e u" "t_node u \<in> set names" by blast
      then have "find (\<lambda>n. map_of ?el n \<noteq> None) names \<noteq> None" by (auto simp: find_None_iff none)
      then obtain n where n: "find (\<lambda>n. map_of ?el n \<noteq> None) names = Some n" by blast
      then have "n \<in> set names" "map_of ?el n \<noteq> None" by (auto simp: find_Some_iff)
      then obtain t where t: "map_of ?el n = Some t" by blast
      then have vt: "viewable V stale e t" "t_node t = n" by (simp_all add: el)
      have "\<forall>u. viewable V stale e u \<longrightarrow> \<not> named_before names (t_node u) (t_node t)"
        using find_first_named [OF n] none vt(2) by blast
      then have "book_step V stale names (CallView e) bk (Viewed (Some t)) (bk\<lparr>bk_view := n\<rparr>)"
        using book_step.listed [OF vt(1), of names bk] vt(2) \<open>n \<in> set names\<close> by simp
      moreover have "view_pick V (fe_view e) (fe_now e) p = (Some t, p\<lparr>view := n\<rparr>)"
        using ne listed n t by (simp add: view_pick_def s)
      ultimately show ?thesis using assms(2) rep by (auto intro!: exI)
    next
      case unlisted: True
      show ?thesis
      proof (cases "map_of ?el (bk_view bk)")
        case (Some t)
        then have "view_pick V (fe_view e) (fe_now e) p = (Some t, p)" using ne unlisted by (simp add: view_pick_def s)
        moreover have "book_step V stale names (CallView e) bk (Viewed (Some t)) bk"
          using Some kept [OF unlisted] by (simp add: el)
        ultimately show ?thesis using assms by (auto intro!: exI [of _ bk])
      next
        case None
        let ?n = "hd (sort (map fst ?el))"
        have "?n \<in> set (map fst ?el)" using ne by (metis hd_in_set map_is_Nil_conv set_empty set_sort)
        then obtain t where t: "map_of ?el ?n = Some t" by (metis map_of_eq_None_iff not_None_eq set_map)
        then have vt: "viewable V stale e t" "t_node t = ?n" by (simp_all add: el)
        have "t_node u \<noteq> bk_view bk \<and> t_node t \<le> t_node u" if "viewable V stale e u" for u
        proof
          show "t_node u \<noteq> bk_view bk" using None that by (simp add: none)
          have "map_of ?el (t_node u) \<noteq> None" using that by (auto simp: none)
          then have "t_node u \<in> set (map fst ?el)" by (metis map_of_eq_None_iff set_map)
          from hd_sort_key_le [OF this, of "\<lambda>x. x"] show "t_node t \<le> t_node u" unfolding vt(2) .
        qed
        then have "book_step V stale names (CallView e) bk (Viewed (Some t)) (bk\<lparr>bk_view := ?n\<rparr>)"
          using chosen [OF unlisted vt(1), of bk] vt(2) by simp
        moreover have "view_pick V (fe_view e) (fe_now e) p = (Some t, p\<lparr>view := ?n\<rparr>)"
          using ne unlisted None t by (simp add: view_pick_def s Let_def)
        ultimately show ?thesis using assms(2) rep by (auto intro!: exI)
      qed
    qed
  qed
qed

lemma view_simulated:
  assumes "represents stale names (p, fs) bk" "picker_call V (CallView e) (p, fs) = (res, s')"
  shows "\<exists>bk'. book_step V stale names (CallView e) bk res bk' \<and> represents stale names s' bk' \<and>
     length (bk_grants bk') \<le> Suc (length (bk_grants bk))"
proof -
  obtain y p' where y: "fleet_view V e p = (y, p')" by (cases "fleet_view V e p")
  then have s': "res = Viewed y" "s' = (p', fs)" using assms(2) by (simp_all add: fleet_view_def)
  have "pictures stale names p bk" "fs = functions_of (bk_grants bk)" using assms(1) by (simp_all add: represents_def)
  with view_pictured [OF this(1) y] s' show ?thesis by (auto simp: represents_def)
qed

text \<open>One call at a time, then all of them.\<close>

lemma call_simulated:
  assumes "represents stale names s bk" "length (bk_grants bk) < 2 ^ 64" "picker_call V c s = (res, s')"
  shows "\<exists>bk'. book_step V stale names c bk res bk' \<and> represents stale names s' bk' \<and>
     length (bk_grants bk') \<le> Suc (length (bk_grants bk))"
  using assms pick_simulated [of stale names "fst s" "snd s"] release_simulated [of stale names "fst s" "snd s"]
    view_simulated [of stale names "fst s" "snd s"]
  by (cases c) simp_all

lemma calls_simulated:
  assumes "represents stale names s bk" "length (bk_grants bk) + length cs \<le> 2 ^ 64" "picker_calls V cs s = (rs, s')"
  shows "\<exists>bk'. book_run V stale names (zip cs rs) bk bk' \<and> represents stale names s' bk' \<and> length rs = length cs"
  using assms
proof (induction cs arbitrary: s bk rs)
  case Nil
  then show ?case by (auto intro: book_nil)
next
  case (Cons c cs)
  obtain res s1 rs1 where c: "picker_call V c s = (res, s1)" "picker_calls V cs s1 = (rs1, s')" "rs = res # rs1"
    using Cons.prems(3) by (auto split: prod.splits)
  obtain bk1 where b: "book_step V stale names c bk res bk1" "represents stale names s1 bk1"
    "length (bk_grants bk1) \<le> Suc (length (bk_grants bk))"
    using call_simulated [OF Cons.prems(1) _ c(1)] Cons.prems(2) by auto
  from Cons.IH [OF b(2) _ c(2)] b(3) Cons.prems(2) obtain bk' where
    "book_run V stale names (zip cs rs1) bk1 bk'" "represents stale names s' bk'" "length rs1 = length cs" by auto
  with b(1) c(3) show ?case by (auto intro: book_cons)
qed

lemma new_represents: "represents stale names (new_picker stale names, []) empty_book"
  by (simp add: represents_def pictures_def new_picker_def empty_book_def slots_of_def functions_of_def)

text \<open>C15: The picker keeps a book of claims and nothing else shows. Whatever is called in whatever order,
  with whatever members, reports and clocks, and however often a release is repeated, the results are
  ones the abstract book allows: a pick is granted exactly if somebody offers the model, to a node
  whose offer, less the forwards begun since its report, no other beats; a release takes its own
  grant off and nothing else; the view node is the first on the operator's list, or the one it was,
  or the least. The reservations held at the end are the grants not yet over.\<close>

theorem picker_refines:
  assumes "picker_calls V cs (new_picker stale names, []) = (rs, p, fs)" and "length cs \<le> 2 ^ 64"
  shows "\<exists>bk. book_run V stale names (zip cs rs) empty_book bk \<and> length rs = length cs \<and>
     map snd (held p) = under_way bk \<and> view p = bk_view bk"
proof -
  have "length (bk_grants empty_book) + length cs \<le> 2 ^ 64" using assms(2) by (simp add: empty_book_def)
  from calls_simulated [OF new_represents this assms(1)] show ?thesis
    by (auto simp: represents_def pictures_def slots_grants under_way_def)
qed

text \<open>A pick and its release called twice.\<close>

theorem picker_refines_witness:
  "\<exists>bk. book_run sample_viiwork (3 * second) []
       [(CallPick \<lparr>fe_view = sample_mesh, fe_now = sample_now\<rparr> ''m'' [], Picked (Some (sample_target ''a''))),
        (CallRelease 0, Released), (CallRelease 0, Released)] empty_book bk \<and> under_way bk = []"
proof -
  let ?e = "\<lparr>fe_view = sample_mesh, fe_now = sample_now\<rparr>"
  obtain p where p: "picker_calls sample_viiwork [CallPick ?e ''m'' [], CallRelease 0, CallRelease 0] (new_picker (3 * second) [], []) =
      ([Picked (Some (sample_target ''a'')), Released, Released], p, [\<lparr>rel_id = 0, rel_done = True\<rparr>])" "held p = []"
    using sample_pick by (simp add: sample_picker_def call_release_def delete_held_def)
  from picker_refines [OF p(1)] p(2) show ?thesis by auto
qed

end
