(* ===== verification/SystemBook.thy ===== *)
theory SystemBook
  imports SystemSpec PickerRefine
begin

text \<open>
  The picker inside the interleaved gateway: the calls the requests make of it, in the order they
  happen, are a history of the abstract book of theory PickerRefine.
\<close>

section \<open>Runs with their calls of the picker\<close>

text \<open>What a step asks the picker, by the phases it leads from and to.\<close>

inductive consults ::
    "viiwork \<Rightarrow> phase \<Rightarrow> picker \<Rightarrow> (picker_op \<times> picker_result) list \<Rightarrow> picker \<Rightarrow> phase \<Rightarrow> bool" for V where
    model_pick: "fleet_pick V e (json_model b) [] p = (Some (t, rid), p') \<Longrightarrow>
      consults V (Parsed r b sd) p [(CallPick e (json_model b) [], Picked (Some t))] p' (First r b sd' t rid)"
  | model_none: "fleet_pick V e (json_model b) [] p = (None, p') \<Longrightarrow>
      consults V (Parsed r b sd) p [(CallPick e (json_model b) [], Picked None)] p' (Fallback r sd)"
  | retry_pick: "fleet_pick V e (json_model b) [t_node t] p = (Some (t2, rid), p') \<Longrightarrow>
      consults V (Retry r b sd t) p [(CallPick e (json_model b) [t_node t], Picked (Some t2))] p' (Second r sd' t2 rid)"
  | retry_none: "fleet_pick V e (json_model b) [t_node t] p = (None, p') \<Longrightarrow>
      consults V (Retry r b sd t) p [(CallPick e (json_model b) [t_node t], Picked None)] p' (Leaving rp sd)"
  | first_over: "consults V (First r b sd t rid) p [(CallRelease (unat rid), Released)] (delete_held rid p) ph"
  | second_over: "consults V (Second r sd t rid) p [(CallRelease (unat rid), Released)] (delete_held rid p) ph"
  | fallback_view: "fleet_view V e p = (Some t, p') \<Longrightarrow>
      consults V (Fallback r sd) p [(CallView e, Viewed (Some t))] p' (Viewing r sd t)"
  | fallback_none: "fleet_view V e p = (None, p') \<Longrightarrow>
      consults V (Fallback r sd) p [(CallView e, Viewed None)] p' (Leaving rp sd)"
  | entered_view: "fleet_view V e p = (Some t, p') \<Longrightarrow>
      consults V (Entered r sd) p [(CallView e, Viewed (Some t))] p' (Chosen r sd t)"
  | entered_none: "fleet_view V e p = (None, p') \<Longrightarrow>
      consults V (Entered r sd) p [(CallView e, Viewed None)] p' (Leaving rp sd)"
  | metered_free: "consults V (Metered r sd) p [] p ph"
  | admitted_free: "consults V (Admitted r sd) p [] p ph"
  | reading_free: "consults V (Reading r sd) p [] p ph"
  | arriving_free: "consults V (Arriving r sd) p [] p ph"
  | chosen_free: "consults V (Chosen r sd t) p [] p ph"
  | viewing_free: "consults V (Viewing r sd t) p [] p ph"
  | leaving_free: "consults V (Leaving rp sd) p [] p ph"

inductive booked ::
    "viiwork \<Rightarrow> router \<Rightarrow> gw_state \<Rightarrow> (picker_op \<times> picker_result) list \<Rightarrow> nat \<Rightarrow> gateway_run \<Rightarrow> bool" for V rt st0 where
    unasked: "booked V rt st0 [] 0 (st0, {#})"
  | comes: "booked V rt st0 h n (st, M) \<Longrightarrow> booked V rt st0 h (Suc n) (st, add_mset (enter V r sd) M)"
  | asks: "booked V rt st0 h n (st, add_mset ph M) \<Longrightarrow> step V rt (st, ph) (st', ph') \<Longrightarrow>
      consults V ph (fleet st) h' (fleet st') ph' \<Longrightarrow> booked V rt st0 (h @ h') (Suc n) (st', add_mset ph' M)"

text \<open>Every step asks what its phases say, so the runs with their calls are all the runs.\<close>

lemma step_consults:
  assumes "step V rt (st, ph) (st', ph')"
  shows "\<exists>h. consults V ph (fleet st) h (fleet st') ph'"
  using assms
  by (cases rule: step_cases)
    (auto simp: forward_holding_def try_acquire_def release_token_def to_view_def split: if_splits,
      (blast intro: consults.intros)+)

lemma booked_reached: "booked V rt st0 h n s \<Longrightarrow> reached V rt st0 n s"
proof (induction rule: booked.induct)
  case unasked
  then show ?case by (rule reached.start)
next
  case (comes h n st M r sd)
  then show ?case using reached.next_move moves.arrive by blast
next
  case (asks h n st ph M st' ph' h')
  then show ?case using reached.next_move moves.progress by blast
qed

lemma reached_booked: "reached V rt st0 n s \<Longrightarrow> \<exists>h. booked V rt st0 h n s"
proof (induction rule: reached.induct)
  case start
  then show ?case using booked.unasked by blast
next
  case (next_move n s s')
  then obtain h where h: "booked V rt st0 h n s" by blast
  from next_move.hyps(2) show ?case
  proof cases
    case (arrive st M r sd)
    with booked.comes h show ?thesis by blast
  next
    case (progress st ph st' ph' M)
    obtain h' where "consults V ph (fleet st) h' (fleet st') ph'" using step_consults [OF progress(3)] by blast
    with booked.asks h progress show ?thesis by blast
  qed
qed

section \<open>The book of a run\<close>

lemma book_snoc: "book_run V stale names h bk bk1 \<Longrightarrow> book_step V stale names c bk1 res bk2 \<Longrightarrow>
  book_run V stale names (h @ [(c, res)]) bk bk2"
  by (induction rule: book_run.induct) (auto intro: book_nil book_cons)

lemma consults_book:
  assumes "consults V ph p h p' ph'" "pictures stale names p bk" "length (bk_grants bk) < 2 ^ 64"
    and "\<forall>rid \<in># reservation_held ph. rid \<in> fst ` set (held p)"
  shows "\<exists>bk'. pictures stale names p' bk' \<and> length (bk_grants bk') \<le> Suc (length (bk_grants bk)) \<and>
     (\<forall>bk0 h0. book_run V stale names h0 bk0 bk \<longrightarrow> book_run V stale names (h0 @ h) bk0 bk')"
proof -
  have rel: ?thesis if r: "rid \<in> fst ` set (held p)" and h: "h = [(CallRelease (unat rid), Released)]" and p': "p' = delete_held rid p" for rid
  proof -
    obtain k where k: "k < length (bk_grants bk)" "rid = of_nat k"
      using r assms(2) by (auto simp: pictures_def slots_of_def)
    have "unat rid = k" using k assms(3) by (simp add: unat_of_nat take_bit_eq_mod)
    with over [OF k(1)] release_pictured [OF assms(2) _ k(1)] assms(3) k(2) show ?thesis unfolding h p'
      by (fastforce intro: book_snoc)
  qed
  note g = pick_granted [OF assms(2,3)] and n = pick_refused [OF assms(2)] and v = view_pictured [OF assms(2)]
  have len: "length (bk_grants (granted e m t bk)) \<le> Suc (length (bk_grants bk))" for e m t by (simp add: granted_def)
  from assms(1) show ?thesis
  proof cases
    case (model_pick e b t rid r sd sd')
    from g(1,2) [OF model_pick(4)] len show ?thesis unfolding model_pick by (blast intro: book_snoc)
  next
    case (model_none e b r sd)
    from n [OF model_none(4)] assms(2) show ?thesis unfolding model_none by (auto intro: book_snoc intro!: exI [of _ bk])
  next
    case (retry_pick e b t t2 rid r sd sd')
    from g(1,2) [OF retry_pick(4)] len show ?thesis unfolding retry_pick by (blast intro: book_snoc)
  next
    case (retry_none e b t r sd rp)
    from n [OF retry_none(4)] assms(2) show ?thesis unfolding retry_none by (auto intro: book_snoc intro!: exI [of _ bk])
  next
    case (first_over r b sd t rid)
    with rel assms(4) show ?thesis by simp
  next
    case (second_over r sd t rid)
    with rel assms(4) show ?thesis by simp
  next
    case (fallback_view e t r sd)
    from v [OF fallback_view(4)] show ?thesis unfolding fallback_view by (auto intro: book_snoc)
  next
    case (fallback_none e r sd rp)
    from v [OF fallback_none(4)] show ?thesis unfolding fallback_none by (auto intro: book_snoc)
  next
    case (entered_view e t r sd)
    from v [OF entered_view(4)] show ?thesis unfolding entered_view by (auto intro: book_snoc)
  next
    case (entered_none e r sd rp)
    from v [OF entered_none(4)] show ?thesis unfolding entered_none by (auto intro: book_snoc)
  qed (use assms(2) in auto)
qed

lemma booked_pictured:
  assumes "booked V rt st0 h n s" "fresh st0" "n < 2 ^ 64"
  shows "\<exists>bk. book_run V (stale_after (fleet st0)) (picker.view_nodes (fleet st0)) h empty_book bk \<and>
     pictures (stale_after (fleet st0)) (picker.view_nodes (fleet st0)) (fleet (fst s)) bk \<and> length (bk_grants bk) \<le> n"
  using assms
proof (induction rule: booked.induct)
  case unasked
  then obtain stale names where "fleet st0 = new_picker stale names" by (auto simp: fresh_def)
  with new_represents [of stale names] show ?case
    by (auto simp: represents_def empty_book_def new_picker_def intro: book_nil)
next
  case (comes h n st M r sd)
  then show ?case by fastforce
next
  case (asks h n st ph M st' ph' h')
  let ?stale = "stale_after (fleet st0)" and ?names = "picker.view_nodes (fleet st0)"
  obtain bk where bk: "book_run V ?stale ?names h empty_book bk" "pictures ?stale ?names (fleet st) bk"
    "length (bk_grants bk) \<le> n" using asks by auto
  have "run_inv rt (st, add_mset ph M)"
    using reached_inv [OF booked_reached [OF asks.hyps(1)] asks.prems(1)] asks.prems(2) by simp
  then have "reservation_held ph \<subseteq># mset (map fst (held (fleet st)))" by (simp add: run_inv_def outstanding_def)
  then have "\<forall>rid \<in># reservation_held ph. rid \<in> fst ` set (held (fleet st))" by (auto dest: mset_subset_eqD)
  from consults_book [OF asks.hyps(3) bk(2) _ this] bk(1,3) asks.prems(2) show ?case by fastforce
qed

text \<open>C18: The gateway as a whole keeps the book. However requests interleave, the picks, view decisions and
  releases they make are, in the order they happen, a history the abstract book allows: each request
  that was routed by model was sent to the best offer at that moment, counting the forwards of all
  the others; and what the book says is under way are as many grants as there are forwards.\<close>

theorem runs_keep_book:
  assumes "booked V rt st0 h n (st, M)" and "fresh st0" and "n < 2 ^ 64"
  shows "\<exists>bk. book_run V (stale_after (fleet st0)) (picker.view_nodes (fleet st0)) h empty_book bk \<and>
     map snd (held (fleet st)) = under_way bk \<and> length (under_way bk) = size (reservations_held M) \<and>
     view (fleet st) = bk_view bk"
proof -
  obtain bk where bk: "book_run V (stale_after (fleet st0)) (picker.view_nodes (fleet st0)) h empty_book bk"
    "pictures (stale_after (fleet st0)) (picker.view_nodes (fleet st0)) (fleet st) bk"
    using booked_pictured [OF assms] by auto
  have "run_inv rt (st, M)" using reached_inv [OF booked_reached [OF assms(1)] assms(2,3)] by simp
  then have "size (mset (map fst (held (fleet st)))) = size (reservations_held M)"
    by (simp only: run_inv_def outstanding_def fst_conv snd_conv)
  moreover have "map snd (held (fleet st)) = under_way bk" using bk(2) by (simp add: pictures_def slots_grants under_way_def)
  moreover from this have "length (under_way bk) = length (held (fleet st))" by (metis length_map)
  ultimately show ?thesis using bk by (auto simp: pictures_def)
qed

text \<open>A request for the dashboards takes its token and finds its node.\<close>

theorem runs_keep_book_witness:
  "\<exists>bk. book_run sample_viiwork (3 * second) [] [(CallView (re_view sample_env), Viewed (Some (sample_target ''a'')))] empty_book bk \<and>
     bk_view bk = ''a'' \<and> under_way bk = []"
proof -
  let ?V = sample_viiwork and ?rt = sample_router and ?st = sample_state
  have 1: "booked ?V ?rt ?st [] (Suc 0) (?st, {#Arriving sample_wire sample_side#})"
    using booked.comes [OF booked.unasked, of ?V ?rt ?st sample_wire sample_side] by (simp add: sample_enter)
  have a: "try_acquire ?rt ?st = Some (?st\<lparr>in_flight := 1\<rparr>)"
    by (simp add: try_acquire_def sample_router_def new_router_def sample_state_def)
  have 2: "booked ?V ?rt ?st [] (Suc (Suc 0)) (?st\<lparr>in_flight := 1\<rparr>, {#Entered sample_wire sample_side#})"
    using booked.asks [OF 1 view_acquire [OF a], of "[]"] arriving_free [of ?V] by simp
  have v: "fleet_view ?V (re_view sample_env) (fleet (?st\<lparr>in_flight := 1\<rparr>)) = (Some (sample_target ''a''), sample_picker\<lparr>view := ''a''\<rparr>)"
    using sample_view by (simp add: fleet_view_def sample_env_def sample_state_def)
  have "booked ?V ?rt ?st [(CallView (re_view sample_env), Viewed (Some (sample_target ''a'')))] 3
      (?st\<lparr>in_flight := 1, fleet := sample_picker\<lparr>view := ''a''\<rparr>\<rparr>, {#Chosen sample_wire sample_side (sample_target ''a'')#})"
    using booked.asks [OF 2 step.view [OF v]] entered_view [OF v] by (simp add: numeral_3_eq_3)
  from runs_keep_book [OF this sample_fresh] show ?thesis
    by (auto simp: sample_state_def sample_picker_def new_picker_def)
qed

end
