(* ===== verification/FleetStart.thy ===== *)
theory FleetStart
  imports Fleet
begin

text \<open>
  \<open>Start\<close> of internal/fleet/fleet.go while the mesh is already delivering events: the callback
  \<open>OnChange\<close> runs on other goroutines, before and after the poller is stored, and its load of
  \<open>pollerRef\<close>, its call of the poller and its log line are steps of their own.
\<close>

section \<open>Steps\<close>

type_synonym event = "string \<times> event_kind"

text \<open>A callback that has begun, one that has loaded the pointer (with whether it was set), and one that
  has only its line left to write.\<close>

datatype callback = Fired event | Loaded event bool | Passed event

record bootstrap =
  poller_stored :: bool
  callbacks :: "callback multiset"
  forwarded_to_poller :: "event list"
  member_log :: "string list"

definition bootstrapping :: bootstrap where
  "bootstrapping = \<lparr>poller_stored = False, callbacks = {#}, forwarded_to_poller = [], member_log = []\<rparr>"

definition member_line :: "event \<Rightarrow> string" where
  "member_line ev = ''member '' @ fst ev @ '' '' @ event_word (snd ev)"

text \<open>The step relation, with the event the mesh delivers in it, if it does.\<close>

inductive start_step :: "bootstrap \<Rightarrow> event option \<Rightarrow> bootstrap \<Rightarrow> bool" where
    deliver: "start_step b (Some ev) (b\<lparr>callbacks := add_mset (Fired ev) (callbacks b)\<rparr>)"
  | load: "callbacks b = add_mset (Fired ev) C \<Longrightarrow>
      start_step b None (b\<lparr>callbacks := add_mset (Loaded ev (poller_stored b)) C\<rparr>)"
  | pass_on: "callbacks b = add_mset (Loaded ev True) C \<Longrightarrow>
      start_step b None (b\<lparr>callbacks := add_mset (Passed ev) C, forwarded_to_poller := forwarded_to_poller b @ [ev]\<rparr>)"
  | pass_over: "callbacks b = add_mset (Loaded ev False) C \<Longrightarrow>
      start_step b None (b\<lparr>callbacks := add_mset (Passed ev) C\<rparr>)"
  | write_line: "callbacks b = add_mset (Passed ev) C \<Longrightarrow>
      start_step b None (b\<lparr>callbacks := C, member_log := member_log b @ [member_line ev]\<rparr>)"
  | store: "\<not> poller_stored b \<Longrightarrow> start_step b None (b\<lparr>poller_stored := True\<rparr>)"

text \<open>The states reached, with the events delivered before the poller was stored and after.\<close>

inductive booted :: "event list \<Rightarrow> event list \<Rightarrow> bootstrap \<Rightarrow> bool" where
    booting: "booted [] [] bootstrapping"
  | early: "booted es ls b \<Longrightarrow> start_step b (Some ev) b' \<Longrightarrow> \<not> poller_stored b \<Longrightarrow> booted (es @ [ev]) ls b'"
  | late: "booted es ls b \<Longrightarrow> start_step b (Some ev) b' \<Longrightarrow> poller_stored b \<Longrightarrow> booted es (ls @ [ev]) b'"
  | internal: "booted es ls b \<Longrightarrow> start_step b None b' \<Longrightarrow> booted es ls b'"

inductive_cases deliver_cases: "start_step b (Some ev) b'"

section \<open>One callback\<close>

text \<open>A callback that runs without interruption is \<open>on_change\<close>.\<close>

definition sink_of :: "bootstrap \<Rightarrow> event_sink" where
  "sink_of b = \<lparr>poller_ready = poller_stored b, handed_over = forwarded_to_poller b, event_log = member_log b\<rparr>"

lemma callback_alone:
  assumes "callbacks b = add_mset (Fired ev) C"
  shows "\<exists>b'. (\<lambda>x y. start_step x None y)\<^sup>*\<^sup>* b b' \<and> callbacks b' = C \<and> sink_of b' = on_change ev (sink_of b)"
proof -
  let ?S = "\<lambda>x y. start_step x None y"
  define f where "f = forwarded_to_poller b @ (if poller_stored b then [ev] else [])"
  let ?b1 = "b\<lparr>callbacks := add_mset (Loaded ev (poller_stored b)) C\<rparr>"
  let ?b2 = "b\<lparr>callbacks := add_mset (Passed ev) C, forwarded_to_poller := f\<rparr>"
  let ?b3 = "b\<lparr>forwarded_to_poller := f, callbacks := C, member_log := member_log b @ [member_line ev]\<rparr>"
  have 1: "start_step b None ?b1" by (rule load [OF assms])
  have 2: "start_step ?b1 None ?b2"
  proof (cases "poller_stored b")
    case True
    then show ?thesis using pass_on [of ?b1 ev C] by (simp add: f_def)
  next
    case False
    then show ?thesis using pass_over [of ?b1 ev C] by (simp add: f_def)
  qed
  have 3: "start_step ?b2 None ?b3" using write_line [of ?b2 ev C] by simp
  have "?S\<^sup>*\<^sup>* b ?b3" using 1 2 3 by (meson rtranclp.rtrancl_into_rtrancl rtranclp.rtrancl_refl)
  moreover have "sink_of ?b3 = on_change ev (sink_of b)" by (simp add: sink_of_def on_change_def member_line_def f_def)
  ultimately show ?thesis by (intro exI [of _ ?b3]) simp
qed

section \<open>No event is lost\<close>

fun event_of :: "callback \<Rightarrow> event" where
  "event_of (Fired ev) = ev"
| "event_of (Loaded ev seen) = ev"
| "event_of (Passed ev) = ev"

text \<open>The events a callback under way will still hand to the poller for certain.\<close>

fun to_hand :: "callback \<Rightarrow> event multiset" where
  "to_hand (Fired ev) = {#ev#}"
| "to_hand (Loaded ev seen) = (if seen then {#ev#} else {#})"
| "to_hand (Passed ev) = {#}"

definition unlogged :: "bootstrap \<Rightarrow> event multiset" where
  "unlogged b = image_mset event_of (callbacks b)"

definition on_their_way :: "bootstrap \<Rightarrow> event multiset" where
  "on_their_way b = \<Sum>\<^sub># (image_mset to_hand (callbacks b))"

definition boot_inv :: "event list \<Rightarrow> event list \<Rightarrow> bootstrap \<Rightarrow> bool" where
  "boot_inv es ls b \<longleftrightarrow>
     mset (member_log b) + image_mset member_line (unlogged b) = mset (map member_line (es @ ls)) \<and>
     mset (forwarded_to_poller b) + on_their_way b \<subseteq># mset (es @ ls) \<and>
     mset ls \<subseteq># mset (forwarded_to_poller b) + on_their_way b \<and>
     (\<not> poller_stored b \<longrightarrow> forwarded_to_poller b = [] \<and> (\<forall>ev. Loaded ev True \<notin># callbacks b)) \<and>
     (\<not> poller_stored b \<longrightarrow> ls = [])"

lemmas boot_defs = boot_inv_def unlogged_def on_their_way_def

lemma deliver_keeps:
  assumes "start_step b (Some ev) b'"
  shows "poller_stored b' = poller_stored b" "forwarded_to_poller b' = forwarded_to_poller b" "member_log b' = member_log b"
    "unlogged b' = add_mset ev (unlogged b)" "on_their_way b' = add_mset ev (on_their_way b)"
    "Loaded x True \<in># callbacks b' \<longleftrightarrow> Loaded x True \<in># callbacks b"
  using assms by (auto elim!: deliver_cases simp: boot_defs)

lemma booted_inv: "booted es ls b \<Longrightarrow> boot_inv es ls b"
proof (induction rule: booted.induct)
  case booting
  show ?case by (simp add: boot_defs bootstrapping_def)
next
  case (early es ls b ev b')
  then show ?case using deliver_keeps [OF early.hyps(2)] by (auto simp: boot_inv_def)
next
  case (late es ls b ev b')
  then show ?case using deliver_keeps [OF late.hyps(2)] by (simp add: boot_inv_def)
next
  case (internal es ls b b')
  from internal.hyps(2) show ?case
  proof (cases rule: start_step.cases)
    case (load ev C)
    show ?thesis
    proof (cases "poller_stored b")
      case True
      with internal.IH load show ?thesis by (auto simp: boot_defs)
    next
      case False
      have "\<Sum>\<^sub># (image_mset to_hand C) \<subseteq># add_mset ev (\<Sum>\<^sub># (image_mset to_hand C))" by simp
      also have "\<dots> \<subseteq># mset es" using False internal.IH load(2) by (auto simp: boot_defs)
      finally have "\<Sum>\<^sub># (image_mset to_hand C) \<subseteq># mset es" .
      with False internal.IH load show ?thesis by (auto simp: boot_defs)
    qed
  qed (use internal.IH in \<open>auto simp: boot_defs\<close>)
qed

text \<open>C23: No membership event is lost at start-up and none is delivered twice. However the mesh's callbacks
  interleave with the rest of \<open>Start\<close>, the poller is called only once it exists, never more often
  than there were events; and when the callbacks under way are done, every event has exactly one line
  in the log and every event delivered since the poller was stored has reached it.\<close>

theorem no_event_lost:
  assumes "booted es ls b"
  shows "(forwarded_to_poller b \<noteq> [] \<longrightarrow> poller_stored b) \<and>
     mset (forwarded_to_poller b) \<subseteq># mset (es @ ls) \<and>
     (callbacks b = {#} \<longrightarrow> mset (member_log b) = mset (map member_line (es @ ls)) \<and>
        mset ls \<subseteq># mset (forwarded_to_poller b))"
proof -
  have i: "boot_inv es ls b" by (rule booted_inv [OF assms])
  have "mset (forwarded_to_poller b) \<subseteq># mset (forwarded_to_poller b) + on_their_way b" by simp
  also have "\<dots> \<subseteq># mset (es @ ls)" using i unfolding boot_inv_def by blast
  finally have "mset (forwarded_to_poller b) \<subseteq># mset (es @ ls)" .
  with i show ?thesis by (auto simp: boot_defs)
qed

text \<open>One event finds no poller, the next one does.\<close>

theorem no_event_lost_witness:
  "\<exists>b. booted [(''a'', EventJoin)] [(''b'', EventLeave)] b \<and>
     mset (member_log b) = {#''member a joined'', ''member b left''#} \<and>
     forwarded_to_poller b = [(''b'', EventLeave)]"
proof -
  let ?a = "(''a'', EventJoin)" and ?b = "(''b'', EventLeave)"
  note i = booted.internal
  have "booted [?a] [] (bootstrapping\<lparr>callbacks := {#Fired ?a#}\<rparr>)"
    using early [OF booting deliver [of _ ?a]] by (simp add: bootstrapping_def)
  from i [OF this load [of _ ?a "{#}"]]
  have "booted [?a] [] (bootstrapping\<lparr>callbacks := {#Loaded ?a False#}\<rparr>)" by (simp add: bootstrapping_def)
  from i [OF this store]
  have "booted [?a] [] (bootstrapping\<lparr>callbacks := {#Loaded ?a False#}, poller_stored := True\<rparr>)" by (simp add: bootstrapping_def)
  from late [OF this deliver [of _ ?b]]
  have "booted [?a] [?b] (bootstrapping\<lparr>callbacks := {#Fired ?b, Loaded ?a False#}, poller_stored := True\<rparr>)"
    by (simp add: bootstrapping_def)
  from i [OF this load [of _ ?b "{#Loaded ?a False#}"]]
  have "booted [?a] [?b] (bootstrapping\<lparr>callbacks := {#Loaded ?b True, Loaded ?a False#}, poller_stored := True\<rparr>)"
    by (simp add: bootstrapping_def)
  from i [OF this pass_on [of _ ?b "{#Loaded ?a False#}"]]
  have "booted [?a] [?b] (bootstrapping\<lparr>callbacks := {#Passed ?b, Loaded ?a False#}, poller_stored := True, forwarded_to_poller := [?b]\<rparr>)"
    by (simp add: bootstrapping_def)
  from i [OF this pass_over [of _ ?a "{#Passed ?b#}"]]
  have "booted [?a] [?b] (bootstrapping\<lparr>callbacks := {#Passed ?a, Passed ?b#}, poller_stored := True, forwarded_to_poller := [?b]\<rparr>)"
    by (simp add: bootstrapping_def add_mset_commute)
  from i [OF this write_line [of _ ?a "{#Passed ?b#}"]]
  have "booted [?a] [?b] (bootstrapping\<lparr>callbacks := {#Passed ?b#}, poller_stored := True, forwarded_to_poller := [?b], member_log := [member_line ?a]\<rparr>)"
    by (simp add: bootstrapping_def)
  from i [OF this write_line [of _ ?b "{#}"]]
  have "booted [?a] [?b] (bootstrapping\<lparr>callbacks := {#}, poller_stored := True, forwarded_to_poller := [?b], member_log := [member_line ?a, member_line ?b]\<rparr>)"
    by (simp add: bootstrapping_def)
  then obtain b where b: "booted [?a] [?b] b" "callbacks b = {#}" "forwarded_to_poller b = [?b]" by fastforce
  from no_event_lost [OF b(1)] b show ?thesis
    by (intro exI [of _ b]) (simp add: member_line_def event_word_def)
qed

end
