(* ===== verification/RetryAfter.thy ===== *)
theory RetryAfter
  imports Router RateBound
begin

text \<open>
  The wait a throttled client is told: when \<open>Retry-After\<close> is enough, and that it can be one second
  short because the tokens are rounded.
\<close>

section \<open>From below\<close>

lemma small_seconds: "(2 :: rat) powi - 1022 \<le> 1 / 1000000000"
proof -
  have "(2 :: rat) powi - 1022 \<le> 2 powi - 30" unfolding powi_le_iff by simp
  also have "(2 :: rat) powi - 30 \<le> 1 / 1000000000" by (simp add: power_int_def power_divide)
  finally show ?thesis .
qed

lemma dur_seconds_down:
  assumes "0 < d" "in_int64 d" "dur_seconds d = Fin s"
  shows "of_int d / 1000000000 * (1 - 2 * eps) \<le> s"
proof -
  let ?sec = "d div 1000000000" and ?ns = "d mod 1000000000"
  let ?q = "rat_of_int ?ns / 1000000000" and ?D = "rat_of_int d / 1000000000"
  have dd: "?D = of_int ?sec + ?q"
  proof -
    have "rat_of_int d = of_int (?sec * 1000000000 + ?ns)" by (simp only: div_mult_mod_eq)
    then show ?thesis by (simp only: of_int_add of_int_mult of_int_numeral add_divide_distrib) simp?
  qed
  have q: "?q - ?q * eps \<le> round_even ?q"
  proof (cases "?ns = 0")
    case True
    then show ?thesis by (simp add: binary64.zero)
  next
    case False
    moreover have "0 \<le> ?ns" by simp
    ultimately have "1 \<le> ?ns" by linarith
    then have "rat_of_int 1 \<le> of_int ?ns" by (simp only: of_int_le_iff)
    then have "1 / 1000000000 \<le> ?q" by (simp add: field_simps)
    with small_seconds show ?thesis by (intro down_rel) linarith
  qed
  have x: "?D - ?D * eps \<le> second_parts d"
  proof -
    have "0 \<le> rat_of_int ?sec * eps" using assms(1) eps(1) by (intro mult_nonneg_nonneg) simp_all
    with q show ?thesis unfolding dd second_parts_def distrib_right by linarith
  qed
  have small: "(2 :: rat) powi - 1022 \<le> 2 powi - 30" unfolding powi_le_iff by simp
  have s: "s = round_even (second_parts d)" using assms(3) dur_seconds_value(1) [OF assms(1,2)] by simp
  have "second_parts d - second_parts d * eps \<le> s"
    unfolding s using dur_seconds_value(2) [OF assms(1,2)] small by (intro down_rel) linarith
  moreover have "(?D - ?D * eps) * (1 - eps) \<le> second_parts d * (1 - eps)"
    using x eps(2) by (intro mult_right_mono) simp_all
  moreover have "0 \<le> ?D * (eps * eps)" using assms(1) by simp
  moreover have y: "(y - y * eps) * (1 - eps) = y * (1 - 2 * eps) + y * (eps * eps)" "y * (1 - eps) = y - y * eps" for y
    by (simp_all add: algebra_simps)
  ultimately show ?thesis using y(1) [of ?D] y(2) [of "second_parts d"] by linarith
qed

section \<open>The wait\<close>

text \<open>For a rate of at least one request in a billion seconds nothing overflows.\<close>

lemma pow2_fixed: "round_even (2 ^ k) = 2 ^ k" if "k \<le> 1000"
  using round_even_exact [of 1 "int k"] that by (simp add: power_int_def)

lemma wait_spec:
  assumes t: "0 \<le> t" "t < 1" and r: "1 / 1000000000 \<le> r"
    and w: "wait = float_to_int64 oor (fmul (fdiv (fsub (Fin 1) (Fin t)) (Fin r)) (Fin (of_int second)))"
  shows "0 \<le> wait" "wait \<le> 2 ^ 60" "(1 - t) - 4 * eps - 2 * r / 1000000000 \<le> of_int wait / 1000000000 * r"
proof -
  have r0: "0 < r" using r by (rule less_le_trans [rotated]) simp
  define a where "a = round_even (1 - t)"
  have "1 - t - (1 - t) * eps - eps \<le> a" using down_any [of "1 - t"] up_tiny(2) t by (simp add: a_def)
  moreover have "(1 - t) * eps \<le> 1 * eps" using t eps(1) by (intro mult_right_mono) simp_all
  ultimately have a_lo: "1 - t - 2 * eps \<le> a" by simp
  have a01: "0 \<le> a" "a \<le> 1" using binary64.nonneg binary64.le_fixed [OF _ binary64.one] t by (simp_all add: a_def)
  define b where "b = round_even (a / r)"
  have ar: "0 \<le> a / r" "a / r \<le> 1000000000"
  proof -
    show "0 \<le> a / r" using a01 r0 by simp
    have "a * (1 / 1000000000) \<le> 1 * r" using a01 r by (intro mult_mono) simp_all
    then show "a / r \<le> 1000000000" using r0 by (simp add: field_simps)
  qed
  have b0: "0 \<le> b" using binary64.nonneg ar by (simp add: b_def)
  have b_hi: "b \<le> 2 ^ 30" unfolding b_def using ar by (intro binary64.le_fixed [OF _ pow2_fixed]) simp_all
  have b_lo: "a / r - a / r * eps - eps \<le> b" using down_any [OF ar(1)] up_tiny(2) by (simp add: b_def)
  define c where "c = round_even (b * 1000000000)"
  have c0: "0 \<le> c" using binary64.nonneg b0 by (simp add: c_def)
  have c_hi: "c \<le> 2 ^ 60" unfolding c_def using b_hi by (intro binary64.le_fixed [OF _ pow2_fixed]) simp_all
  have c_lo: "b * 1000000000 - b * 1000000000 * eps - eps \<le> c"
    using down_any [of "b * 1000000000"] b0 up_tiny(2) by (simp add: c_def)
  have f1: "fsub (Fin 1) (Fin t) = Fin a" using t by (simp add: fsub_def fl_small a_def)
  have f2: "fdiv (Fin a) (Fin r) = Fin b" using r0 ar by (simp add: fl_small b_def)
  have f3: "fmul (Fin b) (Fin (of_int second)) = Fin c"
  proof -
    have k: "(2 :: rat) ^ 60 < 2 ^ 1024" by (rule power_strict_increasing) simp_all
    then have "\<bar>c\<bar> < 2 ^ 1024" using c0 c_hi by linarith
    then show ?thesis by (simp add: fl_def Let_def second_def c_def)
  qed
  have fc: "0 \<le> \<lfloor>c\<rfloor>" "\<lfloor>c\<rfloor> \<le> 2 ^ 60"
  proof -
    show "0 \<le> \<lfloor>c\<rfloor>" using c0 by simp
    have "\<lfloor>c\<rfloor> \<le> \<lfloor>(2 :: rat) ^ 60\<rfloor>" using c_hi by (rule floor_mono)
    then show "\<lfloor>c\<rfloor> \<le> 2 ^ 60" by simp
  qed
  then have wc: "wait = \<lfloor>c\<rfloor>" unfolding w f1 f2 f3 using c0 by (simp add: float_to_int64_def Let_def)
  show "0 \<le> wait" "wait \<le> 2 ^ 60" using fc wc by simp_all
  have "c - 1 \<le> of_int wait" unfolding wc by linarith
  then have "b * 1000000000 - b * 1000000000 * eps - eps - 1 \<le> of_int wait" using c_lo by linarith
  then have "b - b * eps - eps / 1000000000 - 1 / 1000000000 \<le> of_int wait / 1000000000" by simp
  then have "(b - b * eps - eps / 1000000000 - 1 / 1000000000) * r \<le> of_int wait / 1000000000 * r"
    using r0 by (intro mult_right_mono) simp_all
  then have W: "b * r * (1 - eps) - eps * r / 1000000000 - r / 1000000000 \<le> of_int wait / 1000000000 * r"
    by (simp add: algebra_simps)
  have "(a / r - a / r * eps - eps) * r \<le> b * r" using b_lo r0 by (intro mult_right_mono) simp_all
  then have "a - a * eps - eps * r \<le> b * r" using r0 by (simp add: algebra_simps)
  then have "(a - a * eps - eps * r) * (1 - eps) \<le> b * r * (1 - eps)" using eps(2) by (intro mult_right_mono) simp_all
  moreover have "a - 2 * (a * eps) - eps * r \<le> (a - a * eps - eps * r) * (1 - eps)"
    using a01 r0 eps(1) by (simp add: algebra_simps)
  moreover have "a * eps \<le> 1 * eps" using a01 eps(1) by (intro mult_right_mono) simp_all
  ultimately have "a - 2 * eps - eps * r \<le> b * r * (1 - eps)" by linarith
  moreover have "eps * r \<le> r / 2000000000"
  proof -
    have "eps * r \<le> (1 / 2000000000) * r" using r0 by (intro mult_right_mono) (simp_all add: eps_def power_int_def power_divide)
    then show ?thesis by simp
  qed
  ultimately show "(1 - t) - 4 * eps - 2 * r / 1000000000 \<le> of_int wait / 1000000000 * r"
    using a_lo W r0 by linarith
qed

lemma retry_seconds_spec:
  assumes "0 \<le> wait" "wait \<le> 2 ^ 60"
  shows "of_int wait / 1000000000 * (1 - 2 * eps) \<le> of_int (retry_seconds oor wait)"
    and "1 \<le> retry_seconds oor wait" "retry_seconds oor wait \<le> 2 ^ 32"
proof -
  show one: "1 \<le> retry_seconds oor wait" by (simp add: retry_seconds_def Let_def)
  have i: "in_int64 wait" using assms by (simp add: in_int64_def min_int64_def max_int64_def)
  have "of_int wait / 1000000000 * (1 - 2 * eps) \<le> of_int (retry_seconds oor wait) \<and> retry_seconds oor wait \<le> 2 ^ 32"
  proof (cases "0 < wait")
    case False
    then have "wait = 0" using assms(1) by simp
    then show ?thesis using one by (simp add: retry_seconds_def dur_seconds_def float_of_int_def fl_def Let_def round_even_def)
  next
    case True
    from dur_seconds_pos [OF True i] obtain x where x: "dur_seconds wait = Fin x" by blast
    have c: "retry_seconds oor wait = max 1 \<lceil>x\<rceil>" by (simp add: retry_seconds_def x Let_def)
    have "x \<le> of_int (max 1 \<lceil>x\<rceil>)" by linarith
    with dur_seconds_down [OF True i x] c have lo: "of_int wait / 1000000000 * (1 - 2 * eps) \<le> of_int (retry_seconds oor wait)" by simp
    have "rat_of_int wait \<le> of_int (2 ^ 60)" unfolding of_int_le_iff by (rule assms(2))
    then have "rat_of_int wait / 1000000000 \<le> 2 ^ 32 / 2" by simp
    moreover have "x \<le> of_int wait / 1000000000 * ((1 + eps) * (1 + eps))"
      using dur_seconds_up [OF True i x] by (simp only: mult.assoc)
    moreover have "of_int wait / 1000000000 * ((1 + eps) * (1 + eps)) \<le> of_int wait / 1000000000 * 2"
    proof (rule mult_left_mono)
      have "eps * eps \<le> 1 / 8 * eps" using eps by (intro mult_right_mono) simp_all
      then show "(1 + eps) * (1 + eps) \<le> 2" using eps(2) by (simp add: algebra_simps)
    qed (use assms(1) in simp)
    ultimately have "x \<le> 2 ^ 32" by linarith
    then have "x \<le> of_int (2 ^ 32)" by simp
    then have "\<lceil>x\<rceil> \<le> 2 ^ 32" by (simp only: ceiling_le_iff)
    with c lo show ?thesis by simp
  qed
  then show "of_int wait / 1000000000 * (1 - 2 * eps) \<le> of_int (retry_seconds oor wait)" "retry_seconds oor wait \<le> 2 ^ 32"
    by simp_all
qed

section \<open>Coming back\<close>

lemma fl_at_least_one:
  assumes "1 \<le> x" "1 \<le> B"
  shows "fle (Fin 1) (if flt (Fin B) (fl x) then Fin B else fl x)"
proof -
  have "1 \<le> round_even x" using assms(1) binary64.ge_fixed binary64.one by blast
  then have "fl x = Inf False \<or> (\<exists>y \<ge> 1. fl x = Fin y)" by (auto simp: fl_def Let_def)
  with assms(2) show ?thesis by auto
qed

text \<open>The roundings cost less than the extra second brings.\<close>

lemma extra_second:
  fixes Z W r t s :: rat
  assumes Z: "1 - t - 4 * eps - 2 * r / 1000000000 \<le> Z" "0 \<le> Z" and W: "Z * (1 - 2 * eps) \<le> W * r"
    and s: "(W + 1) * (1 - 2 * eps) \<le> s" and r: "1 / 1000000000 \<le> r" and t: "0 \<le> t" "t < 1"
  shows "1 \<le> t + (s * r - s * r * eps - eps)"
proof -
  have r0: "0 < r" using r by (rule less_le_trans [rotated]) simp
  have e: "0 \<le> eps * eps" by simp
  have p: "(1 - 2 * eps) * (1 - eps) \<ge> 1 - 3 * eps" using e by (simp add: algebra_simps)
  have p2: "(1 - 2 * eps) * (1 - 3 * eps) \<ge> 1 - 5 * eps" using e by (simp add: algebra_simps)
  have k: "0 \<le> 1 - 3 * eps" "0 \<le> 1 - 5 * eps" using eps(2) by simp_all
  have "0 \<le> Z * (1 - 2 * eps)" using Z(2) eps(2) by (intro mult_nonneg_nonneg) simp_all
  with W have W0: "0 \<le> W * r" by (rule order_trans [rotated])
  have "(W + 1) * (1 - 2 * eps) * r * (1 - eps) \<le> s * r * (1 - eps)"
    using s r0 eps(2) by (intro mult_right_mono) simp_all
  moreover have "(W * r + r) * (1 - 3 * eps) \<le> (W * r + r) * ((1 - 2 * eps) * (1 - eps))"
    using p W0 r0 by (intro mult_left_mono) simp_all
  moreover have "(W + 1) * (1 - 2 * eps) * r * (1 - eps) = (W * r + r) * ((1 - 2 * eps) * (1 - eps))" by (simp add: algebra_simps)
  ultimately have A: "(W * r + r) * (1 - 3 * eps) \<le> s * r * (1 - eps)" by linarith
  have "Z * (1 - 5 * eps) \<le> Z * ((1 - 2 * eps) * (1 - 3 * eps))" using p2 Z(2) by (intro mult_left_mono) simp_all
  also have "\<dots> \<le> W * r * (1 - 3 * eps)" using mult_right_mono [OF W k(1)] by (simp add: mult.assoc)
  finally have C: "Z * (1 - 5 * eps) \<le> W * r * (1 - 3 * eps)" .
  have "(1 - t - 4 * eps - 2 * r / 1000000000) * (1 - 5 * eps) \<le> Z * (1 - 5 * eps)"
    using Z(1) k(2) by (intro mult_right_mono) simp_all
  moreover have "(1 - t - 4 * eps - 2 * r / 1000000000) * (5 * eps) \<le> 1 * (5 * eps)"
    using t r0 eps(1) by (intro mult_right_mono) simp_all
  ultimately have D: "1 - t - 9 * eps - 2 * r / 1000000000 \<le> Z * (1 - 5 * eps)"
    by (simp only: right_diff_distrib mult_1_right)
  have "10 * eps \<le> r / 2" using r by (simp add: eps_def power_int_def power_divide)
  moreover have "r * (3 * eps) \<le> r * (1 / 4)" using r0 by (intro mult_left_mono) (simp_all add: eps_def power_int_def power_divide)
  ultimately have "10 * eps + 2 * r / 1000000000 \<le> r - r * (3 * eps)" using r0 by linarith
  moreover have "(W * r + r) * (1 - 3 * eps) = W * r * (1 - 3 * eps) + (r - r * (3 * eps))"
    "s * r * (1 - eps) = s * r - s * r * eps" by (simp_all add: algebra_simps)
  ultimately show ?thesis using A C D by linarith
qed

lemma refill_enough:
  assumes ok: "limiter_ok B l" and r: "rate_per_sec l = Fin r" "0 < r" and b: "tokens b = Fin t" "0 \<le> t"
    and d: "0 < time_sub now (last_at b)" and s: "dur_seconds (time_sub now (last_at b)) = Fin s" "0 \<le> s"
    and enough: "1 \<le> t + (s * r - s * r * eps - eps)"
  shows "fle (Fin 1) (refill l b now)"
proof -
  have B: "1 \<le> B" "burst_cap l = Fin B" using ok by (simp_all add: limiter_ok_def)
  have rf: "refill l b now = (let x = fadd (Fin t) (fl (s * r)) in if flt (Fin B) x then Fin B else x)"
    using d s r b(1) B(2) by (simp add: refill_def Let_def)
  have sr: "0 \<le> s * r" using s(2) r(2) by simp
  show ?thesis
  proof (cases "fl (s * r)")
    case (Fin g)
    then have "g = round_even (s * r)" by (simp add: fl_def Let_def split: if_splits)
    then have "s * r - s * r * eps - eps \<le> g" using down_any [OF sr] up_tiny(2) by linarith
    with enough have "1 \<le> t + g" by linarith
    from fl_at_least_one [OF this B(1)] show ?thesis by (simp add: rf Fin Let_def)
  next
    case (Inf i)
    then show ?thesis using B(1) sr binary64.nonneg [OF sr] by (auto simp: rf fl_def Let_def split: if_splits)
  next
    case NaN
    then show ?thesis by (simp add: fl_def Let_def split: if_splits)
  qed
qed

text \<open>C26: A throttled client that waits one second more than it is told gets in. Whatever the history, if
  a request of a key is throttled and the key's next request comes no earlier than a second after its
  \<open>Retry-After\<close>, that request is allowed, whatever other keys do in between; this for every rate of at
  least one request in a billion seconds.\<close>

theorem retry_after_suffices:
  assumes "rate_per_sec (new_limiter per_minute n) = Fin r" and "1 / 1000000000 \<le> r" and "1 \<le> n" "n \<le> 2 ^ 53"
    and "calls oor (Some (new_limiter per_minute n)) hist = (ds, lm)"
    and "allow oor lm label now = ((False, wait), lm1)"
    and "calls oor lm1 others = (es, lm2)" and "label \<notin> fst ` set others"
    and "now + (retry_seconds oor wait + 1) * second \<le> later"
  shows "fst (fst (allow oor lm2 label later))"
proof -
  have r0: "0 < r" using assms(2) by (rule less_le_trans [rotated]) simp
  have on: "\<not> fle (rate_per_sec (new_limiter per_minute n)) (Fin 0)" using assms(1) r0 by simp
  have "per_minute \<noteq> NaN" using assms(1) by (auto simp: new_limiter_def Let_def)
  from new_ok [OF this on assms(3,4)] calls_keep [OF assms(5), of "of_int n"] assms(1)
  obtain l where l: "lm = Some l" "limiter_ok (of_int n) l" "rate_per_sec l = Fin r" by auto
  have nd: "\<not> fle (rate_per_sec l) (Fin 0)" using l r0 by simp
  obtain l1 where l1: "lm1 = Some l1" using assms(6) l(1) allow_Some [of oor l label now] by auto
  obtain t u where t: "refill l (case buckets l label of None \<Rightarrow> \<lparr>tokens = burst_cap l, last_at = now\<rparr> | Some b \<Rightarrow> b) now = Fin t"
      "0 \<le> t" "fst (False, wait) = (1 \<le> t)"
    and u: "lm1 = Some (l\<lparr>buckets := (buckets l)(label \<mapsto> \<lparr>tokens = Fin u, last_at = now\<rparr>)\<rparr>)"
      "if 1 \<le> t then fsub (Fin t) (Fin 1) = Fin u else u = t"
    by (rule allow_cases [OF l(2) nd assms(6) [unfolded l(1)]])
  have tu: "t < 1" "u = t" using t(3) u(2) by (auto split: if_splits)
  have w: "wait = float_to_int64 oor (fmul (fdiv (fsub (Fin 1) (Fin t)) (Fin r)) (Fin (of_int second)))"
    using assms(6) nd t(1) tu(1) l by (simp add: allow_def Let_def)
  note ws = wait_spec [OF t(2) tu(1) assms(2) w]
  note rs = retry_seconds_spec [OF ws(1,2), of oor]
  let ?W = "retry_seconds oor wait"
  have ok1: "limiter_ok (of_int n) l1" using allow_ok [OF l(2), of oor label now "(False, wait)" l1] assms(6) l(1) l1 by simp
  from calls_keep [OF assms(7) [unfolded l1], of "of_int n"] ok1 assms(8) u(1) l1 l(3) tu(2)
  obtain l2 where l2: "lm2 = Some l2" "limiter_ok (of_int n) l2" "rate_per_sec l2 = Fin r"
    "buckets l2 label = Some \<lparr>tokens = Fin t, last_at = now\<rparr>" by auto
  let ?d = "time_sub later now"
  have big: "(?W + 1) * second \<le> max_int64" using rs(3) by (simp add: second_def max_int64_def)
  have d: "(?W + 1) * second \<le> ?d" using assms(9) big by (simp add: time_sub_def)
  have dpos: "0 < ?d" using d rs(2) by (simp add: second_def)
  obtain s where s: "dur_seconds ?d = Fin s" using dur_seconds_pos [OF dpos time_sub_int64] by blast
  have "rat_of_int ((?W + 1) * second) \<le> of_int ?d" using d by (simp only: of_int_le_iff)
  then have "of_int ?W + 1 \<le> rat_of_int ?d / 1000000000" by (simp add: second_def)
  then have "(of_int ?W + 1) * (1 - 2 * eps) \<le> of_int ?d / 1000000000 * (1 - 2 * eps)"
    using eps(2) by (intro mult_right_mono) simp_all
  then have sW: "(of_int ?W + 1) * (1 - 2 * eps) \<le> s" using dur_seconds_down [OF dpos time_sub_int64 s] by linarith
  have "of_int wait / 1000000000 * (1 - 2 * eps) * r \<le> of_int ?W * r" using rs(1) r0 by (intro mult_right_mono) simp_all
  then have WZ: "of_int wait / 1000000000 * r * (1 - 2 * eps) \<le> of_int ?W * r" by (simp only: mult_ac)
  have Z0: "0 \<le> of_int wait / 1000000000 * r" using ws(1) r0 by simp
  have enough: "1 \<le> t + (s * r - s * r * eps - eps)" by (rule extra_second [OF ws(3) Z0 WZ sW assms(2) t(2) tu(1)])
  have s0: "0 \<le> s" using dur_seconds_pos [OF dpos time_sub_int64] s by auto
  have "fle (Fin 1) (refill l2 \<lparr>tokens = Fin t, last_at = now\<rparr> later)"
    by (rule refill_enough [OF l2(2,3) r0 _ t(2) _ _ s0 enough]) (use dpos s in simp_all)
  moreover have "\<not> fle (rate_per_sec l2) (Fin 0)" using l2(3) r0 by simp
  ultimately show ?thesis using l2(1,4) by (simp add: allow_def Let_def)
qed

section \<open>One second short\<close>

text \<open>Five a minute, one at a time: the values of the arithmetic, each rounded as the code rounds it.\<close>

lemma fl_value:
  assumes "2 powi (e + 52) \<le> x" "x < 2 powi (e + 53)" "- 1074 \<le> e" "\<bar>x - of_int k * 2 powi e\<bar> < 2 powi e / 2" "x \<le> 2 ^ 53"
  shows "fl x = Fin (of_int k * 2 powi e)"
proof -
  have "0 \<le> x" by (rule order_trans [OF less_imp_le [OF powi_pos] assms(1)])
  with fl_small [of x] round_even_eqI [OF assms(1-4)] assms(5) show ?thesis by simp
qed

lemma fl_whole: "0 \<le> n \<Longrightarrow> n \<le> 2 ^ 53 \<Longrightarrow> fl (of_int n) = Fin (of_int n)"
  by (rule fl_int) simp

lemma dur_seconds_whole:
  assumes "1 \<le> n" "n \<le> 2 ^ 53"
  shows "dur_seconds (n * 1000000000) = Fin (of_int n)"
  using fl_whole [of n] fl_whole [of 0] assms
  by (simp add: dur_seconds_def Let_def float_of_int_def sgn_mult abs_mult)

lemma five_values:
  "fl (5 / 60) = Fin (6004799503160661 / 2 ^ 56)"
  "fl (2 * (6004799503160661 / 2 ^ 56)) = Fin (6004799503160661 / 2 ^ 55)"
  "fl (0 + 6004799503160661 / 2 ^ 55) = Fin (6004799503160661 / 2 ^ 55)"
  "fl (1 + - (6004799503160661 / 2 ^ 55)) = Fin (7505999378950827 / 2 ^ 53)"
  "fl (7505999378950827 / 2 ^ 53 / (6004799503160661 / 2 ^ 56)) = Fin (5629499534213121 / 2 ^ 49)"
  "fl (10 * (6004799503160661 / 2 ^ 56)) = Fin (7505999378950826 / 2 ^ 53)"
  "fl (6004799503160661 / 2 ^ 55 + 7505999378950826 / 2 ^ 53) = Fin (9007199254740991 / 2 ^ 53)"
  using fl_value [of "- 56" "5 / 60" 6004799503160661]
    fl_value [of "- 55" "2 * (6004799503160661 / 2 ^ 56)" 6004799503160661]
    fl_value [of "- 55" "0 + 6004799503160661 / 2 ^ 55" 6004799503160661]
    fl_value [of "- 53" "1 + - (6004799503160661 / 2 ^ 55)" 7505999378950827]
    fl_value [of "- 49" "7505999378950827 / 2 ^ 53 / (6004799503160661 / 2 ^ 56)" 5629499534213121]
    fl_value [of "- 53" "10 * (6004799503160661 / 2 ^ 56)" 7505999378950826]
    fl_value [of "- 53" "6004799503160661 / 2 ^ 55 + 7505999378950826 / 2 ^ 53" 9007199254740991]
  by (simp_all add: power_int_def power_divide)

definition five :: limiter where
  "five = new_limiter (Fin 5) 1"

definition five_left :: "string \<Rightarrow> rat \<Rightarrow> time \<Rightarrow> limiter" where
  "five_left label t now = five\<lparr>buckets := (\<lambda>_. None)(label \<mapsto> \<lparr>tokens = Fin t, last_at = now\<rparr>)\<rparr>"

lemma five_config: "rate_per_sec five = Fin (6004799503160661 / 2 ^ 56)" "burst_cap five = Fin 1" "buckets five = (\<lambda>_. None)"
  using five_values(1) new_burst [of "Fin 5" 1] new_buckets [of "Fin 5" 1]
  by (simp_all add: five_def) (simp_all add: new_limiter_def Let_def)

lemma five_first: "allow oor (Some five) label 0 = ((True, 0), Some (five_left label 0 0))"
  using fsub_int [of 0] by (simp add: allow_def Let_def five_config refill_same_instant five_left_def)

lemma five_refill:
  assumes "fl (of_int n * (6004799503160661 / 2 ^ 56)) = Fin g" "fl (t + g) = Fin u" "u \<le> 1" "1 \<le> n" "n \<le> 2 ^ 30"
  shows "refill (five_left label t at0) \<lparr>tokens = Fin t, last_at = at0\<rparr> (at0 + n * 1000000000) = Fin u"
proof -
  have "time_sub (at0 + n * 1000000000) at0 = n * 1000000000" using assms(4,5) by (simp add: time_sub_def max_int64_def min_int64_def)
  moreover have "dur_seconds (n * 1000000000) = Fin (of_int n)" using assms(4,5) by (intro dur_seconds_whole) simp_all
  ultimately show ?thesis using assms(1-4) by (simp add: refill_def Let_def five_left_def five_config)
qed

lemma five_denies:
  assumes "refill (five_left label t at0) \<lparr>tokens = Fin t, last_at = at0\<rparr> now = Fin u" "u < 1"
  shows "allow oor (Some (five_left label t at0)) label now =
    ((False, float_to_int64 oor (fmul (fdiv (fsub (Fin 1) (Fin u)) (rate_per_sec five)) (Fin (of_int second)))),
     Some (five_left label u now))"
  using assms by (simp add: allow_def Let_def five_left_def five_config)

lemma five_wait:
  "float_to_int64 oor (fmul (fdiv (fsub (Fin 1) (Fin (6004799503160661 / 2 ^ 55))) (rate_per_sec five)) (Fin (of_int second))) =
     10000000000"
proof -
  let ?x = "5629499534213121 / 2 ^ 49 * 1000000000 :: rat"
  have up: "round_even (20000000001 / 2) = 20000000001 / 2" using round_even_exact [of 20000000001 "- 1"] by (simp add: power_int_def)
  have dn: "round_even 10000000000 = 10000000000" using binary64.int_exact [of 10000000000] by simp
  have "10000000000 \<le> round_even ?x" by (rule binary64.ge_fixed [OF _ dn]) simp
  moreover have "round_even ?x \<le> 20000000001 / 2" by (rule binary64.le_fixed [OF _ up]) simp
  ultimately have "\<lfloor>round_even ?x\<rfloor> = 10000000000" by (intro floor_unique) simp_all
  moreover have "fl ?x = Fin (round_even ?x)" by (rule fl_small) simp
  moreover have "0 \<le> round_even ?x" by (rule binary64.nonneg) simp
  ultimately show ?thesis using five_values(4,5)
    by (simp add: fsub_def five_config second_def float_to_int64_def Let_def)
qed

lemma five_second:
  "allow oor (Some (five_left label 0 0)) label 2000000000 =
     ((False, 10000000000), Some (five_left label (6004799503160661 / 2 ^ 55) 2000000000))"
  using five_denies [OF five_refill [OF _ five_values(3), of 2 label 0]] five_values(2) five_wait by simp

lemma five_told: "retry_seconds oor 10000000000 = 10"
  using dur_seconds_whole [of 10] by (simp add: retry_seconds_def)

text \<open>C38: \<open>Retry-After\<close> can be one second short. At five a minute and a burst of one, a key is served,
  throttled two seconds later and told to come back in ten seconds; coming back after exactly ten
  seconds it is throttled again, because the rounded tokens stop one unit in the last place below one.\<close>

theorem retry_after_short:
  "\<exists>lm lm'. calls oor (Some (new_limiter (Fin 5) 1)) [(label, 0)] = ([True], lm) \<and>
     allow oor lm label (2 * second) = ((False, 10 * second), lm') \<and>
     retry_seconds oor (10 * second) = 10 \<and>
     \<not> fst (fst (allow oor lm' label (2 * second + 10 * second)))"
proof -
  let ?t = "6004799503160661 / 2 ^ 55 :: rat"
  have "refill (five_left label ?t 2000000000) \<lparr>tokens = Fin ?t, last_at = 2000000000\<rparr> (2000000000 + 10 * 1000000000) =
      Fin (9007199254740991 / 2 ^ 53)"
    by (rule five_refill [OF _ five_values(7)]) (use five_values(6) in simp_all)
  from five_denies [OF this, of oor] have "\<not> fst (fst (allow oor (Some (five_left label ?t 2000000000)) label 12000000000))" by simp
  moreover have "calls oor (Some (new_limiter (Fin 5) 1)) [(label, 0)] = ([True], Some (five_left label 0 0))"
    using five_first [of oor label] by (simp add: five_def)
  ultimately show ?thesis using five_second [of oor label] five_told [of oor] by (auto simp: second_def)
qed

theorem retry_after_suffices_witness:
  "fst (fst (allow (\<lambda>_. 0) (Some (five_left ''a'' (6004799503160661 / 2 ^ 55) 2000000000)) ''a'' 13000000000))"
proof (rule retry_after_suffices)
  show "rate_per_sec (new_limiter (Fin 5) 1) = Fin (6004799503160661 / 2 ^ 56)"
    using five_config(1) by (simp add: five_def)
  show "calls (\<lambda>_. 0) (Some (new_limiter (Fin 5) 1)) [(''a'', 0)] = ([True], Some (five_left ''a'' 0 0))"
    using five_first [of "\<lambda>_. 0" "''a''"] by (simp add: five_def)
  show "allow (\<lambda>_. 0) (Some (five_left ''a'' 0 0)) ''a'' 2000000000 =
      ((False, 10000000000), Some (five_left ''a'' (6004799503160661 / 2 ^ 55) 2000000000))"
    by (rule five_second)
  show "calls (\<lambda>_. 0) (Some (five_left ''a'' (6004799503160661 / 2 ^ 55) 2000000000)) [] =
      ([], Some (five_left ''a'' (6004799503160661 / 2 ^ 55) 2000000000))" by simp
qed (simp_all add: five_told second_def)

end
