(* ===== verification/PathGuard.thy ===== *)
theory PathGuard
  imports RouterSpec AuthSpec
begin

text \<open>
  What the router keeps from the nodes: chassis power and alias writes. The refusals look at the
  path of the request, so this theory also says when that is the path a node reads, and what becomes
  of a request target that has none.
\<close>

section \<open>The path a node reads\<close>

lemma unescape_escaped_path:
  assumes "path u \<noteq> ''*''"
  shows "unescape EncodePath (escaped_path u) = Some (path u)"
  using assms by (auto simp: escaped_path_def unescape_escape)

lemma request_uri_path:
  assumes "opaque u = []" "path u = CHR ''/'' # p"
  shows "unescape EncodePath (fst (cut (request_uri u) CHR ''?'')) = Some (path u)"
proof -
  have "escaped_path u \<noteq> []" using assms(2) by (intro escaped_path_ne) simp
  moreover have "unescape EncodePath (escaped_path u) = Some (path u)"
    using assms(2) by (intro unescape_escaped_path) simp
  ultimately show ?thesis
    using assms(1) escaped_path_no_question [of u] by (simp add: request_uri_def Let_def cut_found cut_not_found)
qed

lemma outbound_url:
  assumes "outbound_of r addr = Some ob"
  shows "req_url (ob_request ob) = (req_url r)\<lparr>scheme := ''http'', raw_query := clean_query (raw_query (req_url r))\<rparr>"
  using assms by (auto simp: outbound_of_def Let_def split: if_splits)

lemma outbound_path:
  assumes "outbound_of r addr = Some ob" "opaque (req_url r) = []" "path (req_url r) = CHR ''/'' # p"
  shows "unescape EncodePath (fst (cut (request_uri (req_url (ob_request ob))) CHR ''?'')) = Some (path (req_url r))"
  using request_uri_path [of "req_url (ob_request ob)" p] assms(2,3) by (simp add: outbound_url [OF assms(1)])

section \<open>Refusals\<close>

text \<open>C13: chassis power cannot be reached through the gateway by a request whose target has a path,
  that is, is not opaque. However the path is spelt, with doubled slashes, dot segments, detours, a
  trailing slash or other ASCII case, if it resolves to one of the two power endpoints it is answered
  with 403, whatever the method, and nothing else happens; and the path this is decided on is the one
  a node decodes from the request line of any forward of the request.\<close>

theorem power_denied:
  assumes "documented_paths V" and "opaque (req_url r) = []" and "path (req_url r) = CHR ''/'' # p"
  shows "(map to_lower (resolve (path (req_url r))) \<in> power_elems \<longrightarrow>
       (\<exists>res. serve_http V rt env r sd st = (Reply [] res, sd, st) \<and> status res = status_forbidden)) \<and>
     (\<forall>addr ob. outbound_of r addr = Some ob \<longrightarrow>
       unescape EncodePath (fst (cut (request_uri (req_url (ob_request ob))) CHR ''?'')) = Some (path (req_url r)))"
  using power_path_denied [OF assms(1), of p] assms(2,3) outbound_path [of r]
  by (simp add: serve_http_def secure_error_def write_error_def)

theorem power_denied_witness:
  "\<exists>res. serve_http sample_viiwork sample_router sample_env (get_of ''POST'' ''/v1//x/../POWER/.'') sample_side sample_state =
     (Reply [] res, sample_side, sample_state) \<and> status res = status_forbidden"
proof -
  let ?r = "get_of ''POST'' ''/v1//x/../POWER/.''"
  have "opaque (req_url ?r) = []" "path (req_url ?r) = CHR ''/'' # ''v1//x/../POWER/.''"
    by (simp_all add: get_of_def sample_wire_def)
  from power_denied [OF documented_sample this, of sample_router sample_env sample_side sample_state]
  have "map to_lower (resolve (path (req_url ?r))) \<in> power_elems \<longrightarrow>
      (\<exists>res. serve_http sample_viiwork sample_router sample_env ?r sample_side sample_state =
         (Reply [] res, sample_side, sample_state) \<and> status res = status_forbidden)" by (rule conjunct1)
  moreover have "map to_lower (resolve (path (req_url ?r))) \<in> power_elems"
    unfolding get_of_def sample_wire_def by code_simp
  ultimately show ?thesis by (rule mp)
qed

text \<open>C14: the alias table cannot be written through the gateway by a request whose target has a path, as
  far as ASCII letter case goes. Any method but GET and HEAD, one a later node version adds included,
  on a path that resolves to the alias endpoint or below is answered with 403 and nothing else
  happens.\<close>

theorem alias_write_denied:
  assumes "documented_paths V" and "path (req_url r) = CHR ''/'' # p"
    and "map to_lower (resolve (path (req_url r))) = [''v1'', ''aliases''] @ rest"
    and "req_method r \<notin> {''GET'', ''HEAD''}"
  shows "\<exists>res. serve_http V rt env r sd st = (Reply [] res, sd, st) \<and> status res = status_forbidden"
  using alias_path_denied [OF assms(1), of p rest "req_method r"] assms(2-4)
  by (cases "is_power_path V (CHR ''/'' # p)") (simp_all add: serve_http_def Let_def secure_error_def write_error_def)

theorem alias_write_denied_witness:
  "\<exists>res. serve_http sample_viiwork sample_router sample_env (get_of ''PATCH'' ''/v1/./Aliases/q/revert/'') sample_side sample_state =
     (Reply [] res, sample_side, sample_state) \<and> status res = status_forbidden"
proof (rule alias_write_denied [OF documented_sample])
  show "path (req_url (get_of ''PATCH'' ''/v1/./Aliases/q/revert/'')) = CHR ''/'' # ''v1/./Aliases/q/revert/''"
    by (simp add: get_of_def)
  show "map to_lower (resolve (path (req_url (get_of ''PATCH'' ''/v1/./Aliases/q/revert/'')))) =
      [''v1'', ''aliases''] @ [''q'', ''revert'']"
    unfolding get_of_def sample_wire_def by code_simp
  show "req_method (get_of ''PATCH'' ''/v1/./Aliases/q/revert/'') \<notin> {''GET'', ''HEAD''}"
    by (simp add: get_of_def)
qed

text \<open>The alias prefix test is not folded as the exact test is. \<open>hasPrefixFold\<close> compares the first
  \<open>len(prefix)\<close> bytes of the path, so a letter whose fold has another length, the long s of two
  bytes, is recognised at the end of the exact endpoint and not in a path below it.\<close>

theorem alias_fold_gap:
  "is_alias_write sample_viiwork ''POST'' (''/v1/aliase'' @ [CHR 0xC5, CHR 0xBF]) \<and>
   \<not> is_alias_write sample_viiwork ''POST'' (''/v1/aliase'' @ [CHR 0xC5, CHR 0xBF] @ ''/q'')"
  unfolding is_alias_write_def sample_viiwork_def by code_simp

section \<open>Targets without a path\<close>

lemma empty_path_plain:
  assumes "documented_paths V"
  shows "\<not> is_power_path V []" "\<not> is_alias_write V mthd []"
proof -
  have "\<not> equal_fold (trimmed_clean []) ''/v1/power''" "\<not> equal_fold (trimmed_clean []) ''/v1/mesh/power''"
    "\<not> equal_fold (trimmed_clean []) ''/v1/aliases''" "\<not> has_prefix_fold (trimmed_clean []) ''/v1/aliases/''"
    by code_simp+
  with assms show "\<not> is_power_path V []" "\<not> is_alias_write V mthd []"
    by (simp_all add: is_power_path_def is_alias_write_def documented_paths_def)
qed

text \<open>C40: an opaque request target walks past both refusals. A target such as
  \<open>x:http://n/v1/power\<close> is parsed to an empty path, which is no power path and no alias path, so
  the request is forwarded to the view node like any other; and since the reverse proxy keeps the
  opaque part, what the request line to the node says is \<open>http://n/v1/power\<close>, the absolute form of
  the very path that is to be denied.\<close>

theorem opaque_unguarded:
  assumes "documented_paths V" and "path_completions V \<noteq> [] \<and> path_embeddings V \<noteq> []"
    and "path (req_url r) = [] \<and> opaque (req_url r) = target"
    and "target \<noteq> [] \<and> \<not> has_prefix target ''//'' \<and> raw_query (req_url r) = [] \<and> \<not> force_query (req_url r)"
    and "in_flight st < rt_capacity rt" and "fleet_view V (re_view env) (fleet st) = (Some t, p)"
    and "fst (read_body rt (re_body_now env) r sd) = Inr (b, r')" and "outbound_of r' (t_api_addr t) = Some ob"
  shows "fst (serve_http V rt env r sd st) =
       settle (forward_to (re_first env) r' (t_api_addr t)) (t_node t) \<and>
     request_uri (req_url (ob_request ob)) = target"
proof -
  have "\<not> is_inference_path V []"
    using assms(1,2) by (auto simp: is_inference_path_def documented_paths_def)
  then have "serve_http V rt env r sd st = route_to_view V rt env r sd st"
    using empty_path_plain [OF assms(1)] assms(3) by (simp add: serve_http_def landing_path_def)
  moreover obtain sd' where rb: "read_body rt (re_body_now env) r sd = (Inr (b, r'), sd')"
    using assms(7) by (cases "read_body rt (re_body_now env) r sd") auto
  moreover have "req_url r' = req_url r"
    using rb by (auto simp: read_body_def result_iff with_body_def split: option.splits if_splits)
  moreover have "clean_query [] = []" by code_simp
  ultimately show ?thesis
    using assms(3-6,8) outbound_url [OF assms(8)]
    by (simp add: route_to_view_def with_token_def try_acquire_def to_view_def request_uri_def Let_def)
qed

definition opaque_request :: request where
  "opaque_request = sample_wire\<lparr>req_method := ''POST'', req_url := (req_url sample_wire)\<lparr>scheme := ''x'',
     opaque := ''http://n/v1/power'', path := [], raw_query := []\<rparr>\<rparr>"

theorem opaque_unguarded_witness:
  "\<exists>ob. outbound_of opaque_request ''a:8086'' = Some ob \<and> request_uri (req_url (ob_request ob)) = ''http://n/v1/power''"
proof -
  have v: "fleet_view sample_viiwork (re_view sample_env) (fleet sample_state) =
      (Some (sample_target ''a''), sample_picker\<lparr>view := ''a''\<rparr>)"
    using sample_view by (simp add: fleet_view_def sample_env_def sample_state_def)
  have b: "fst (read_body sample_router (re_body_now sample_env) opaque_request sample_side) = Inr ([], opaque_request)"
    by (simp add: read_body_def opaque_request_def sample_wire_def)
  have u: "path_completions sample_viiwork \<noteq> [] \<and> path_embeddings sample_viiwork \<noteq> []"
    "path (req_url opaque_request) = [] \<and> opaque (req_url opaque_request) = ''http://n/v1/power''"
    "''http://n/v1/power'' \<noteq> [] \<and> \<not> has_prefix ''http://n/v1/power'' ''//'' \<and>
     raw_query (req_url opaque_request) = [] \<and> \<not> force_query (req_url opaque_request)"
    by (simp_all add: opaque_request_def sample_wire_def has_prefix_def sample_viiwork_def)
  have c: "in_flight sample_state < rt_capacity sample_router"
    by (simp add: sample_state_def sample_router_def new_router_def)
  have "upgrade_type (req_header opaque_request) = []" using sample_upgrade by (simp add: opaque_request_def)
  then obtain ob where "outbound_of opaque_request (t_api_addr (sample_target ''a'')) = Some ob"
    by (simp add: outbound_of_def Let_def)
  with opaque_unguarded [OF documented_sample u c v b this] show ?thesis by (auto simp: sample_target_def)
qed

end
