(* ===== verification/Spec2Isabelle.thy ===== *)
theory Spec2Isabelle
  imports AuthSpec PickerSpec RateLimitSpec ForwardSpec RouterSpec ConfigSpec GatewaySpec SystemSpec
    SystemBounds SystemRate GatewayRun GatewayLog SystemBook FleetStart RetryAfter JsonEncode
    PathGuard
begin

text \<open>
  The viiwork gateway exposes a mesh of inference nodes on one authenticated port. A request passes
  three handlers, composed by \<open>buildHandler\<close> (cmd/viiwork-gateway/main.go): the authentication
  middleware, which lets through what presents a key or a session cookie and takes the credentials
  out; the access log, which records one line; and the router, which denies two families of paths,
  routes inference by model and everything else to the view node, and forwards through a reverse
  proxy. The router shares three pieces of state between all requests: the rate limiter's buckets,
  the semaphore of requests in flight, and the picker with its reservations and rotation. Around
  this stands the process, which reads its configuration, joins the mesh, serves and leaves.

  The parts of the program and their theories.

  \<^item> API keys, internal/keys/keys.go: KeyStore. \<open>keys_load\<close> is \<open>Load\<close>, with its duplicate
    detection and its errors; \<open>keys_lookup\<close> is the constant-time scan.
  \<^item> Session tokens, internal/auth/token.go: Token, on Sha256 (SHA-256 and HMAC on \<open>32 word\<close>) and
    Base64. Nothing about the hash is assumed: the properties say what verifying compares.
  \<^item> Authentication, internal/auth/middleware.go and errors.go: Auth and GoRedirect. \<open>wrap\<close> is
    \<open>Wrap\<close>; its outcome is a forwarded request, the bootstrap redirect or a rejection. JsonEncode is
    the body \<open>WriteError\<close> writes, byte for byte.
  \<^item> Client attribution, internal/clientip/clientip.go: ClientIp, on NetAddr.
  \<^item> Node choice, internal/fleet/picker.go: Picker. The state is the record \<open>picker\<close>: the
    reservations by identifier, the rotation by model and the view node. \<open>pick\<close>, \<open>call_release\<close> and
    \<open>view_pick\<close> are \<open>Pick\<close>, the function it returns, and \<open>View\<close>.
  \<^item> Mesh membership, internal/fleet/fleet.go: Fleet. \<open>fleet_start\<close>, \<open>on_change\<close> and \<open>fleet_close\<close>;
    \<open>fleet_pick\<close> and \<open>fleet_view\<close> (PickerSpec) are \<open>Fleet.Pick\<close> and \<open>Fleet.View\<close>. FleetStart has the
    start-up with the mesh's callbacks on other goroutines: \<open>start_step\<close> takes the load of the poller's
    pointer, the call of the poller, the log line and the store as steps of their own.
  \<^item> Rate limiter, internal/ratelimit/ratelimit.go: RateLimit, on GoFloat, which rounds to IEEE
    binary64 as the code's arithmetic does, infinities and NaN included.
  \<^item> Forwarder, internal/proxy/forward.go and headers.go: Forward. \<open>outbound_of\<close> is the request a node
    is sent, \<open>forward_to\<close> is \<open>To\<close> with the reverse proxy, \<open>modify_response\<close> its hook and
    \<open>error_handler\<close> its error handler, over errors with what they wrap (\<open>go_error\<close>, \<open>chain\<close>), which
    reports to \<open>To\<close> through an \<open>unreachable_holder\<close>. An
    answer may switch protocols. The transport is an argument, from what is sent to how the round
    trip ends; where the reverse proxy itself gives a forward up, whether the client is gone by then
    is a field of the request. \<open>final_response\<close> adds the implicit 200 of \<open>net/http\<close> for a handler that
    wrote nothing.
  \<^item> Router, internal/proxy/router.go and requestinfo.go: Router. \<open>serve_http\<close> is \<open>ServeHTTP\<close> for one
    request on the shared state \<open>gw_state\<close>; GoJson reads the model out of the body as
    \<open>encoding/json\<close> does. A failed first forward leaves the request with its body partly read
    (\<open>consume\<close>), which \<open>reset_body\<close> makes good.
  \<^item> The same with many requests at once: System. \<open>step\<close> is one atomic step of one request, from one
    \<open>phase\<close> to the next; \<open>moves\<close> lets any request of the process take a step or arrive, and
    \<open>reached\<close> counts the moves since a fresh state. The same runs with a record of what happened:
    \<open>metered\<close> (SystemRate) has the calls of the limiter, \<open>traced\<close> (GatewayRun) what came in through
    the middleware and what was sent to nodes, \<open>logged\<close> (GatewayLog) what was answered with which line,
    \<open>booked\<close> (SystemBook) the calls of the picker; \<open>advances\<close> (SystemBounds) is a move without
    arrivals. Lemmas show that each of these is a run of \<open>reached\<close>, that every run of \<open>reached\<close> is
    one of \<open>metered\<close> and one of \<open>booked\<close>, and that \<open>traced\<close> and \<open>logged\<close> are the same runs.
  \<^item> Access log, internal/accesslog/accesslog.go: AccessLog. \<open>rec_call\<close> is the recorder under one call,
    \<open>log_wrap\<close> is \<open>Wrap\<close>.
  \<^item> Configuration, internal/config/config.go: Config, on GoParse (\<open>time.ParseDuration\<close>,
    \<open>strconv.ParseFloat\<close>, \<open>netip.ParseAddr\<close>). \<open>load_config\<close> is \<open>Load\<close>.
  \<^item> Process, cmd/viiwork-gateway/main.go: Gateway. \<open>handle\<close> is one request through the pipeline of
    \<open>build_handler\<close>; \<open>serve_loop\<close> and \<open>main_run\<close> are the process as the list of what it does.

  Prelude holds the result type, the lemma collections and facts on lists and association lists;
  GoStrings, GoNum, GoPath, GoUrl and Http hold the part of Go's library the program uses. A Go
  string is a list of bytes. MeshApi holds the third-party mesh client as a record of parameters
  with its documented constants.

  What the lemmas show.

  \<^item> AuthSpec: exactly the requests with a loaded key or a valid token get through, without their
    credentials; tokens round-trip until they expire; the bootstrap logs in and its redirect, but
    for an opaque target, stays on this origin and drops the key; the attributed address is the proxy's.
  \<^item> PickerSpec: the picked node serves the model and none is better; a full tie rotates; a pick
    reserves and a release gives back exactly that. The locale \<open>fleet_iface\<close> is the router's
    interface to the fleet, interpreted on the picker as \<open>mesh_fleet\<close>.
  \<^item> PickerRefine: the picker refines an abstract book of claims (\<open>book_step\<close>), which knows no
    identifiers, no rotation and no sorting, over every history of calls; the simulation relation is
    \<open>pictures\<close>. SystemBook: so does the picker inside the interleaved gateway.
  \<^item> FleetStart: no membership event is lost or handed over twice at start-up.
  \<^item> RateLimitSpec: with rounded arithmetic, no key spends more than its burst at one instant, and
    keys do not affect each other, while a rate of NaN locks keys out. RateBound: over time no more than burst and rate allow, with the
    error of the rounding (GoRound) made explicit. RetryAfter: when the wait a client is told is
    enough, and that it can be one second short.
  \<^item> JsonEncode: an error body reads back as its message and holds no markup.
  \<^item> ForwardSpec and RouterSpec: what a node sees, what a client sees, one retry and only when nothing
    can have run, and the balance of tokens and reservations on every branch.
  \<^item> PathGuard: denials for every spelling of a path, up to ASCII case, and that an opaque request
    target, which has no path, is not denied.
  \<^item> ConfigSpec: the ranges an accepted configuration has been checked for, and some it has not; sizes
    are exact; errors tell nothing of the secrets but whether they are set and decode and to how many
    bytes.
  \<^item> GatewaySpec: nothing unauthenticated reaches the router, no credential reaches a node, the log
    line is true, a configured rate of NaN locks keys out, the process joins and leaves in order.
  \<^item> SystemSpec: in every reachable state the semaphore's count is the number of requests that hold a
    token and at most the cap, and the outstanding reservations are those of the forwards under way;
    every request ends; alone, a request computes what \<open>serve_http\<close> computes.
  \<^item> SystemBounds, SystemRate and GatewayRun: in every interleaving the bodies in memory, the requests
    of a key let through and the requests sent to nodes are bounded; the process drains once nobody
    arrives; whatever a node is sent is free of credentials and for a key that was presented; and
    from the configuration through \<open>build_handler\<close> to every run, the limits that were configured hold.
  \<^item> GatewayLog: in every interleaving each request leaves one line, or is still open, and every access
    line says whose request it was, the first status written for it and how many bytes. The two models
    of the pipeline agree: alone, a request goes through the steps to what \<open>handle\<close> computes.

  Bounds. Go's \<open>int\<close> and \<open>int64\<close> are integers with \<open>wrap64\<close> where the code can wrap, reservation
  identifiers are \<open>64 word\<close>: they are fresh as long as fewer than \<open>2 ^ 64\<close> picks have been made since
  the oldest outstanding one, which is the budget \<open>id_budget\<close> the picker's invariant carries and the
  bound on the number of moves in SystemSpec. A request takes at most eight steps of its own. No
  definition needs fuel.

  Not modelled, and why.

  \<^item> Trailers, and when bytes are flushed: the reverse proxy copies them without the gateway's code
    taking part. Of a switched protocol only what the node sends is kept, as the reply's body.
  \<^item> The text of error and log messages, except where a property is about it.
  \<^item> The transport: its timeouts, its pool of connections and its own repetition of idempotent
    requests on a stale connection are inside the parameter, and a dial error is taken as the
    standard library documents it, as nothing having reached the node.
  \<^item> The mesh client, the HTTP server with its timeouts, signals and the operating system: what they
    return is an argument.
  \<^item> Reading the clock more often than the code does, or two clocks that disagree, needs no
    hypothesis: every read is an argument of its own.
  \<^item> Go's configurable cap on the number of query parameters.
\<close>

end
